(* ===== verification/Prelude.thy ===== *)
theory Prelude
  imports Main "HOL-Library.Word" "HOL-Library.Monad_Syntax" "HOL-Library.List_Lexorder"
begin

text \<open>
  What every component of the development shares: the names of the machine types, the two
  ways a Go function can fail, and the generic facts on lists and words that the component
  proofs use.

  \<^item> A Go call that may panic, or that may never return, has a result of type \<open>'a option\<close>:
    \<open>None\<close> is a call that does not come back to its caller.
  \<^item> A Go call that may return an error has a result of type \<open>'e + 'a\<close>: \<open>Inl\<close> is the
    error, \<open>Inr\<close> the value returned beside a nil error.
  \<^item> A call that may do both has a result of type \<open>('e + 'a) option\<close>.

  A byte slice is a list of bytes, a Go string the list of its bytes as characters. A
  \<open>time.Time\<close> is the number of nanoseconds since Go's zero time, so that \<open>IsZero\<close> is
  equality with 0, and a \<open>time.Duration\<close> is an integer number of nanoseconds.
\<close>

unbundle bit_operations_syntax

type_synonym byte = "8 word"
type_synonym bytes = "byte list"
type_synonym uint16 = "16 word"
type_synonym uint32 = "32 word"
type_synonym uint64 = "64 word"
type_synonym time = int
type_synonym duration = int

named_theorems go_defs \<open>definitions of straight-line code, unfolded by the component proofs\<close>
named_theorems go_splits \<open>case splits of the two failure types\<close>

section \<open>The two failure types\<close>

definition bindR :: "'e + 'a \<Rightarrow> ('a \<Rightarrow> 'e + 'b) \<Rightarrow> 'e + 'b" where
  "bindR x f = (case x of Inl e \<Rightarrow> Inl e | Inr a \<Rightarrow> f a)"

definition bindP :: "('e + 'a) option \<Rightarrow> ('a \<Rightarrow> ('e + 'b) option) \<Rightarrow> ('e + 'b) option" where
  "bindP x f = (case x of None \<Rightarrow> None
                | Some r \<Rightarrow> (case r of Inl e \<Rightarrow> Some (Inl e) | Inr a \<Rightarrow> f a))"

definition of_option :: "'e \<Rightarrow> 'a option \<Rightarrow> 'e + 'a" where
  "of_option e x = (case x of None \<Rightarrow> Inl e | Some a \<Rightarrow> Inr a)"

lemma bindR_simps [simp]:
  "bindR (Inl e) f = Inl e" "bindR (Inr a) f = f a"
  by (simp_all add: bindR_def)

lemma bindP_simps [simp]:
  "bindP None f = None" "bindP (Some (Inl e)) f = Some (Inl e)" "bindP (Some (Inr a)) f = f a"
  by (simp_all add: bindP_def)

lemma of_option_simps [simp]:
  "of_option e None = Inl e" "of_option e (Some a) = Inr a"
  by (simp_all add: of_option_def)

lemma bindR_eq_Inr: "bindR x f = Inr b \<longleftrightarrow> (\<exists>a. x = Inr a \<and> f a = Inr b)"
  by (cases x) simp_all

lemma bindP_eq_Some_Inr:
  "bindP x f = Some (Inr b) \<longleftrightarrow> (\<exists>a. x = Some (Inr a) \<and> f a = Some (Inr b))"
  by (cases x rule: option.exhaust) (auto simp: bindP_def split: sum.splits)

lemma of_option_eq_Inr: "of_option e x = Inr a \<longleftrightarrow> x = Some a"
  by (cases x) simp_all

lemma bindR_assoc: "bindR (bindR x f) g = bindR x (\<lambda>a. bindR (f a) g)"
  by (cases x) simp_all

section \<open>Indexing that panics\<close>

text \<open>\<open>xs[i]\<close> on a slice: a panic out of range.\<close>

definition index :: "'a list \<Rightarrow> nat \<Rightarrow> 'a option" where
  "index xs i = (if i < length xs then Some (xs ! i) else None)"

lemma index_Some [simp]: "i < length xs \<Longrightarrow> index xs i = Some (xs ! i)"
  by (simp add: index_def)

lemma index_None [simp]: "length xs \<le> i \<Longrightarrow> index xs i = None"
  by (simp add: index_def)

text \<open>The same where the index is an \<open>int\<close> that may be negative.\<close>

definition index_int :: "'a list \<Rightarrow> int \<Rightarrow> 'a option" where
  "index_int xs i = (if i < 0 then None else index xs (nat i))"

lemma index_int_of_nat [simp]: "index_int xs (int i) = index xs i"
  by (simp add: index_int_def)

lemma index_int_Suc [simp]: "index_int xs (int i + 1) = index xs (Suc i)"
  by (simp add: index_int_def nat_add_distrib)

lemma index_int_negative [simp]: "i < 0 \<Longrightarrow> index_int xs i = None"
  by (simp add: index_int_def)

section \<open>Strings as bytes\<close>

definition byte_of_char :: "char \<Rightarrow> byte" where
  "byte_of_char c = word_of_nat (of_char c)"

definition char_of_byte :: "byte \<Rightarrow> char" where
  "char_of_byte b = char_of (unat b)"

definition bytes_of_string :: "string \<Rightarrow> bytes" where
  "bytes_of_string s = map byte_of_char s"

definition string_of_bytes :: "bytes \<Rightarrow> string" where
  "string_of_bytes bs = map char_of_byte bs"

lemma unat_byte_of_char [simp]: "unat (byte_of_char c) = of_char c"
  by (simp add: byte_of_char_def unat_of_nat)

lemma char_of_byte_of_char [simp]: "char_of_byte (byte_of_char c) = c"
  by (simp add: char_of_byte_def)

lemma unat_byte_less [simp]: "unat (b :: byte) < 256"
  using unsigned_less [of b] by simp

lemma byte_of_char_of_byte [simp]: "byte_of_char (char_of_byte b) = b"
  by (simp add: byte_of_char_def char_of_byte_def)

lemma string_of_bytes_of_string [simp]: "string_of_bytes (bytes_of_string s) = s"
  by (simp add: string_of_bytes_def bytes_of_string_def o_def)

lemma bytes_of_string_of_bytes [simp]: "bytes_of_string (string_of_bytes bs) = bs"
  by (simp add: string_of_bytes_def bytes_of_string_def o_def)

lemma length_bytes_of_string [simp]: "length (bytes_of_string s) = length s"
  by (simp add: bytes_of_string_def)

lemma length_string_of_bytes [simp]: "length (string_of_bytes bs) = length bs"
  by (simp add: string_of_bytes_def)

lemma inj_bytes_of_string: "bytes_of_string s = bytes_of_string t \<longleftrightarrow> s = t"
  by (metis string_of_bytes_of_string)

section \<open>Lists\<close>

lemma sum_list_map_length_concat: "sum_list (map length xss) = length (concat xss)"
  by (simp add: length_concat)

lemma distinct_map_filter_keys: "distinct (map f xs) \<Longrightarrow> distinct (map f (filter P xs))"
  by (induction xs) auto

lemma nth_update_last:
  "xs \<noteq> [] \<Longrightarrow> xs[length xs - 1 := y] = butlast xs @ [y]"
  by (induction xs rule: rev_induct) simp_all

lemma nth_append_last [simp]: "(xs @ [y]) ! length xs = y"
  by simp

lemma int_length_filter_le: "int (length xs) \<le> k \<Longrightarrow> int (length (filter P xs)) \<le> k"
  using length_filter_le [of P xs] by linarith

end
