(* ===== verification/GoHex.thy ===== *)
theory GoHex
  imports Prelude
begin

text \<open>
  \<open>encoding/hex\<close> of the Go library, and \<open>strings.HasPrefix\<close>: the lower-case encoding of bytes,
  and the decoder with the errors of the library in the order in which it finds them.
\<close>

section \<open>Definitions\<close>

definition HasPrefix :: "string \<Rightarrow> string \<Rightarrow> bool" where
  "HasPrefix s p \<longleftrightarrow> take (length p) s = p"

datatype hex_error = InvalidByteError char | ErrLength

definition hex_digit :: "nat \<Rightarrow> char" where
  "hex_digit n = ''0123456789abcdef'' ! n"

definition hex_EncodeToString :: "bytes \<Rightarrow> string" where
  "hex_EncodeToString bs = concat (map (\<lambda>b. [hex_digit (unat b div 16), hex_digit (unat b mod 16)]) bs)"

definition reverseHex :: "char \<Rightarrow> nat option" where
  "reverseHex c =
     (let n = of_char c :: nat in
      if 48 \<le> n \<and> n \<le> 57 then Some (n - 48)
      else if 97 \<le> n \<and> n \<le> 102 then Some (n - 87)
      else if 65 \<le> n \<and> n \<le> 70 then Some (n - 55)
      else None)"

fun hex_DecodeString :: "string \<Rightarrow> hex_error + bytes" where
  "hex_DecodeString [] = Inr []"
| "hex_DecodeString [p] = (case reverseHex p of None \<Rightarrow> Inl (InvalidByteError p) | Some _ \<Rightarrow> Inl ErrLength)"
| "hex_DecodeString (p # q # s) =
     (case reverseHex p of
        None \<Rightarrow> Inl (InvalidByteError p)
      | Some a \<Rightarrow>
        (case reverseHex q of
           None \<Rightarrow> Inl (InvalidByteError q)
         | Some b \<Rightarrow> bindR (hex_DecodeString s) (\<lambda>bs. Inr (word_of_nat (a * 16 + b) # bs))))"

section \<open>Round trip\<close>

lemma reverseHex_hex_digit: "n < 16 \<Longrightarrow> reverseHex (hex_digit n) = Some n"
proof -
  assume "n < 16"
  moreover have "\<forall>n \<in> set [0..<16]. reverseHex (hex_digit n) = Some n" by code_simp
  ultimately show ?thesis by simp
qed

lemma hex_EncodeToString_simps [simp]:
  "hex_EncodeToString [] = []"
  "hex_EncodeToString (b # bs) = hex_digit (unat b div 16) # hex_digit (unat b mod 16) # hex_EncodeToString bs"
  by (simp_all add: hex_EncodeToString_def)

lemma length_hex_EncodeToString [simp]: "length (hex_EncodeToString bs) = 2 * length bs"
  by (induction bs) simp_all

lemma hex_Decode_Encode [simp]: "hex_DecodeString (hex_EncodeToString bs) = Inr bs"
proof (induction bs)
  case (Cons b bs)
  have "unat b div 16 < 16" using unat_byte_less [of b] by (simp add: less_mult_imp_div_less)
  moreover have "unat b mod 16 < 16" by simp
  moreover have "word_of_nat (unat b div 16 * 16 + unat b mod 16) = b"
    by (simp only: div_mult_mod_eq unsigned_of_nat) simp
  ultimately show ?case using Cons by (simp add: reverseHex_hex_digit)
qed simp

lemma hex_EncodeToString_inj: "hex_EncodeToString a = hex_EncodeToString b \<longleftrightarrow> a = b"
  by (metis hex_Decode_Encode sum.inject(2))

lemma length_hex_DecodeString: "hex_DecodeString s = Inr bs \<Longrightarrow> length s = 2 * length bs"
  by (induction s arbitrary: bs rule: hex_DecodeString.induct)
    (auto simp: bindR_eq_Inr split: option.splits)

lemma HasPrefix_append [simp]: "HasPrefix (p @ s) p"
  by (simp add: HasPrefix_def)

end
