(* ===== verification/GoNet.thy ===== *)
theory GoNet
  imports GoHex
begin

text \<open>
  What the program uses of \<open>strconv\<close> and \<open>net\<close> of the Go library: decimal numbers, IP addresses
  (slices of bytes, of 4 or 16 bytes when they are well formed) and their text, and the UDP and TCP
  addresses made of them.
\<close>

section \<open>Decimal numbers\<close>

definition dec_digit :: "nat \<Rightarrow> char" where
  "dec_digit d = char_of (48 + d)"

fun dec_string :: "nat \<Rightarrow> string" where
  "dec_string n = (if n < 10 then [dec_digit n] else dec_string (n div 10) @ [dec_digit (n mod 10)])"

declare dec_string.simps [simp del]

definition Itoa :: "int \<Rightarrow> string" where
  "Itoa i = (if i < 0 then ''-'' @ dec_string (nat (- i)) else dec_string (nat i))"

definition digit_value :: "char \<Rightarrow> nat option" where
  "digit_value c = (let n = of_char c :: nat in if 48 \<le> n \<and> n \<le> 57 then Some (n - 48) else None)"

datatype num_error = ErrSyntax | ErrRange

text \<open>\<open>ParseUint(s, 10, 16)\<close> and its kin: the value of all the digits read so far must stay within
  the \<open>w\<close> bits; a character that is no digit is an error of syntax, where it is reached first.\<close>

fun ParseUint_loop :: "nat \<Rightarrow> nat \<Rightarrow> string \<Rightarrow> num_error + nat" where
  "ParseUint_loop w n [] = Inr n"
| "ParseUint_loop w n (c # s) =
     (case digit_value c of
        None \<Rightarrow> Inl ErrSyntax
      | Some d \<Rightarrow> (if 2 ^ w \<le> n * 10 + d then Inl ErrRange else ParseUint_loop w (n * 10 + d) s))"

definition ParseUint :: "nat \<Rightarrow> string \<Rightarrow> num_error + nat" where
  "ParseUint w s = (if s = [] then Inl ErrSyntax else ParseUint_loop w 0 s)"

lemma digit_value_dec_digit [simp]: "d < 10 \<Longrightarrow> digit_value (dec_digit d) = Some d"
  by (simp add: digit_value_def dec_digit_def Let_def)

lemma dec_string_nonempty [simp]: "dec_string n \<noteq> []"
  by (subst dec_string.simps) simp

lemma ParseUint_loop_append:
  "ParseUint_loop w n (s @ t) = bindR (ParseUint_loop w n s) (\<lambda>m. ParseUint_loop w m t)"
  by (induction s arbitrary: n) (simp_all split: option.split)

lemma ParseUint_loop_dec_string: "n < 2 ^ w \<Longrightarrow> ParseUint_loop w 0 (dec_string n) = Inr n"
proof (induction n rule: dec_string.induct)
  case (1 n)
  show ?case
  proof (cases "n < 10")
    case True
    then show ?thesis using 1(2) by (subst dec_string.simps) simp
  next
    case False
    moreover have "n div 10 < 2 ^ w" using 1(2) by (meson div_le_dividend le_less_trans)
    ultimately show ?thesis using 1 by (subst dec_string.simps) (simp add: ParseUint_loop_append)
  qed
qed

lemma ParseUint_dec_string [simp]: "n < 2 ^ w \<Longrightarrow> ParseUint w (dec_string n) = Inr n"
  by (simp add: ParseUint_def ParseUint_loop_dec_string)

lemma ParseUint_loop_bound: "ParseUint_loop w n s = Inr m \<Longrightarrow> n < 2 ^ w \<Longrightarrow> m < 2 ^ w"
  by (induction s arbitrary: n) (auto split: option.splits if_splits)

lemma ParseUint_bound: "ParseUint w s = Inr m \<Longrightarrow> m < 2 ^ w"
  by (auto simp: ParseUint_def dest: ParseUint_loop_bound split: if_splits)

lemma dec_string_digits: "c \<in> set (dec_string n) \<Longrightarrow> \<exists>d < 10. c = dec_digit d"
proof (induction n rule: dec_string.induct)
  case (1 n)
  have "n mod 10 < 10" by simp
  then have "\<exists>d < 10. dec_digit (n mod 10) = dec_digit d" by blast
  then show ?case using 1 by (subst (asm) (2) dec_string.simps) (auto split: if_splits)
qed

lemma dec_string_no:
  assumes "\<forall>d \<in> set [0..<10]. c \<noteq> dec_digit d" shows "c \<notin> set (dec_string n)"
  using assms dec_string_digits [of c n] by fastforce

section \<open>IP addresses\<close>

type_synonym IP = bytes

definition v4InV6Prefix :: bytes where
  "v4InV6Prefix = replicate 10 0 @ [255, 255]"

text \<open>\<open>nil\<close> is \<open>None\<close>.\<close>

definition To4 :: "IP \<Rightarrow> IP option" where
  "To4 ip = (if length ip = 4 then Some ip
             else if length ip = 16 \<and> take 12 ip = v4InV6Prefix then Some (drop 12 ip) else None)"

definition To16 :: "IP \<Rightarrow> IP option" where
  "To16 ip = (if length ip = 4 then Some (v4InV6Prefix @ ip) else if length ip = 16 then Some ip else None)"

text \<open>A group of an IPv6 address in hexadecimal without leading zeros.\<close>

fun hex_string :: "nat \<Rightarrow> string" where
  "hex_string n = (if n < 16 then [hex_digit n] else hex_string (n div 16) @ [hex_digit (n mod 16)])"

declare hex_string.simps [simp del]

fun groups :: "bytes \<Rightarrow> nat list" where
  "groups (a # b # s) = (unat a * 256 + unat b) # groups s"
| "groups _ = []"

text \<open>The longest run of zero groups from index \<open>i\<close> on, the first one of several; \<open>e0\<close> and \<open>e1\<close>
  bound the best run so far.\<close>

definition zero_run :: "nat list \<Rightarrow> nat" where
  "zero_run gs = length (takeWhile (\<lambda>g. g = 0) gs)"

function best_run :: "nat list \<Rightarrow> nat \<Rightarrow> nat \<times> nat \<Rightarrow> nat \<times> nat" where
  "best_run gs i (e0, e1) =
     (if length gs \<le> i then (e0, e1)
      else let j = i + zero_run (drop i gs) in
        if e1 - e0 < j - i then best_run gs (Suc j) (i, j) else best_run gs (Suc i) (e0, e1))"
  by pat_completeness auto
termination
  by (relation "measure (\<lambda>(gs, i, e). length gs - i)") auto

fun join_colon :: "string list \<Rightarrow> string" where
  "join_colon [] = []"
| "join_colon [s] = s"
| "join_colon (s # t # ss) = s @ '':'' @ join_colon (t # ss)"

definition IPv6_String :: "bytes \<Rightarrow> string" where
  "IPv6_String ip =
     (let gs = groups ip; (e0, e1) = best_run gs 0 (0, 0)
      in if e1 - e0 < 2 then join_colon (map hex_string gs)
         else join_colon (map hex_string (take e0 gs)) @ ''::'' @ join_colon (map hex_string (drop e1 gs)))"

definition IPv4_String :: "bytes \<Rightarrow> string" where
  "IPv4_String p = dec_string (unat (p ! 0)) @ ''.'' @ dec_string (unat (p ! 1)) @ ''.'' @
     dec_string (unat (p ! 2)) @ ''.'' @ dec_string (unat (p ! 3))"

definition IP_String :: "IP \<Rightarrow> string" where
  "IP_String ip =
     (if ip = [] then ''<nil>''
      else case To4 ip of
        Some p4 \<Rightarrow> IPv4_String p4
      | None \<Rightarrow> if length ip = 16 then IPv6_String ip else ''?'' @ hex_EncodeToString ip)"

definition JoinHostPort :: "string \<Rightarrow> string \<Rightarrow> string" where
  "JoinHostPort host port = (if CHR '':'' \<in> set host then ''['' @ host @ '']:'' @ port else host @ '':'' @ port)"

record UDPAddr =
  addr_IP :: IP
  addr_Port :: int
  addr_Zone :: string

definition UDPAddr_String :: "UDPAddr \<Rightarrow> string" where
  "UDPAddr_String a =
     (let ip = (if addr_IP a = [] then [] else IP_String (addr_IP a))
      in if addr_Zone a \<noteq> [] then JoinHostPort (ip @ ''%'' @ addr_Zone a) (Itoa (addr_Port a))
         else JoinHostPort ip (Itoa (addr_Port a)))"

lemma To4_To16: "To4 ip = Some p \<Longrightarrow> To16 ip = Some (v4InV6Prefix @ p)"
  by (auto simp: To4_def To16_def split: if_splits) (metis append_take_drop_id)

lemma length_To4: "To4 ip = Some p \<Longrightarrow> length p = 4"
  by (auto simp: To4_def split: if_splits)

lemma length_To16: "To16 ip = Some p \<Longrightarrow> length p = 16"
  by (auto simp: To16_def v4InV6Prefix_def split: if_splits)

end
