(* ===== verification/Crypto.thy ===== *)
theory Crypto
  imports GoHex
begin

text \<open>
  The functions of \<open>crypto/crypto.go\<close> over the elliptic curve library
  \<open>github.com/btcsuite/btcd/btcec\<close> and the hash of \<open>golang.org/x/crypto/sha3\<close>. Both are outside
  the repository: their functions are the record \<open>crypto_lib\<close>, a parameter, and what is documented
  of them are the laws of the locale \<open>crypto_laws\<close>. A point is the pair of its coordinates, a
  private key a value of an unknown type. \<open>elliptic.Marshal\<close> and \<open>elliptic.Unmarshal\<close> of the Go
  library are the uncompressed point format: the byte 4 and the two coordinates in 32 bytes each.
\<close>

section \<open>Definitions\<close>

record point =
  pt_X :: nat
  pt_Y :: nat

record 'k crypto_lib =
  SignCompact :: "'k \<Rightarrow> bytes \<Rightarrow> bytes option"
  RecoverCompact :: "bytes \<Rightarrow> bytes \<Rightarrow> point option"
  PrivKeyFromBytes :: "bytes \<Rightarrow> 'k"
  Serialize :: "'k \<Rightarrow> bytes"
  PublicKey :: "'k \<Rightarrow> point"
  IsOnCurve :: "point \<Rightarrow> bool"
  curve_P :: nat
  SerializeCompressed :: "point \<Rightarrow> bytes"
  ParsePubKey :: "bytes \<Rightarrow> point option"
  LegacyKeccak256 :: "bytes \<Rightarrow> bytes"

datatype crypto_error = CannotUnmarshall | CurveError

text \<open>The big-endian bytes of a coordinate, \<open>FillBytes\<close> into \<open>n\<close> bytes, and \<open>SetBytes\<close>.\<close>

fun FillBytes :: "nat \<Rightarrow> nat \<Rightarrow> bytes" where
  "FillBytes 0 v = []"
| "FillBytes (Suc n) v = FillBytes n (v div 256) @ [word_of_nat (v mod 256)]"

definition SetBytes :: "bytes \<Rightarrow> nat" where
  "SetBytes bs = foldl (\<lambda>a b. a * 256 + unat b) 0 bs"

definition elliptic_Marshal :: "point \<Rightarrow> bytes" where
  "elliptic_Marshal p = 4 # FillBytes 32 (pt_X p) @ FillBytes 32 (pt_Y p)"

definition elliptic_Unmarshal :: "'k crypto_lib \<Rightarrow> bytes \<Rightarrow> point option" where
  "elliptic_Unmarshal C data =
     (if length data \<noteq> 65 then None
      else if data ! 0 \<noteq> 4 then None
      else let p = \<lparr>pt_X = SetBytes (take 32 (drop 1 data)), pt_Y = SetBytes (drop 33 data)\<rparr>
           in if curve_P C \<le> pt_X p \<or> curve_P C \<le> pt_Y p then None
              else if \<not> IsOnCurve C p then None else Some p)"

definition ParsePrivateKey :: "'k crypto_lib \<Rightarrow> bytes \<Rightarrow> crypto_error + 'k" where
  "ParsePrivateKey C buf = Inr (PrivKeyFromBytes C buf)"

definition MarshallPrivateKey :: "'k crypto_lib \<Rightarrow> 'k \<Rightarrow> crypto_error + bytes" where
  "MarshallPrivateKey C priv = Inr (Serialize C priv)"

definition ParsePublicKey :: "'k crypto_lib \<Rightarrow> bytes \<Rightarrow> crypto_error + point" where
  "ParsePublicKey C buf = of_option CannotUnmarshall (elliptic_Unmarshal C buf)"

definition MarshallPublicKey :: "point \<Rightarrow> bytes" where
  "MarshallPublicKey pub = elliptic_Marshal pub"

text \<open>An empty signature makes the index \<open>size - 1\<close> panic.\<close>

definition RecoverPubkey :: "'k crypto_lib \<Rightarrow> bytes \<Rightarrow> bytes \<Rightarrow> (crypto_error + point) option" where
  "RecoverPubkey C signature hash =
     (if signature = [] then None
      else let size = length signature;
               term = (if signature ! (size - 1) = 1 then 28 else 27);
               sig = [term] @ take (size - 1) signature
           in Some (of_option CurveError (RecoverCompact C sig hash)))"

definition Ecrecover :: "'k crypto_lib \<Rightarrow> bytes \<Rightarrow> bytes \<Rightarrow> (crypto_error + bytes) option" where
  "Ecrecover C hash sig = bindP (RecoverPubkey C sig hash) (\<lambda>pub. Some (Inr (MarshallPublicKey pub)))"

text \<open>\<open>sig[0]\<close> panics on an empty result of the library.\<close>

definition Sign :: "'k crypto_lib \<Rightarrow> 'k \<Rightarrow> bytes \<Rightarrow> (crypto_error + bytes) option" where
  "Sign C priv hash =
     (case SignCompact C priv hash of
        None \<Rightarrow> Some (Inl CurveError)
      | Some sig \<Rightarrow>
        (if sig = [] then None
         else let term = (if sig ! 0 = 28 then 1 else 0) in Some (Inr (drop 1 (sig @ [term])))))"

definition Keccak256 :: "'k crypto_lib \<Rightarrow> bytes list \<Rightarrow> bytes" where
  "Keccak256 C v = LegacyKeccak256 C (concat v)"

definition CompressPubKey :: "'k crypto_lib \<Rightarrow> point \<Rightarrow> bytes" where
  "CompressPubKey C pub = SerializeCompressed C pub"

definition ParseCompressedPubKey :: "'k crypto_lib \<Rightarrow> bytes \<Rightarrow> crypto_error + point" where
  "ParseCompressedPubKey C d = of_option CurveError (ParsePubKey C d)"

section \<open>The coordinates of a point\<close>

lemma length_FillBytes [simp]: "length (FillBytes n v) = n"
  by (induction n arbitrary: v) simp_all

lemma SetBytes_Nil [simp]: "SetBytes [] = 0"
  by (simp add: SetBytes_def)

lemma SetBytes_snoc [simp]: "SetBytes (bs @ [b]) = SetBytes bs * 256 + unat b"
  by (simp add: SetBytes_def)

lemma SetBytes_FillBytes: "v < 256 ^ n \<Longrightarrow> SetBytes (FillBytes n v) = v"
proof (induction n arbitrary: v)
  case (Suc n)
  have "v div 256 < 256 ^ n" using Suc.prems by (simp add: less_mult_imp_div_less mult.commute)
  moreover have "unat (word_of_nat (v mod 256) :: byte) = v mod 256" by (simp add: unat_of_nat)
  ultimately show ?case using Suc.IH by simp
qed simp

lemma SetBytes_less: "SetBytes bs < 256 ^ length bs"
proof (induction bs rule: rev_induct)
  case (snoc b bs)
  then have "SetBytes bs * 256 + unat b < (SetBytes bs + 1) * 256" using unat_byte_less [of b] by simp
  also have "\<dots> \<le> 256 ^ length bs * 256" using snoc by (intro mult_le_mono) simp_all
  finally show ?case by (simp add: mult.commute)
qed simp

lemma FillBytes_SetBytes: "FillBytes (length bs) (SetBytes bs) = bs"
proof (induction bs rule: rev_induct)
  case (snoc b bs)
  have "(SetBytes bs * 256 + unat b) div 256 = SetBytes bs" using unat_byte_less [of b] by simp
  moreover have "(SetBytes bs * 256 + unat b) mod 256 = unat b" using unat_byte_less [of b] by simp
  ultimately show ?case using snoc by (simp add: mult.commute)
qed simp

lemma length_elliptic_Marshal [simp]: "length (elliptic_Marshal p) = 65"
  by (simp add: elliptic_Marshal_def)

section \<open>The laws of the library\<close>

definition on_curve :: "'k crypto_lib \<Rightarrow> point \<Rightarrow> bool" where
  "on_curve C p \<longleftrightarrow> IsOnCurve C p \<and> pt_X p < curve_P C \<and> pt_Y p < curve_P C"

text \<open>
  A compact signature has 65 bytes, the first of which is 27 plus a recovery code; with the
  signed hash it gives back the public key of the signer. The keys of the library are points of
  the curve with coordinates below the field's prime, which has 256 bits; compressing such a point
  or serializing a private key loses nothing.
  Digests have 32 bytes.
\<close>

locale crypto_laws =
  fixes C :: "'k crypto_lib"
  assumes SignCompact_Recover: "SignCompact C k h = Some s \<Longrightarrow>
      length s = 65 \<and> RecoverCompact C s h = Some (PublicKey C k)"
    and PublicKey_on_curve: "on_curve C (PublicKey C k)"
    and RecoverCompact_on_curve: "RecoverCompact C s h = Some p \<Longrightarrow> on_curve C p"
    and curve_P_bound: "curve_P C \<le> 2 ^ 256"
    and ParsePubKey_Serialize: "on_curve C p \<Longrightarrow> ParsePubKey C (SerializeCompressed C p) = Some p"
    and PrivKeyFromBytes_Serialize: "PrivKeyFromBytes C (Serialize C k) = k"
    and length_Keccak: "length (LegacyKeccak256 C x) = 32"
begin

lemma coordinates_256: "on_curve C p \<Longrightarrow> pt_X p < 256 ^ 32 \<and> pt_Y p < 256 ^ 32"
  using curve_P_bound by (simp add: on_curve_def)

lemma Unmarshal_Marshal:
  assumes "on_curve C p"
  shows "elliptic_Unmarshal C (elliptic_Marshal p) = Some p"
proof -
  have "take 32 (drop 1 (elliptic_Marshal p)) = FillBytes 32 (pt_X p)"
    and "drop 33 (elliptic_Marshal p) = FillBytes 32 (pt_Y p)"
    by (simp_all add: elliptic_Marshal_def)
  then show ?thesis
    using assms coordinates_256 [OF assms]
    by (cases p) (simp add: on_curve_def elliptic_Unmarshal_def SetBytes_FillBytes Let_def, simp add: elliptic_Marshal_def)
qed

text \<open>\<open>Sign\<close> moves the recovery code to the end, and \<open>RecoverPubkey\<close> back; the two lose it unless it is 0 or 1.\<close>

lemma Sign_Recover:
  assumes "SignCompact C k h = Some s" and "s ! 0 = 27 \<or> s ! 0 = 28"
  obtains sig where "Sign C k h = Some (Inr sig)" "length sig = 65"
    "RecoverPubkey C sig h = Some (Inr (PublicKey C k))"
proof -
  note s = SignCompact_Recover [OF assms(1)]
  then obtain x xs where x: "s = x # xs" "length xs = 64" by (cases s) auto
  let ?sig = "xs @ [if x = 28 then 1 else 0]"
  have "Sign C k h = Some (Inr ?sig)" using assms(1) x by (simp add: Sign_def Let_def)
  moreover have "RecoverPubkey C ?sig h = Some (Inr (PublicKey C k))"
    using s x assms(2) by (auto simp: RecoverPubkey_def Let_def nth_append)
  ultimately show ?thesis using x(2) by (intro that [of ?sig]) simp_all
qed

lemma Keccak256_length: "length (Keccak256 C v) = 32"
  by (simp add: Keccak256_def length_Keccak)

end

section \<open>An instance\<close>

text \<open>
  A curve of two points whose signatures carry the key. It is no cryptography: it shows that
  the laws can hold together, and the witnesses evaluate on it.
\<close>

definition demo_point :: "bool \<Rightarrow> point" where
  "demo_point k = \<lparr>pt_X = (if k then 1 else 2), pt_Y = 0\<rparr>"

definition demo_lib :: "bool crypto_lib" where
  "demo_lib = \<lparr>
     SignCompact = (\<lambda>k h. Some ((if k then 28 else 27) # replicate 64 0)),
     RecoverCompact = (\<lambda>s h. if s = [] then None else if s ! 0 = 28 then Some (demo_point True) else Some (demo_point False)),
     PrivKeyFromBytes = (\<lambda>b. b = [1]),
     Serialize = (\<lambda>k. if k then [1] else [0]),
     PublicKey = demo_point,
     IsOnCurve = (\<lambda>p. p = demo_point True \<or> p = demo_point False),
     curve_P = 3,
     SerializeCompressed = (\<lambda>p. if p = demo_point True then [2] else [3]),
     ParsePubKey = (\<lambda>b. Some (demo_point (b = [2]))),
     LegacyKeccak256 = (\<lambda>x. take 32 (x @ replicate 32 0))\<rparr>"

interpretation demo: crypto_laws demo_lib
  by unfold_locales (auto simp: demo_lib_def demo_point_def on_curve_def split: if_splits)

section \<open>Properties\<close>

text \<open>What \<open>Sign\<close> produces, \<open>RecoverPubkey\<close> and \<open>Ecrecover\<close> resolve to the signer's public key,
  when the recovery code of the library's signature is 0 or 1; no index is out of range.\<close>

theorem Sign_roundtrip:
  assumes "crypto_laws C" and "SignCompact C k h = Some s" and "s ! 0 = 27 \<or> s ! 0 = 28"
  shows "\<exists>sig. Sign C k h = Some (Inr sig) \<and> length sig = 65 \<and>
    RecoverPubkey C sig h = Some (Inr (PublicKey C k)) \<and>
    (\<exists>b. Ecrecover C h sig = Some (Inr b) \<and> ParsePublicKey C b = Inr (PublicKey C k))"
proof -
  obtain sig where sig: "Sign C k h = Some (Inr sig)" "length sig = 65"
    "RecoverPubkey C sig h = Some (Inr (PublicKey C k))"
    by (rule crypto_laws.Sign_Recover [OF assms])
  have "elliptic_Unmarshal C (elliptic_Marshal (PublicKey C k)) = Some (PublicKey C k)"
    using assms(1) by (simp add: crypto_laws.Unmarshal_Marshal crypto_laws.PublicKey_on_curve)
  then show ?thesis using sig by (simp add: Ecrecover_def ParsePublicKey_def MarshallPublicKey_def)
qed

theorem Sign_roundtrip_witness:
  "\<exists>sig. Sign demo_lib True [7] = Some (Inr sig) \<and> RecoverPubkey demo_lib sig [7] = Some (Inr (demo_point True))"
proof -
  have "SignCompact demo_lib True [7] = Some (28 # replicate 64 0)" "PublicKey demo_lib True = demo_point True"
    by (simp_all add: demo_lib_def)
  then show ?thesis
    using Sign_roundtrip [OF demo.crypto_laws_axioms, of True "[7]" "28 # replicate 64 0"] by auto
qed

end
