(* ===== verification/Fastrlp.thy ===== *)
theory Fastrlp
  imports Prelude
begin

text \<open>
  The interface of the RLP library \<open>github.com/umbracle/fastrlp\<close>, which is not part of the
  repository. Its functions are a parameter of every definition that calls them: the record
  \<open>fastrlp\<close>, over an unknown type of values. An error result is \<open>None\<close>, since no caller looks
  at the error. What the callers rely on are the laws of the locale \<open>fastrlp_laws\<close>.

  \<open>NewArray\<close> stands for \<open>NewArray()\<close> and the calls of \<open>Set\<close> that follow it, \<open>NewBytes\<close> for
  both \<open>NewBytes\<close> and \<open>NewCopyBytes\<close>, and \<open>MarshalTo\<close> for the bytes that \<open>MarshalTo(dst)\<close>
  appends to \<open>dst\<close>. The second argument of \<open>GetBytes\<close> is its optional exact length, and its
  result the content of the slice it returns. \<open>IsBytes\<close> is \<open>Type() == TypeBytes\<close>.
\<close>

record 'v fastrlp =
  Parse :: "bytes \<Rightarrow> 'v option"
  MarshalTo :: "'v \<Rightarrow> bytes"
  GetElems :: "'v \<Rightarrow> 'v list option"
  GetUint64 :: "'v \<Rightarrow> uint64 option"
  GetBytes :: "'v \<Rightarrow> nat option \<Rightarrow> bytes option"
  GetHash :: "'v \<Rightarrow> bytes option"
  GetString :: "'v \<Rightarrow> string option"
  GetBool :: "'v \<Rightarrow> bool option"
  GetBigInt :: "'v \<Rightarrow> nat option"
  IsBytes :: "'v \<Rightarrow> bool"
  Raw :: "'v \<Rightarrow> bytes"
  NewUint :: "uint64 \<Rightarrow> 'v"
  NewBytes :: "bytes \<Rightarrow> 'v"
  NewString :: "string \<Rightarrow> 'v"
  NewBool :: "bool \<Rightarrow> 'v"
  NewBigInt :: "nat \<Rightarrow> 'v"
  NewArray :: "'v list \<Rightarrow> 'v"
  NewNullArray :: 'v

text \<open>The errors of a decoder: one that the library returned, or a wrong number of elements. The
  latter carries the number that the message reports.\<close>

datatype rlp_error = RlpError | BadLength nat

text \<open>
  Values are compared by their \<open>view\<close>, the RLP item they stand for: parsing what was marshalled
  gives a value with the same view, and no accessor tells apart values with the same view.
\<close>

locale fastrlp_laws =
  fixes F :: "'v fastrlp" and view :: "'v \<Rightarrow> 'w"
  assumes Parse_MarshalTo:
      "length (MarshalTo F v) < 2 ^ 63 \<Longrightarrow> \<exists>v'. Parse F (MarshalTo F v) = Some v' \<and> view v' = view v"
    and GetElems_NewArray: "view v = view (NewArray F vs) \<Longrightarrow>
      \<exists>ws. GetElems F v = Some ws \<and> map view ws = map view vs"
    and GetElems_NewBytes: "view v = view (NewBytes F b) \<Longrightarrow> GetElems F v = None"
    and GetUint64_NewUint: "view v = view (NewUint F n) \<Longrightarrow> GetUint64 F v = Some n"
    and GetUint64_NewArray: "view v = view (NewArray F vs) \<Longrightarrow> GetUint64 F v = None"
    and GetBytes_NewBytes: "view v = view (NewBytes F b) \<Longrightarrow>
      GetBytes F v l = (if l = None \<or> l = Some (length b) then Some b else None)"
    and GetBytes_NewArray: "view v = view (NewArray F vs) \<Longrightarrow> GetBytes F v l = None"
    and GetHash_NewBytes: "view v = view (NewBytes F b) \<Longrightarrow>
      GetHash F v = (if length b = 32 then Some b else None)"
    and GetString_NewString: "view v = view (NewString F s) \<Longrightarrow> GetString F v = Some s"
    and GetBool_NewBool: "view v = view (NewBool F t) \<Longrightarrow> GetBool F v = Some t"
    and GetBigInt_NewBigInt: "view v = view (NewBigInt F m) \<Longrightarrow> GetBigInt F v = Some m"
    and Raw_NewBytes: "view v = view (NewBytes F b) \<Longrightarrow> IsBytes F v \<and> Raw F v = b"
    and NewNullArray_empty: "view (NewNullArray F) = view (NewArray F [])"
    and NewArray_cong: "map view vs = map view ws \<Longrightarrow> view (NewArray F vs) = view (NewArray F ws)"
begin

lemma Parse_marshalled:
  assumes "length (MarshalTo F v) < 2 ^ 63"
  obtains v' where "Parse F (MarshalTo F v) = Some v'" "view v' = view v"
  using Parse_MarshalTo [OF assms] by blast

lemma GetElems_list:
  assumes "view v = view (NewArray F vs)"
  obtains ws where "GetElems F v = Some ws" "length ws = length vs"
    "\<And>i. i < length vs \<Longrightarrow> view (ws ! i) = view (vs ! i)"
proof -
  obtain ws where ws: "GetElems F v = Some ws" "map view ws = map view vs"
    using GetElems_NewArray [OF assms] by blast
  from ws(2) have len: "length ws = length vs" by (rule map_eq_imp_length_eq)
  have "view (ws ! i) = view (vs ! i)" if "i < length vs" for i
    using arg_cong [OF ws(2), of "\<lambda>xs. xs ! i"] that len by simp
  with ws(1) len show ?thesis by (rule that)
qed

lemmas accessors = GetUint64_NewUint GetBytes_NewBytes GetHash_NewBytes GetString_NewString
  GetBool_NewBool GetBigInt_NewBigInt Raw_NewBytes

end

section \<open>Messages\<close>

text \<open>
  The contract of a pair of functions that write a message as a value and read it back: reading
  any value that stands for the same item as the one written gives the message. Every message
  type of the protocols satisfies it; what follows for the bytes on the wire is proved once. \<open>ok\<close>
  is the result of a reader that succeeds, \<open>Inr\<close> or, where the reader may also panic, \<open>Some\<close> of it.
\<close>

locale rlp_message = fastrlp_laws F view
  for F :: "'v fastrlp" and view :: "'v \<Rightarrow> 'w" +
  fixes enc :: "'m \<Rightarrow> 'v" and dec :: "'v \<Rightarrow> 'r" and ok :: "'m \<Rightarrow> 'r" and valid :: "'m \<Rightarrow> bool"
  assumes dec_enc: "valid m \<Longrightarrow> view v = view (enc m) \<Longrightarrow> dec v = ok m"
    and ok_inject: "ok m = ok n \<Longrightarrow> m = n"
begin

lemma wire_roundtrip:
  assumes "valid m" and "length (MarshalTo F (enc m)) < 2 ^ 63"
  shows "\<exists>v. Parse F (MarshalTo F (enc m)) = Some v \<and> dec v = ok m"
  using Parse_marshalled [OF assms(2)] dec_enc [OF assms(1)] by metis

text \<open>No two valid messages have the same encoding.\<close>

lemma wire_injective:
  assumes "valid m" and "valid n" and "length (MarshalTo F (enc m)) < 2 ^ 63"
    and "MarshalTo F (enc m) = MarshalTo F (enc n)"
  shows "m = n"
proof -
  obtain v where "Parse F (MarshalTo F (enc m)) = Some v" "dec v = ok m"
    using wire_roundtrip [OF assms(1,3)] by blast
  moreover obtain w where "Parse F (MarshalTo F (enc n)) = Some w" "dec w = ok n"
    using wire_roundtrip [OF assms(2)] assms(3,4) by auto
  ultimately show ?thesis using assms(4) by (intro ok_inject) simp
qed

end

end
