(* ===== verification/RlpRef.thy ===== *)
theory RlpRef
  imports Fastrlp
begin

text \<open>
  A reference RLP codec, after the format's definition (an item is a byte string or a list of
  items; a length prefix, short below 56). It stands for no source file: it is the instance
  that shows the laws of \<open>fastrlp_laws\<close> to be satisfiable, and on which the witnesses of the
  properties evaluate.
\<close>

datatype rlp = Str bytes | Items "rlp list"

section \<open>Unsigned integers without leading zeros\<close>

fun be_digits :: "nat \<Rightarrow> bytes" where
  "be_digits n = (if n = 0 then [] else be_digits (n div 256) @ [word_of_nat (n mod 256)])"

declare be_digits.simps [simp del]

definition be_value :: "bytes \<Rightarrow> nat" where
  "be_value bs = foldl (\<lambda>a b. a * 256 + unat b) 0 bs"

lemma be_value_snoc [simp]: "be_value (bs @ [b]) = be_value bs * 256 + unat b"
  by (simp add: be_value_def)

lemma be_value_Nil [simp]: "be_value [] = 0"
  by (simp add: be_value_def)

lemma be_digits_0 [simp]: "be_digits 0 = []"
  by (simp add: be_digits.simps)

lemma be_value_be_digits [simp]: "be_value (be_digits n) = n"
proof (induction n rule: be_digits.induct)
  case (1 n)
  show ?case
  proof (cases "n = 0")
    case False
    have "unat (word_of_nat (n mod 256) :: byte) = n mod 256" by (simp add: unat_of_nat)
    with 1 False show ?thesis by (subst be_digits.simps) simp
  qed simp
qed

lemma length_be_digits: "n < 256 ^ k \<Longrightarrow> length (be_digits n) \<le> k"
proof (induction n arbitrary: k rule: be_digits.induct)
  case (1 n)
  show ?case
  proof (cases "n = 0")
    case False
    with 1(2) obtain j where k: "k = Suc j" by (cases k) auto
    with 1(2) have "n div 256 < 256 ^ j" by (simp add: less_mult_imp_div_less mult.commute)
    with 1(1) False k show ?thesis by (subst be_digits.simps) simp
  qed simp
qed

lemma be_digits_pos: "0 < n \<Longrightarrow> be_digits n \<noteq> []"
  by (subst be_digits.simps) simp

lemma unat_byte_of_nat: "n < 256 \<Longrightarrow> unat (word_of_nat n :: byte) = n"
  by (simp add: unat_of_nat)

section \<open>Encoding\<close>

definition rlp_header :: "nat \<Rightarrow> nat \<Rightarrow> bytes" where
  "rlp_header off n = (if n < 56 then [word_of_nat (off + n)]
                   else word_of_nat (off + 55 + length (be_digits n)) # be_digits n)"

fun rlp_encode :: "rlp \<Rightarrow> bytes" where
  "rlp_encode (Str b) =
     (if length b = 1 \<and> unat (hd b) < 128 then b else rlp_header 128 (length b) @ b)"
| "rlp_encode (Items xs) =
     (let p = concat (map rlp_encode xs) in rlp_header 192 (length p) @ p)"

section \<open>Decoding\<close>

text \<open>One unit of fuel for every call. \<open>rlp_payload\<close> splits off \<open>n\<close> bytes.\<close>

definition rlp_payload :: "nat \<Rightarrow> bytes \<Rightarrow> (bytes \<times> bytes) option" where
  "rlp_payload n bs = (if n \<le> length bs then Some (take n bs, drop n bs) else None)"

definition rlp_long_payload :: "nat \<Rightarrow> bytes \<Rightarrow> (bytes \<times> bytes) option" where
  "rlp_long_payload k bs = do { (l, r) \<leftarrow> rlp_payload k bs; rlp_payload (be_value l) r }"

fun rlp_decode :: "nat \<Rightarrow> bytes \<Rightarrow> (rlp \<times> bytes) option"
  and rlp_decode_items :: "nat \<Rightarrow> bytes \<Rightarrow> rlp list option" where
  "rlp_decode 0 bs = None"
| "rlp_decode (Suc f) [] = None"
| "rlp_decode (Suc f) (b # bs) =
     (let t = unat b in
      if t < 128 then Some (Str [b], bs)
      else if t < 184 then do { (p, r) \<leftarrow> rlp_payload (t - 128) bs; Some (Str p, r) }
      else if t < 192 then do { (p, r) \<leftarrow> rlp_long_payload (t - 183) bs; Some (Str p, r) }
      else if t < 248 then do { (p, r) \<leftarrow> rlp_payload (t - 192) bs; xs \<leftarrow> rlp_decode_items f p; Some (Items xs, r) }
      else do { (p, r) \<leftarrow> rlp_long_payload (t - 247) bs; xs \<leftarrow> rlp_decode_items f p; Some (Items xs, r) })"
| "rlp_decode_items 0 bs = None"
| "rlp_decode_items (Suc f) [] = Some []"
| "rlp_decode_items (Suc f) (b # bs) =
     do { (x, r) \<leftarrow> rlp_decode f (b # bs); xs \<leftarrow> rlp_decode_items f r; Some (x # xs) }"

text \<open>Bytes after the first item are ignored, as the padding of the RLPx handshake requires.\<close>

definition rlp_parse :: "bytes \<Rightarrow> rlp option" where
  "rlp_parse bs = map_option fst (rlp_decode (3 * length bs) bs)"

section \<open>Round trip\<close>

lemma payload_append [simp]: "rlp_payload (length p) (p @ r) = Some (p, r)"
  by (simp add: rlp_payload_def)

lemma long_payload_append:
  "rlp_long_payload (length (be_digits (length p))) (be_digits (length p) @ p @ r) = Some (p, r)"
  by (simp add: rlp_long_payload_def)

lemma header_nonempty [simp]: "rlp_header off n \<noteq> []"
  by (simp add: rlp_header_def)

lemma encode_nonempty [simp]: "rlp_encode x \<noteq> []"
  by (cases x) (auto simp: Let_def)

text \<open>The fuel an item needs, and that three units a byte are enough.\<close>

fun rlp_need :: "rlp \<Rightarrow> nat" where
  "rlp_need (Str b) = 1"
| "rlp_need (Items xs) = 2 + sum_list (map (\<lambda>x. Suc (rlp_need x)) xs)"

lemma need_encode: "rlp_need x + 1 \<le> 3 * length (rlp_encode x)"
proof (induction x)
  case (Str b)
  have "rlp_encode (Str b) \<noteq> []" by (rule encode_nonempty)
  then have "1 \<le> length (rlp_encode (Str b))" by (cases "rlp_encode (Str b)") simp_all
  then show ?case unfolding rlp_need.simps by linarith
next
  case (Items xs)
  have "sum_list (map (\<lambda>x. Suc (rlp_need x)) xs) \<le> 3 * length (concat (map rlp_encode xs))"
    using Items
  proof (induction xs)
    case (Cons a xs)
    have "Suc (rlp_need a) \<le> 3 * length (rlp_encode a)" using Cons.prems [of a] by simp
    moreover have "sum_list (map (\<lambda>x. Suc (rlp_need x)) xs) \<le> 3 * length (concat (map rlp_encode xs))"
      using Cons by simp
    ultimately show ?case by simp
  qed simp
  moreover have "1 \<le> length (rlp_header 192 (length (concat (map rlp_encode xs))))" by (simp add: rlp_header_def)
  moreover have "2 + s + 1 \<le> 3 * (h + l)" if "s \<le> 3 * l" "1 \<le> h" for s h l :: nat
    using that by simp
  ultimately show ?case unfolding rlp_need.simps rlp_encode.simps Let_def length_append by blast
qed

lemma decode_long:
  assumes "56 \<le> length p" and "length p < 2 ^ 64" and "off = 128 \<or> off = 192"
  shows "rlp_decode (Suc f) (rlp_header off (length p) @ p @ r) =
    (if off = 128 then Some (Str p, r) else do { xs \<leftarrow> rlp_decode_items f p; Some (Items xs, r) })"
proof -
  let ?k = "length (be_digits (length p))"
  have "?k \<le> 8" using length_be_digits [of "length p" 8] assms(2) by simp
  moreover have "0 < length p" using assms(1) by linarith
  then have "0 < ?k" by (simp only: length_greater_0_conv [of "be_digits _"] be_digits_pos not_False_eq_True)
  ultimately have t: "unat (word_of_nat (off + 55 + ?k) :: byte) = off + 55 + ?k" "?k \<le> 8" "0 < ?k"
    using assms(3) by (auto intro!: unat_byte_of_nat simp del: of_nat_add of_nat_numeral)
  show ?thesis
    using assms(3)
  proof
    assume "off = 128"
    with t assms(1) show ?thesis
      by (simp add: rlp_header_def Let_def long_payload_append not_less)
  next
    assume "off = 192"
    with t assms(1) show ?thesis
      by (simp add: rlp_header_def Let_def long_payload_append not_less)
  qed
qed

lemma decode_short:
  assumes "length p < 56" and "off = 128 \<or> off = 192"
  shows "rlp_decode (Suc f) (rlp_header off (length p) @ p @ r) =
    (if off = 128 then Some (Str p, r) else do { xs \<leftarrow> rlp_decode_items f p; Some (Items xs, r) })"
proof -
  have t: "unat (word_of_nat (off + length p) :: byte) = off + length p"
    using assms by (intro unat_byte_of_nat) auto
  show ?thesis
    using assms(2) by (rule disjE) (use t assms(1) in \<open>simp_all add: rlp_header_def Let_def\<close>)
qed

lemma decode_header:
  assumes "length p < 2 ^ 64" and "off = 128 \<or> off = 192"
  shows "rlp_decode (Suc f) (rlp_header off (length p) @ p @ r) =
    (if off = 128 then Some (Str p, r) else do { xs \<leftarrow> rlp_decode_items f p; Some (Items xs, r) })"
  using decode_long decode_short assms by (cases "length p < 56") auto

lemma decode_items_nonempty:
  "bs \<noteq> [] \<Longrightarrow> rlp_decode_items (Suc f) bs =
    do { (x, r) \<leftarrow> rlp_decode f bs; xs \<leftarrow> rlp_decode_items f r; Some (x # xs) }"
  by (cases bs) simp_all

lemma decode_items_encode:
  assumes "\<And>x f r. x \<in> set xs \<Longrightarrow> rlp_need x \<le> f \<Longrightarrow> rlp_decode f (rlp_encode x @ r) = Some (x, r)"
    and "Suc (sum_list (map (\<lambda>x. Suc (rlp_need x)) xs)) \<le> f"
  shows "rlp_decode_items f (concat (map rlp_encode xs)) = Some xs"
  using assms
proof (induction xs arbitrary: f)
  case Nil
  then show ?case by (cases f) simp_all
next
  case (Cons x xs)
  then obtain f' where f: "f = Suc f'" "rlp_need x \<le> f'" "Suc (sum_list (map (\<lambda>x. Suc (rlp_need x)) xs)) \<le> f'"
    by (cases f) auto
  then have "rlp_decode_items f' (concat (map rlp_encode xs)) = Some xs" using Cons.IH Cons.prems(1) by simp
  moreover have "rlp_decode f' (rlp_encode x @ concat (map rlp_encode xs)) = Some (x, concat (map rlp_encode xs))"
    using Cons.prems(1) f(2) by simp
  ultimately show ?case using f(1) by (simp add: decode_items_nonempty)
qed

lemma length_encode_member: "x \<in> set xs \<Longrightarrow> length (rlp_encode x) \<le> length (rlp_encode (Items xs))"
proof -
  assume "x \<in> set xs"
  then have "length (rlp_encode x) \<le> length (concat (map rlp_encode xs))"
    by (induction xs) auto
  then show ?thesis by (simp add: Let_def)
qed

lemma decode_encode:
  "length (rlp_encode x) < 2 ^ 64 \<Longrightarrow> rlp_need x \<le> f \<Longrightarrow> rlp_decode f (rlp_encode x @ r) = Some (x, r)"
proof (induction x arbitrary: f r)
  case (Str b)
  then obtain f' where f: "f = Suc f'" by (cases f) auto
  show ?case
  proof (cases "length b = 1 \<and> unat (hd b) < 128")
    case True
    then obtain c where "b = [c]" by (auto simp: length_Suc_conv)
    with True f show ?thesis by (simp add: Let_def)
  next
    case False
    then have "length b < 2 ^ 64" and e: "rlp_encode (Str b) = rlp_header 128 (length b) @ b"
      using Str.prems(1) by auto
    then show ?thesis using f decode_header [of b 128 f' r] by simp
  qed
next
  case (Items xs)
  let ?p = "concat (map rlp_encode xs)"
  obtain f' where f: "f = Suc f'" "Suc (sum_list (map (\<lambda>x. Suc (rlp_need x)) xs)) \<le> f'"
    using Items.prems(2) by (cases f) auto
  have len: "length ?p < 2 ^ 64" using Items.prems(1) by (simp add: Let_def)
  have "rlp_decode_items f' ?p = Some xs"
  proof (rule decode_items_encode [OF _ f(2)])
    fix x f r assume "x \<in> set xs" "rlp_need x \<le> f"
    moreover from this(1) have "length (rlp_encode x) < 2 ^ 64"
      using length_encode_member Items.prems(1) le_less_trans by blast
    ultimately show "rlp_decode f (rlp_encode x @ r) = Some (x, r)" by (intro Items.IH)
  qed
  then show ?case using f(1) decode_header [OF len, of 192 f' r] by (simp add: Let_def)
qed

lemma rlp_parse_tail: "length (rlp_encode x) < 2 ^ 64 \<Longrightarrow> rlp_parse (rlp_encode x @ t) = Some x"
  using decode_encode [of x "3 * length (rlp_encode x @ t)" t] need_encode [of x]
  by (simp add: rlp_parse_def)

lemma rlp_parse_encode: "length (rlp_encode x) < 2 ^ 64 \<Longrightarrow> rlp_parse (rlp_encode x) = Some x"
  using rlp_parse_tail [of x "[]"] by simp

section \<open>The instance\<close>

definition rlp_uint :: "rlp \<Rightarrow> nat option" where
  "rlp_uint v = (case v of Str b \<Rightarrow> Some (be_value b) | Items _ \<Rightarrow> None)"

definition rlp_ref :: "rlp fastrlp" where
  "rlp_ref = \<lparr>
     Parse = rlp_parse, MarshalTo = rlp_encode,
     GetElems = (\<lambda>v. case v of Str _ \<Rightarrow> None | Items xs \<Rightarrow> Some xs),
     GetUint64 = (\<lambda>v. case v of Str b \<Rightarrow> if length b \<le> 8 then Some (word_of_nat (be_value b)) else None
                             | Items _ \<Rightarrow> None),
     GetBytes = (\<lambda>v l. case v of Str b \<Rightarrow> if l = None \<or> l = Some (length b) then Some b else None
                              | Items _ \<Rightarrow> None),
     GetHash = (\<lambda>v. case v of Str b \<Rightarrow> if length b = 32 then Some b else None | Items _ \<Rightarrow> None),
     GetString = (\<lambda>v. case v of Str b \<Rightarrow> Some (string_of_bytes b) | Items _ \<Rightarrow> None),
     GetBool = (\<lambda>v. if v = Str [1] then Some True else if v = Str [] then Some False else None),
     GetBigInt = rlp_uint,
     IsBytes = (\<lambda>v. case v of Str _ \<Rightarrow> True | Items _ \<Rightarrow> False),
     Raw = (\<lambda>v. case v of Str b \<Rightarrow> b | Items _ \<Rightarrow> []),
     NewUint = (\<lambda>n. Str (be_digits (unat n))), NewBytes = Str,
     NewString = (\<lambda>s. Str (bytes_of_string s)),
     NewBool = (\<lambda>t. Str (if t then [1] else [])),
     NewBigInt = (\<lambda>n. Str (be_digits n)),
     NewArray = Items, NewNullArray = Items []\<rparr>"

lemma length_be_digits_uint64: "length (be_digits (unat (n :: uint64))) \<le> 8"
  using length_be_digits [of "unat n" 8] unsigned_less [of n] by simp

interpretation rlp_ref: fastrlp_laws rlp_ref "\<lambda>v. v"
  by unfold_locales
    (auto simp: rlp_ref_def rlp_uint_def length_be_digits_uint64 rlp_parse_encode split: rlp.splits)


section \<open>The wire format\<close>

text \<open>
  Where the bytes themselves matter, and not only that they can be read back: the library writes the RLP of the
  specification, and its parser reads one item and ignores what follows.
\<close>

locale rlp_library = fastrlp_laws F view
  for F :: "'v fastrlp" and view :: "'v \<Rightarrow> rlp" +
  assumes MarshalTo_rlp: "MarshalTo F v = rlp_encode (view v)"
    and Parse_tail: "length (MarshalTo F v) < 2 ^ 63 \<Longrightarrow> \<exists>v'. Parse F (MarshalTo F v @ t) = Some v' \<and> view v' = view v"
    and view_NewArray: "view (NewArray F vs) = Items (map view vs)"
    and view_NewBytes: "view (NewBytes F b) = Str b"
    and view_NewUint: "view (NewUint F n) = Str (be_digits (unat n))"
begin

lemma Parse_padded:
  assumes "length (MarshalTo F v) < 2 ^ 63"
  obtains v' where "Parse F (MarshalTo F v @ t) = Some v'" "view v' = view v"
  using Parse_tail [OF assms] by blast

text \<open>A number below 128 is one byte.\<close>

lemma MarshalTo_code:
  assumes "c < 0x80"
  shows "MarshalTo F (NewUint F c) = [if c = 0 then 0x80 else ucast c]"
proof -
  have c: "unat c < 0x80" using assms by (simp add: word_less_nat_alt)
  show ?thesis
  proof (cases "c = 0")
    case False
    then have "be_digits (unat c) = [ucast c]"
      using c by (subst be_digits.simps) (simp add: unat_gt_0)
    moreover have "unat (ucast c :: byte) < 0x80" using c by (simp add: unsigned_ucast_eq take_bit_nat_eq_self)
    ultimately show ?thesis using False by (simp add: MarshalTo_rlp view_NewUint)
  qed (simp add: MarshalTo_rlp view_NewUint rlp_header_def)
qed

end

interpretation rlp_wire: rlp_library rlp_ref "\<lambda>v. v"
  by unfold_locales (simp_all add: rlp_ref_def rlp_parse_tail)

section \<open>Evaluation of concrete encodings\<close>

lemma be_digits_numeral: "be_digits (numeral n) = be_digits (numeral n div 256) @ [word_of_nat (numeral n mod 256)]"
  by (subst be_digits.simps) simp

lemma be_digits_1: "be_digits 1 = [1]" "be_digits (Suc 0) = [1]"
  by (simp_all add: be_digits.simps)

lemmas rlp_eval = rlp_ref_def rlp_header_def be_digits_numeral be_digits_1

end
