(* ===== verification/Discv4Msg.thy ===== *)
theory Discv4Msg
  imports GoNet Crypto RlpRef
begin

text \<open>
  The peers and the messages of the discovery protocol, the first part of \<open>discovery/discv4.go\<close>.
  \<open>rpcNode\<close> and \<open>rpcEndpoint\<close> index the elements of a list without looking at its length: their
  decoders, and those of the messages that contain them, may panic. A \<open>Last\<close> that is \<open>nil\<close> is
  \<open>None\<close>; what it points to is never written to.
\<close>

section \<open>Definitions\<close>

definition bucketSize :: int where "bucketSize = 16"
definition Second :: duration where "Second = 10 ^ 9"
definition bondExpiration :: duration where "bondExpiration = 24 * 3600 * Second"
definition respTimeout :: duration where "respTimeout = 10 * Second"
definition maxNeighbors :: nat where "maxNeighbors = 6"
definition alpha :: nat where "alpha = 3"

datatype disc_error =
    BadIDLength nat | BadHex hex_error | BadRLP rlp_error | PayloadSize nat | MacsDoNotMatch
  | CryptoFailed crypto_error | ExpectedUDPAddr | NeighborsNotExpected | PongNotExpected UDPAddr string bytes
  | CodeNotFound byte | PingExpired | PeerNotFound string | WriteFailed | FailedToProbe | NoProbeBack
  | FailedToGetPeers | NotDiscovered | BadEnode

definition EncodeToHex :: "bytes \<Rightarrow> string" where
  "EncodeToHex str = ''0x'' @ hex_EncodeToString str"

definition DecodeHex :: "string \<Rightarrow> hex_error + bytes" where
  "DecodeHex str = hex_DecodeString (if HasPrefix str ''0x'' then drop 2 str else str)"

record Peer =
  peer_ID :: string
  peer_Bytes :: bytes
  peer_UDPAddr :: UDPAddr
  peer_Last :: "time option"
  peer_TCP :: uint16

text \<open>\<open>strings.Replace(s, old, new, -1)\<close> where \<open>old\<close> is not empty.\<close>

function Replace :: "string \<Rightarrow> string \<Rightarrow> string \<Rightarrow> string" where
  "Replace s old new =
     (if s = [] then []
      else if old \<noteq> [] \<and> HasPrefix s old then new @ Replace (drop (length old) s) old new
      else hd s # Replace (tl s) old new)"
  by pat_completeness auto
termination
  by (relation "measure (\<lambda>(s, old, new). length s)") auto

declare Replace.simps [simp del]

definition Peer_Enode :: "Peer \<Rightarrow> string" where
  "Peer_Enode p =
     (let id = Replace (EncodeToHex (peer_Bytes p)) ''0x'' ''''
      in ''enode://'' @ id @ ''@'' @ IP_String (addr_IP (peer_UDPAddr p)) @ '':'' @ dec_string (unat (peer_TCP p)))"

definition Peer_addr :: "Peer \<Rightarrow> string" where
  "Peer_addr p = UDPAddr_String (peer_UDPAddr p)"

definition Peer_hasExpired :: "Peer \<Rightarrow> time \<Rightarrow> duration \<Rightarrow> bool" where
  "Peer_hasExpired p now expiration =
     (case peer_Last p of None \<Rightarrow> True | Some t \<Rightarrow> t + expiration < now)"

record rpcNode =
  node_IP :: IP
  node_UDP :: uint16
  node_TCP :: uint16
  node_ID :: bytes

record rpcEndpoint =
  ep_IP :: IP
  ep_UDP :: uint16
  ep_TCP :: uint16

definition toRPCNode :: "Peer \<Rightarrow> rpcNode" where
  "toRPCNode p = \<lparr>node_IP = addr_IP (peer_UDPAddr p), node_UDP = word_of_int (addr_Port (peer_UDPAddr p)),
     node_TCP = 0, node_ID = peer_Bytes p\<rparr>"

definition toRPCEndpoint :: "Peer \<Rightarrow> rpcEndpoint" where
  "toRPCEndpoint p = \<lparr>ep_IP = addr_IP (peer_UDPAddr p), ep_UDP = word_of_int (addr_Port (peer_UDPAddr p)),
     ep_TCP = peer_TCP p\<rparr>"

definition newPeer :: "string \<Rightarrow> UDPAddr \<Rightarrow> uint16 \<Rightarrow> disc_error + Peer" where
  "newPeer id0 addr tcp =
     (let i = (if HasPrefix id0 ''0x'' then drop 2 id0 else id0)
      in if length i \<noteq> 128 then Inl (BadIDLength (length i))
         else case DecodeHex (''0x'' @ i) of
           Inl e \<Rightarrow> Inl (BadHex e)
         | Inr bs \<Rightarrow> Inr \<lparr>peer_ID = i, peer_Bytes = bs, peer_UDPAddr = addr, peer_Last = None, peer_TCP = tcp\<rparr>)"

definition macSize :: nat where "macSize = 256 div 8"
definition sigSize :: nat where "sigSize = 520 div 8"
definition headSize :: nat where "headSize = macSize + sigSize"
definition headSpace :: bytes where "headSpace = replicate headSize 0"

definition pingPacket :: byte where "pingPacket = 1"
definition pongPacket :: byte where "pongPacket = 2"
definition findnodePacket :: byte where "findnodePacket = 3"
definition neighborsPacket :: byte where "neighborsPacket = 4"

subsection \<open>Messages\<close>

record pingRequest =
  ping_Version :: uint64
  ping_From :: rpcEndpoint
  ping_To :: rpcEndpoint
  ping_Expiration :: uint64

record pongResponse =
  pong_To :: rpcEndpoint
  pong_ReplyTok :: bytes
  pong_Expiration :: uint64

record findNodeRequest =
  find_Target :: bytes
  find_Expiration :: uint64

record neighborsResponse =
  nb_Nodes :: "rpcNode list"
  nb_Expiration :: uint64

text \<open>A library call that returns an error, an index that panics.\<close>

definition lib :: "'a option \<Rightarrow> (rlp_error + 'a) option" where
  "lib x = Some (of_option RlpError x)"

definition elem :: "'v list \<Rightarrow> nat \<Rightarrow> (rlp_error + 'v) option" where
  "elem elems i = map_option Inr (index elems i)"

definition rpcEndpoint_UnmarshalRLP :: "'v fastrlp \<Rightarrow> 'v \<Rightarrow> (rlp_error + rpcEndpoint) option" where
  "rpcEndpoint_UnmarshalRLP F v =
     bindP (lib (GetElems F v)) (\<lambda>elems.
     bindP (elem elems 0) (\<lambda>e. bindP (lib (GetBytes F e None)) (\<lambda>ip.
     bindP (elem elems 1) (\<lambda>e. bindP (lib (GetUint64 F e)) (\<lambda>udp.
     bindP (elem elems 2) (\<lambda>e. bindP (lib (GetUint64 F e)) (\<lambda>tcp.
     Some (Inr \<lparr>ep_IP = ip, ep_UDP = ucast udp, ep_TCP = ucast tcp\<rparr>))))))))"

definition rpcEndpoint_MarshalRLP :: "'v fastrlp \<Rightarrow> rpcEndpoint \<Rightarrow> 'v" where
  "rpcEndpoint_MarshalRLP F r =
     NewArray F [NewBytes F (ep_IP r), NewUint F (ucast (ep_UDP r)), NewUint F (ucast (ep_TCP r))]"

definition rpcNode_UnmarshalRLP :: "'v fastrlp \<Rightarrow> 'v \<Rightarrow> (rlp_error + rpcNode) option" where
  "rpcNode_UnmarshalRLP F v =
     bindP (lib (GetElems F v)) (\<lambda>elems.
     bindP (elem elems 0) (\<lambda>e. bindP (lib (GetBytes F e None)) (\<lambda>ip.
     bindP (elem elems 1) (\<lambda>e. bindP (lib (GetUint64 F e)) (\<lambda>udp.
     bindP (elem elems 2) (\<lambda>e. bindP (lib (GetUint64 F e)) (\<lambda>tcp.
     bindP (elem elems 3) (\<lambda>e. bindP (lib (GetBytes F e None)) (\<lambda>i.
     Some (Inr \<lparr>node_IP = ip, node_UDP = ucast udp, node_TCP = ucast tcp, node_ID = i\<rparr>))))))))))"

definition rpcNode_MarshalRLP :: "'v fastrlp \<Rightarrow> rpcNode \<Rightarrow> 'v" where
  "rpcNode_MarshalRLP F r =
     NewArray F [NewBytes F (node_IP r), NewUint F (ucast (node_UDP r)), NewUint F (ucast (node_TCP r)),
                 NewBytes F (node_ID r)]"

definition toPeer :: "rpcNode \<Rightarrow> disc_error + Peer" where
  "toPeer r = newPeer (EncodeToHex (node_ID r))
     \<lparr>addr_IP = node_IP r, addr_Port = uint (node_UDP r), addr_Zone = ''''\<rparr> (node_TCP r)"

definition pingRequest_UnmarshalRLP :: "'v fastrlp \<Rightarrow> 'v \<Rightarrow> (rlp_error + pingRequest) option" where
  "pingRequest_UnmarshalRLP F v =
     bindP (lib (GetElems F v)) (\<lambda>elems.
     if length elems < 4 then Some (Inl (BadLength (length elems))) else
     bindP (lib (GetUint64 F (elems ! 0))) (\<lambda>version.
     bindP (rpcEndpoint_UnmarshalRLP F (elems ! 1)) (\<lambda>from.
     bindP (rpcEndpoint_UnmarshalRLP F (elems ! 2)) (\<lambda>to.
     bindP (lib (GetUint64 F (elems ! 3))) (\<lambda>expiration.
     Some (Inr \<lparr>ping_Version = version, ping_From = from, ping_To = to, ping_Expiration = expiration\<rparr>))))))"

definition pingRequest_value :: "'v fastrlp \<Rightarrow> pingRequest \<Rightarrow> 'v" where
  "pingRequest_value F p =
     NewArray F [NewUint F (ping_Version p), rpcEndpoint_MarshalRLP F (ping_From p),
                 rpcEndpoint_MarshalRLP F (ping_To p), NewUint F (ping_Expiration p)]"

definition pongResponse_value :: "'v fastrlp \<Rightarrow> pongResponse \<Rightarrow> 'v" where
  "pongResponse_value F p =
     NewArray F [rpcEndpoint_MarshalRLP F (pong_To p), NewBytes F (pong_ReplyTok p), NewUint F (pong_Expiration p)]"

definition findNodeRequest_UnmarshalRLP :: "'v fastrlp \<Rightarrow> 'v \<Rightarrow> (rlp_error + findNodeRequest) option" where
  "findNodeRequest_UnmarshalRLP F v =
     bindP (lib (GetElems F v)) (\<lambda>elems.
     if length elems < 2 then Some (Inl (BadLength (length elems))) else
     bindP (lib (GetBytes F (elems ! 0) None)) (\<lambda>target.
     bindP (lib (GetUint64 F (elems ! 1))) (\<lambda>expiration.
     Some (Inr \<lparr>find_Target = target, find_Expiration = expiration\<rparr>))))"

definition findNodeRequest_value :: "'v fastrlp \<Rightarrow> findNodeRequest \<Rightarrow> 'v" where
  "findNodeRequest_value F f = NewArray F [NewBytes F (find_Target f), NewUint F (find_Expiration f)]"

fun nodes_UnmarshalRLP :: "'v fastrlp \<Rightarrow> rpcNode list \<Rightarrow> 'v list \<Rightarrow> (rlp_error + rpcNode list) option" where
  "nodes_UnmarshalRLP F nodes [] = Some (Inr nodes)"
| "nodes_UnmarshalRLP F nodes (e # es) =
     bindP (rpcNode_UnmarshalRLP F e) (\<lambda>node. nodes_UnmarshalRLP F (nodes @ [node]) es)"

definition neighborsResponse_UnmarshalRLP :: "'v fastrlp \<Rightarrow> 'v \<Rightarrow> (rlp_error + neighborsResponse) option" where
  "neighborsResponse_UnmarshalRLP F v =
     bindP (lib (GetElems F v)) (\<lambda>elems.
     if length elems < 2 then Some (Inl (BadLength (length elems))) else
     bindP (lib (GetElems F (elems ! 0))) (\<lambda>es.
     bindP (nodes_UnmarshalRLP F [] es) (\<lambda>nodes.
     bindP (lib (GetUint64 F (elems ! 1))) (\<lambda>expiration.
     Some (Inr \<lparr>nb_Nodes = nodes, nb_Expiration = expiration\<rparr>)))))"

definition neighborsResponse_value :: "'v fastrlp \<Rightarrow> neighborsResponse \<Rightarrow> 'v" where
  "neighborsResponse_value F n =
     NewArray F [if nb_Nodes n = [] then NewNullArray F else NewArray F (map (rpcNode_MarshalRLP F) (nb_Nodes n)),
                 NewUint F (nb_Expiration n)]"

text \<open>The interface \<open>rlpMessage\<close>; \<open>MarshalRLP(dst)\<close> appends to \<open>dst\<close>.\<close>

datatype rlpMessage =
    PingRequest pingRequest | PongResponse pongResponse
  | FindNodeRequest findNodeRequest | NeighborsResponse neighborsResponse

fun rlpMessage_value :: "'v fastrlp \<Rightarrow> rlpMessage \<Rightarrow> 'v" where
  "rlpMessage_value F (PingRequest p) = pingRequest_value F p"
| "rlpMessage_value F (PongResponse p) = pongResponse_value F p"
| "rlpMessage_value F (FindNodeRequest f) = findNodeRequest_value F f"
| "rlpMessage_value F (NeighborsResponse n) = neighborsResponse_value F n"

definition MarshalRLP :: "'v fastrlp \<Rightarrow> rlpMessage \<Rightarrow> bytes \<Rightarrow> bytes" where
  "MarshalRLP F m dst = dst @ MarshalTo F (rlpMessage_value F m)"


section \<open>Peers\<close>

lemma HasPrefix_0x [simp]: "HasPrefix (CHR ''0'' # CHR ''x'' # s) ''0x''"
  by (simp add: HasPrefix_def)

lemma DecodeHex_0x [simp]: "DecodeHex (CHR ''0'' # CHR ''x'' # s) = hex_DecodeString s"
  by (simp add: DecodeHex_def)

lemma DecodeHex_EncodeToHex [simp]: "DecodeHex (EncodeToHex bs) = Inr bs"
  by (simp add: EncodeToHex_def)

lemma newPeer_hex:
  "newPeer (EncodeToHex bs) addr tcp =
     (if length bs = 64 then Inr \<lparr>peer_ID = hex_EncodeToString bs, peer_Bytes = bs, peer_UDPAddr = addr,
                                 peer_Last = None, peer_TCP = tcp\<rparr>
      else Inl (BadIDLength (2 * length bs)))"
  by (simp add: newPeer_def EncodeToHex_def Let_def)

text \<open>What every peer made by \<open>newPeer\<close> satisfies: the identifier is 64 bytes in hexadecimal.\<close>

definition peer_ok :: "Peer \<Rightarrow> bool" where
  "peer_ok p \<longleftrightarrow> length (peer_ID p) = 128 \<and> hex_DecodeString (peer_ID p) = Inr (peer_Bytes p)"

lemma newPeer_ok: "newPeer i addr tcp = Inr p \<Longrightarrow>
    peer_ok p \<and> peer_UDPAddr p = addr \<and> peer_TCP p = tcp \<and> peer_Last p = None"
  by (auto simp: newPeer_def peer_ok_def Let_def split: if_splits sum.splits)

lemma peer_ok_Bytes: "peer_ok p \<Longrightarrow> length (peer_Bytes p) = 64"
  using length_hex_DecodeString [of "peer_ID p"] by (auto simp: peer_ok_def)

lemma hex_digit_not_x: "n < 16 \<Longrightarrow> hex_digit n \<noteq> CHR ''x''"
proof -
  assume "n < 16"
  moreover have "\<forall>n \<in> set [0..<16]. hex_digit n \<noteq> CHR ''x''" by code_simp
  ultimately show ?thesis by simp
qed

lemma hex_no_x: "CHR ''x'' \<notin> set (hex_EncodeToString bs)"
proof (induction bs)
  case (Cons b bs)
  have "unat b div 16 < 16" using unat_byte_less [of b] by (simp add: less_mult_imp_div_less)
  then show ?case using Cons hex_digit_not_x [of "unat b div 16"] hex_digit_not_x [of "unat b mod 16"] by auto
qed simp

lemma Replace_absent: "x \<notin> set s \<Longrightarrow> x \<in> set old \<Longrightarrow> Replace s old new = s"
proof (induction s)
  case Nil
  then show ?case by (simp add: Replace.simps)
next
  case (Cons a s)
  have "\<not> HasPrefix (a # s) old" using Cons.prems set_take_subset [of "length old" "a # s"]
    by (auto simp: HasPrefix_def)
  then show ?case using Cons by (subst Replace.simps) simp
qed

lemma Peer_Enode_eq: "Peer_Enode p = ''enode://'' @ hex_EncodeToString (peer_Bytes p) @ ''@'' @
    IP_String (addr_IP (peer_UDPAddr p)) @ '':'' @ dec_string (unat (peer_TCP p))"
proof -
  have "Replace (EncodeToHex bs) ''0x'' '''' = Replace (hex_EncodeToString bs) ''0x'' ''''" for bs
    by (subst Replace.simps) (simp add: EncodeToHex_def)
  then show ?thesis using Replace_absent [OF hex_no_x [of "peer_Bytes p"], of "''0x''" "''''"]
    by (simp add: Peer_Enode_def)
qed

section \<open>Reading back what was written\<close>

lemma elem_lt [simp]: "i < length es \<Longrightarrow> elem es i = Some (Inr (es ! i))"
  by (simp add: elem_def)

lemma elem_panics [simp]: "length es \<le> i \<Longrightarrow> elem es i = None"
  by (simp add: elem_def)

lemma lib_Some [simp]: "lib (Some x) = Some (Inr x)" and lib_None [simp]: "lib None = Some (Inl RlpError)"
  by (simp_all add: lib_def)

lemma ucast_16_64 [simp]: "(ucast (ucast (x :: uint16) :: uint64) :: uint16) = x"
  by (rule bit_word_eqI) (auto simp: bit_simps)

abbreviation returned :: "'a \<Rightarrow> ('e + 'a) option" where
  "returned x \<equiv> Some (Inr x)"

context fastrlp_laws
begin

lemma rpcEndpoint_message:
  "rlp_message F view (rpcEndpoint_MarshalRLP F) (rpcEndpoint_UnmarshalRLP F) returned (\<lambda>_. True)"
proof unfold_locales
  fix r v assume v: "view v = view (rpcEndpoint_MarshalRLP F r)"
  obtain ws where ws: "GetElems F v = Some ws" "length ws = 3"
    "view (ws ! 0) = view (NewBytes F (ep_IP r))" "view (ws ! 1) = view (NewUint F (ucast (ep_UDP r)))"
    "view (ws ! 2) = view (NewUint F (ucast (ep_TCP r)))"
    by (rule GetElems_list [OF v [unfolded rpcEndpoint_MarshalRLP_def]]) force
  show "rpcEndpoint_UnmarshalRLP F v = returned r"
    using ws(1,2) GetBytes_NewBytes [OF ws(3)] GetUint64_NewUint [OF ws(4)] GetUint64_NewUint [OF ws(5)]
    by (simp add: rpcEndpoint_UnmarshalRLP_def)
qed simp

lemma rpcNode_message:
  "rlp_message F view (rpcNode_MarshalRLP F) (rpcNode_UnmarshalRLP F) returned (\<lambda>_. True)"
proof unfold_locales
  fix r v assume v: "view v = view (rpcNode_MarshalRLP F r)"
  obtain ws where ws: "GetElems F v = Some ws" "length ws = 4"
    "view (ws ! 0) = view (NewBytes F (node_IP r))" "view (ws ! 1) = view (NewUint F (ucast (node_UDP r)))"
    "view (ws ! 2) = view (NewUint F (ucast (node_TCP r)))" "view (ws ! 3) = view (NewBytes F (node_ID r))"
    by (rule GetElems_list [OF v [unfolded rpcNode_MarshalRLP_def]]) force
  show "rpcNode_UnmarshalRLP F v = returned r"
    using ws(1,2) GetBytes_NewBytes [OF ws(3)] GetUint64_NewUint [OF ws(4)] GetUint64_NewUint [OF ws(5)]
      GetBytes_NewBytes [OF ws(6)]
    by (simp add: rpcNode_UnmarshalRLP_def)
qed simp

lemma nodes_UnmarshalRLP_map:
  "map view vs = map view (map (rpcNode_MarshalRLP F) ns) \<Longrightarrow> nodes_UnmarshalRLP F ms vs = returned (ms @ ns)"
proof (induction ns arbitrary: vs ms)
  case (Cons n ns)
  then obtain v vs' where vs: "vs = v # vs'" "view v = view (rpcNode_MarshalRLP F n)"
    "map view vs' = map view (map (rpcNode_MarshalRLP F) ns)" by (cases vs) auto
  then show ?case using Cons.IH [OF vs(3)] rlp_message.dec_enc [OF rpcNode_message TrueI vs(2)] by simp
qed simp

lemma pingRequest_message:
  "rlp_message F view (pingRequest_value F) (pingRequest_UnmarshalRLP F) returned (\<lambda>_. True)"
proof unfold_locales
  fix p v assume v: "view v = view (pingRequest_value F p)"
  obtain ws where ws: "GetElems F v = Some ws" "length ws = 4"
    "view (ws ! 0) = view (NewUint F (ping_Version p))"
    "view (ws ! 1) = view (rpcEndpoint_MarshalRLP F (ping_From p))"
    "view (ws ! 2) = view (rpcEndpoint_MarshalRLP F (ping_To p))"
    "view (ws ! 3) = view (NewUint F (ping_Expiration p))"
    by (rule GetElems_list [OF v [unfolded pingRequest_value_def]]) force
  note ep = rlp_message.dec_enc [OF rpcEndpoint_message TrueI]
  show "pingRequest_UnmarshalRLP F v = returned p"
    using ws(1,2) GetUint64_NewUint [OF ws(3)] ep [OF ws(4)] ep [OF ws(5)] GetUint64_NewUint [OF ws(6)]
    by (simp add: pingRequest_UnmarshalRLP_def)
qed simp

lemma findNodeRequest_message:
  "rlp_message F view (findNodeRequest_value F) (findNodeRequest_UnmarshalRLP F) returned (\<lambda>_. True)"
proof unfold_locales
  fix f v assume v: "view v = view (findNodeRequest_value F f)"
  obtain ws where ws: "GetElems F v = Some ws" "length ws = 2"
    "view (ws ! 0) = view (NewBytes F (find_Target f))" "view (ws ! 1) = view (NewUint F (find_Expiration f))"
    by (rule GetElems_list [OF v [unfolded findNodeRequest_value_def]]) force
  show "findNodeRequest_UnmarshalRLP F v = returned f"
    using ws(1,2) GetBytes_NewBytes [OF ws(3)] GetUint64_NewUint [OF ws(4)]
    by (simp add: findNodeRequest_UnmarshalRLP_def)
qed simp

lemma neighborsResponse_message:
  "rlp_message F view (neighborsResponse_value F) (neighborsResponse_UnmarshalRLP F) returned (\<lambda>_. True)"
proof unfold_locales
  fix n v assume v: "view v = view (neighborsResponse_value F n)"
  obtain ws where ws: "GetElems F v = Some ws" "length ws = 2"
    "view (ws ! 0) = view (if nb_Nodes n = [] then NewNullArray F else NewArray F (map (rpcNode_MarshalRLP F) (nb_Nodes n)))"
    "view (ws ! 1) = view (NewUint F (nb_Expiration n))"
    by (rule GetElems_list [OF v [unfolded neighborsResponse_value_def]]) force
  have "view (ws ! 0) = view (NewArray F (map (rpcNode_MarshalRLP F) (nb_Nodes n)))"
    using ws(3) NewNullArray_empty by (simp split: if_splits)
  from GetElems_NewArray [OF this] obtain es where es: "GetElems F (ws ! 0) = Some es"
    "map view es = map view (map (rpcNode_MarshalRLP F) (nb_Nodes n))" by blast
  show "neighborsResponse_UnmarshalRLP F v = returned n"
    using ws(1,2) es(1) nodes_UnmarshalRLP_map [OF es(2), of "[]"] GetUint64_NewUint [OF ws(4)]
    by (simp add: neighborsResponse_UnmarshalRLP_def)
qed simp

end

interpretation ping_ref: rlp_message rlp_ref "\<lambda>v. v" "pingRequest_value rlp_ref"
  "pingRequest_UnmarshalRLP rlp_ref" returned "\<lambda>_. True"
  by (rule rlp_ref.pingRequest_message)

interpretation find_ref: rlp_message rlp_ref "\<lambda>v. v" "findNodeRequest_value rlp_ref"
  "findNodeRequest_UnmarshalRLP rlp_ref" returned "\<lambda>_. True"
  by (rule rlp_ref.findNodeRequest_message)

interpretation neighbors_ref: rlp_message rlp_ref "\<lambda>v. v" "neighborsResponse_value rlp_ref"
  "neighborsResponse_UnmarshalRLP rlp_ref" returned "\<lambda>_. True"
  by (rule rlp_ref.neighborsResponse_message)


section \<open>Properties\<close>

text \<open>Property C24. What a peer writes as a ping, find-node or neighbors message, the receiver reads back: parsing the
  bytes and decoding the value gives the message, without an error and without a panic, whatever RLP library
  satisfies its laws.\<close>

theorem discv4_messages_roundtrip:
  assumes "fastrlp_laws F view"
    and "length (MarshalRLP F (PingRequest p) []) < 2 ^ 63"
    and "length (MarshalRLP F (FindNodeRequest f) []) < 2 ^ 63"
    and "length (MarshalRLP F (NeighborsResponse n) []) < 2 ^ 63"
  shows "(\<exists>v. Parse F (MarshalRLP F (PingRequest p) []) = Some v \<and> pingRequest_UnmarshalRLP F v = Some (Inr p)) \<and>
    (\<exists>v. Parse F (MarshalRLP F (FindNodeRequest f) []) = Some v \<and> findNodeRequest_UnmarshalRLP F v = Some (Inr f)) \<and>
    (\<exists>v. Parse F (MarshalRLP F (NeighborsResponse n) []) = Some v \<and> neighborsResponse_UnmarshalRLP F v = Some (Inr n))"
  using assms(2-)
    rlp_message.wire_roundtrip [OF fastrlp_laws.pingRequest_message [OF assms(1)] TrueI, of p]
    rlp_message.wire_roundtrip [OF fastrlp_laws.findNodeRequest_message [OF assms(1)] TrueI, of f]
    rlp_message.wire_roundtrip [OF fastrlp_laws.neighborsResponse_message [OF assms(1)] TrueI, of n]
  by (simp add: MarshalRLP_def)

definition sample_endpoint :: rpcEndpoint where
  "sample_endpoint = \<lparr>ep_IP = [127, 0, 0, 1], ep_UDP = 30303, ep_TCP = 30304\<rparr>"

definition sample_ping :: pingRequest where
  "sample_ping = \<lparr>ping_Version = 4, ping_From = sample_endpoint, ping_To = sample_endpoint, ping_Expiration = 1600000000\<rparr>"

definition sample_neighbors :: neighborsResponse where
  "sample_neighbors = \<lparr>nb_Nodes = [\<lparr>node_IP = [10, 0, 0, 1], node_UDP = 1, node_TCP = 0, node_ID = [7, 8]\<rparr>], nb_Expiration = 0\<rparr>"

lemma discv4_ping_sample:
  "\<exists>v. Parse rlp_ref (MarshalRLP rlp_ref (PingRequest sample_ping) []) = Some v \<and>
      pingRequest_UnmarshalRLP rlp_ref v = Some (Inr sample_ping)"
proof -
  have "length (MarshalTo rlp_ref (pingRequest_value rlp_ref sample_ping)) < 2 ^ 63"
    by (simp add: pingRequest_value_def rpcEndpoint_MarshalRLP_def sample_endpoint_def sample_ping_def rlp_eval)
  from ping_ref.wire_roundtrip [OF TrueI this] show ?thesis by (simp add: MarshalRLP_def)
qed

lemma discv4_find_sample:
  "\<exists>v. Parse rlp_ref (MarshalRLP rlp_ref (FindNodeRequest \<lparr>find_Target = [1], find_Expiration = 5\<rparr>) []) = Some v \<and>
      findNodeRequest_UnmarshalRLP rlp_ref v = Some (Inr \<lparr>find_Target = [1], find_Expiration = 5\<rparr>)"
proof -
  have "length (MarshalTo rlp_ref (findNodeRequest_value rlp_ref \<lparr>find_Target = [1], find_Expiration = 5\<rparr>)) < 2 ^ 63"
    by (simp add: findNodeRequest_value_def rlp_eval)
  from find_ref.wire_roundtrip [OF TrueI this] show ?thesis by (simp add: MarshalRLP_def)
qed

theorem discv4_messages_roundtrip_witness:
  "(\<exists>v. Parse rlp_ref (MarshalRLP rlp_ref (PingRequest sample_ping) []) = Some v \<and>
      pingRequest_UnmarshalRLP rlp_ref v = Some (Inr sample_ping)) \<and>
   (\<exists>v. Parse rlp_ref (MarshalRLP rlp_ref (NeighborsResponse sample_neighbors) []) = Some v \<and>
      neighborsResponse_UnmarshalRLP rlp_ref v = Some (Inr sample_neighbors))"
proof -
  have "length (MarshalRLP rlp_ref (PingRequest sample_ping) []) < 2 ^ 63"
    "length (MarshalRLP rlp_ref (FindNodeRequest \<lparr>find_Target = [1], find_Expiration = 5\<rparr>) []) < 2 ^ 63"
    "length (MarshalRLP rlp_ref (NeighborsResponse sample_neighbors) []) < 2 ^ 63"
    by (simp_all add: MarshalRLP_def pingRequest_value_def findNodeRequest_value_def neighborsResponse_value_def
        rpcEndpoint_MarshalRLP_def rpcNode_MarshalRLP_def sample_endpoint_def sample_ping_def sample_neighbors_def rlp_eval)
  from discv4_messages_roundtrip [OF rlp_ref.fastrlp_laws_axioms this] show ?thesis by simp
qed

text \<open>A peer sent in a neighbors message arrives as the same peer, with its address and identifier, but
  without its TCP port: the receiver sees port 0. The sender's peer is one made by the protocol's own
  hexadecimal encoding, with a port of 16 bits.\<close>

theorem toRPCNode_toPeer:
  assumes "peer_ID p = hex_EncodeToString (peer_Bytes p)" and "length (peer_Bytes p) = 64"
    and "0 \<le> addr_Port (peer_UDPAddr p)" and "addr_Port (peer_UDPAddr p) < 2 ^ 16"
  shows "toPeer (toRPCNode p) =
    Inr (p\<lparr>peer_UDPAddr := (peer_UDPAddr p)\<lparr>addr_Zone := ''''\<rparr>, peer_Last := None, peer_TCP := 0\<rparr>)"
  using assms by (simp add: toPeer_def toRPCNode_def newPeer_hex uint_word_of_int)

theorem toRPCNode_toPeer_witness:
  "toPeer (toRPCNode \<lparr>peer_ID = hex_EncodeToString (replicate 64 1), peer_Bytes = replicate 64 1,
     peer_UDPAddr = \<lparr>addr_IP = [127, 0, 0, 1], addr_Port = 30303, addr_Zone = ''''\<rparr>, peer_Last = None, peer_TCP = 80\<rparr>) =
   Inr \<lparr>peer_ID = hex_EncodeToString (replicate 64 1), peer_Bytes = replicate 64 1,
     peer_UDPAddr = \<lparr>addr_IP = [127, 0, 0, 1], addr_Port = 30303, addr_Zone = ''''\<rparr>, peer_Last = None, peer_TCP = 0\<rparr>"
  by (subst toRPCNode_toPeer) simp_all

end
