(* ===== verification/Discv4Packet.thy ===== *)
theory Discv4Packet
  imports Discv4Msg
begin

text \<open>
  The frame of a discovery packet: \<open>encodePacket\<close>, \<open>decodePacket\<close> and \<open>decodePeerFromPacket\<close> of
  \<open>discovery/discv4.go\<close>, the type \<open>Packet\<close> of \<open>discovery/transport.go\<close>, and the expiration times
  that the messages carry. A packet is the digest of what follows it, a signature, the message
  code and the message.
\<close>

section \<open>Definitions\<close>

text \<open>\<open>copy(dst[off:], src)\<close>: no more than what fits is copied.\<close>

definition copy_at :: "bytes \<Rightarrow> nat \<Rightarrow> bytes \<Rightarrow> bytes" where
  "copy_at dst off src = take off dst @ take (length dst - off) src @ drop (off + length src) dst"

definition liftC :: "(crypto_error + 'a) option \<Rightarrow> (disc_error + 'a) option" where
  "liftC x = map_option (map_sum CryptoFailed (\<lambda>a. a)) x"

definition encodePacket ::
  "'k crypto_lib \<Rightarrow> 'v fastrlp \<Rightarrow> 'k \<Rightarrow> byte \<Rightarrow> rlpMessage \<Rightarrow> (disc_error + bytes) option" where
  "encodePacket C F priv code msg =
     (let packet = MarshalRLP F msg (headSpace @ [code])
      in bindP (liftC (Sign C priv (Keccak256 C [drop headSize packet]))) (\<lambda>sig.
         let packet = copy_at packet macSize sig;
             hash = Keccak256 C [drop macSize packet]
         in Some (Inr (copy_at packet 0 hash))))"

definition decodePacket :: "'k crypto_lib \<Rightarrow> bytes \<Rightarrow> (disc_error + bytes \<times> bytes \<times> bytes) option" where
  "decodePacket C data =
     (if length data < headSize + 1 then Some (Inl (PayloadSize (length data)))
      else let mac = take macSize data;
               sig = take (headSize - macSize) (drop macSize data);
               sigdata = drop headSize data
           in if mac \<noteq> Keccak256 C [drop macSize data] then Some (Inl MacsDoNotMatch)
              else bindP (liftC (RecoverPubkey C sig (Keccak256 C [sigdata]))) (\<lambda>pubkey.
                   Some (Inr (mac, sigdata, MarshallPublicKey pubkey))))"

datatype net_Addr = AddrUDP UDPAddr | AddrOther string

record Packet =
  pkt_Buf :: bytes
  pkt_From :: net_Addr
  pkt_Timestamp :: time

text \<open>The sender of a decoded packet.\<close>

definition packet_peer :: "Packet \<Rightarrow> bytes \<Rightarrow> disc_error + Peer" where
  "packet_peer packet pubkey =
     (case pkt_From packet of
        AddrOther _ \<Rightarrow> Inl ExpectedUDPAddr
      | AddrUDP addr \<Rightarrow> bindR (newPeer (EncodeToHex (drop 1 pubkey)) addr 0) (\<lambda>peer.
          Inr (peer\<lparr>peer_Last := Some (pkt_Timestamp packet)\<rparr>)))"

definition decodePeerFromPacket :: "'k crypto_lib \<Rightarrow> Packet \<Rightarrow> (disc_error + Peer) option" where
  "decodePeerFromPacket C packet =
     bindP (decodePacket C (pkt_Buf packet)) (\<lambda>(_, _, pubkey). Some (packet_peer packet pubkey))"

subsection \<open>Expiration\<close>

text \<open>
  \<open>time.Unix(sec, 0)\<close> adds the seconds from the year 1 to 1970 to an \<open>int64\<close>, wrapping around,
  and \<open>Unix()\<close> subtracts them.
\<close>

definition unixToInternal :: int where
  "unixToInternal = 62135596800"

definition time_Unix :: "uint64 \<Rightarrow> time" where
  "time_Unix sec = sint (sec + word_of_int unixToInternal) * Second"

definition Time_Unix :: "time \<Rightarrow> uint64" where
  "Time_Unix t = word_of_int (t div Second - unixToInternal)"

definition hasExpired :: "uint64 \<Rightarrow> time \<Rightarrow> bool" where
  "hasExpired ts now \<longleftrightarrow> time_Unix ts < now"

section \<open>The frame\<close>

lemma liftC_eq_Inr [simp]: "liftC x = Some (Inr a) \<longleftrightarrow> x = Some (Inr a)"
  by (cases x rule: option.exhaust) (auto simp: liftC_def map_sum_def split: sum.splits)

lemma length_copy_at [simp]: "off \<le> length dst \<Longrightarrow> length (copy_at dst off src) = length dst"
  by (auto simp: copy_at_def min_def)

lemma frame_sizes [simp]: "macSize = 32" "sigSize = 65" "headSize = 97" "length headSpace = 97"
  by (simp_all add: macSize_def sigSize_def headSize_def headSpace_def)

lemma copy_head:
  "length a = n \<Longrightarrow> length s = length b \<Longrightarrow> copy_at (a @ b @ c) n s = a @ s @ c"
  by (simp add: copy_at_def)

text \<open>The layout of an encoded packet.\<close>

lemma encodePacket_layout:
  assumes "crypto_laws C"
    and "Sign C priv (Keccak256 C [code # MarshalTo F (rlpMessage_value F m)]) = Some (Inr sig)" and "length sig = 65"
  shows "encodePacket C F priv code m =
    (let body = sig @ code # MarshalTo F (rlpMessage_value F m) in Some (Inr (Keccak256 C [body] @ body)))"
proof -
  let ?msg = "code # MarshalTo F (rlpMessage_value F m)"
  define z where "z = replicate 32 (0 :: byte)"
  define y where "y = replicate 65 (0 :: byte)"
  have split: "MarshalRLP F m (headSpace @ [code]) = z @ y @ ?msg"
    by (simp add: MarshalRLP_def headSpace_def z_def y_def flip: replicate_add)
  have len: "length z = 32" "length y = 65" by (simp_all add: z_def y_def)
  have one: "copy_at (z @ y @ ?msg) 32 sig = z @ sig @ ?msg" using len assms(3) by (intro copy_head) simp_all
  have two: "copy_at (z @ sig @ ?msg) 0 h = h @ sig @ ?msg" if "length h = 32" for h
    using copy_head [of "[]" 0 h z "sig @ ?msg"] len that by simp
  show ?thesis unfolding encodePacket_def split
    using assms(2) len by (simp add: Let_def liftC_def one two crypto_laws.Keccak256_length [OF assms(1)])
qed

lemma decodePacket_layout:
  assumes "length mac = 32" and "length sig = 65" and "msg \<noteq> []"
  shows "decodePacket C (mac @ sig @ msg) =
    (if mac = Keccak256 C [sig @ msg] then
       bindP (liftC (RecoverPubkey C sig (Keccak256 C [msg]))) (\<lambda>pubkey. Some (Inr (mac, msg, MarshallPublicKey pubkey)))
     else Some (Inl MacsDoNotMatch))"
  using assms by (cases msg) (simp_all add: decodePacket_def Let_def)

lemma decodePacket_cases:
  assumes "decodePacket C buf = Some (Inr (mac, sigdata, pubkey))"
  obtains sig where "buf = mac @ sig @ sigdata" "length mac = 32" "length sig = 65" "sigdata \<noteq> []"
    "mac = Keccak256 C [sig @ sigdata]"
    "\<exists>p. RecoverPubkey C sig (Keccak256 C [sigdata]) = Some (Inr p) \<and> pubkey = MarshallPublicKey p"
proof -
  define sig where "sig = take 65 (drop 32 buf)"
  have len: "97 < length buf" using assms by (auto simp: decodePacket_def split: if_splits)
  have mac: "mac = take 32 buf" "sigdata = drop 97 buf" "mac = Keccak256 C [drop 32 buf]"
    and rec: "\<exists>p. RecoverPubkey C sig (Keccak256 C [sigdata]) = Some (Inr p) \<and> pubkey = MarshallPublicKey p"
    using assms len by (auto simp: decodePacket_def Let_def sig_def bindP_eq_Some_Inr split: if_splits)
  have body: "drop 32 buf = sig @ sigdata"
    unfolding sig_def mac(2) using append_take_drop_id [of 65 "drop 32 buf"] by simp
  have "buf = mac @ sig @ sigdata" using append_take_drop_id [of 32 buf] unfolding body mac(1) by (rule sym)
  moreover have "length mac = 32" "length sig = 65" "sigdata \<noteq> []" using len mac(1,2) by (simp_all add: sig_def)
  moreover have "mac = Keccak256 C [sig @ sigdata]" using mac(3) unfolding body .
  ultimately show ?thesis using rec by (rule that)
qed

lemma decodePacket_returns: "decodePacket C buf \<noteq> None"
proof -
  have "RecoverPubkey C (take 65 (drop 32 buf)) h \<noteq> None" if "\<not> length buf < 98" for h
    using that by (auto simp: RecoverPubkey_def Let_def)
  from this [of "Keccak256 C [drop 97 buf]"] show ?thesis
    by (cases "length buf < 98") (auto simp: decodePacket_def Let_def liftC_def bindP_def split: option.splits sum.splits)
qed

lemma decodePacket_pubkey: "decodePacket C buf = Some (Inr (mac, sigdata, pubkey)) \<Longrightarrow> length pubkey = 65"
  by (erule decodePacket_cases) (auto simp: MarshallPublicKey_def)

section \<open>Expiration times\<close>

lemma Second_pos [simp]: "0 < Second"
  by (simp add: Second_def)

lemma time_Unix_Unix:
  assumes "0 \<le> t" and "t < 2 ^ 62 * Second"
  shows "time_Unix (Time_Unix t) = t div Second * Second"
proof -
  have "t div Second < 2 ^ 62" using assms by (simp add: Second_def)
  then have "sint (word_of_int (t div Second) :: uint64) = t div Second"
    using assms(1) by (simp add: sint_word_ariths signed_take_bit_int_eq_self pos_imp_zdiv_nonneg_iff sint_sbintrunc' Second_def)
  then show ?thesis by (simp add: time_Unix_def Time_Unix_def flip: of_int_add)
qed


lemma sint_uint64: "sint (w :: uint64) = (if uint w < 2 ^ 63 then uint w else uint w - 2 ^ 64)"
proof -
  have "uint w < 2 ^ 64" using unsigned_less [of w, where 'a = int] by simp
  then show ?thesis
    using int_div_pos_eq [of "uint w" "2 ^ 63" 1 "uint w - 2 ^ 63"]
    by (simp add: sint_uint signed_take_bit_eq_take_bit_minus bit_iff_odd take_bit_int_eq_self)
qed

lemma uint_add_uint64: "0 \<le> k \<Longrightarrow> k < 2 ^ 63 \<Longrightarrow>
    uint (w + word_of_int k :: uint64) = (if uint w + k < 2 ^ 64 then uint w + k else uint w + k - 2 ^ 64)"
  using unsigned_less [of w, where 'a = int] mod_pos_pos_trivial [of "uint w + k - 2 ^ 64" "2 ^ 64"]
  by (simp add: uint_word_ariths uint_word_of_int_eq take_bit_eq_mod)

section \<open>Properties\<close>

text \<open>Property C22. A packet made by \<open>encodePacket\<close> is accepted by \<open>decodePacket\<close>, which returns the message code and
  the encoded message that were put in, and the public key of the sender; the packet has 97 bytes of
  head and the message.\<close>

theorem packet_roundtrip:
  assumes "crypto_laws C"
    and "SignCompact C priv (Keccak256 C [code # MarshalRLP F m []]) = Some s" and "s ! 0 = 27 \<or> s ! 0 = 28"
  shows "\<exists>buf mac. encodePacket C F priv code m = Some (Inr buf) \<and> length buf = 98 + length (MarshalRLP F m []) \<and>
    decodePacket C buf = Some (Inr (mac, code # MarshalRLP F m [], MarshallPublicKey (PublicKey C priv)))"
proof -
  let ?msg = "code # MarshalTo F (rlpMessage_value F m)"
  have msg: "code # MarshalRLP F m [] = ?msg" by (simp add: MarshalRLP_def)
  obtain sig where sig: "Sign C priv (Keccak256 C [?msg]) = Some (Inr sig)" "length sig = 65"
    "RecoverPubkey C sig (Keccak256 C [?msg]) = Some (Inr (PublicKey C priv))"
    by (rule crypto_laws.Sign_Recover [OF assms(1) assms(2) [unfolded msg] assms(3)])
  have len: "length (Keccak256 C x) = 32" for x using assms(1) by (simp add: crypto_laws.Keccak256_length)
  show ?thesis
    using encodePacket_layout [OF assms(1) sig(1,2)] decodePacket_layout [OF len [of "[sig @ ?msg]"] sig(2), of ?msg C] sig(2,3)
    by (simp add: Let_def len liftC_def MarshalRLP_def)
qed

theorem packet_roundtrip_witness:
  "\<exists>buf mac. encodePacket demo_lib rlp_ref True findnodePacket (FindNodeRequest \<lparr>find_Target = [1], find_Expiration = 5\<rparr>) = Some (Inr buf) \<and>
    decodePacket demo_lib buf = Some (Inr (mac, findnodePacket # MarshalRLP rlp_ref (FindNodeRequest \<lparr>find_Target = [1], find_Expiration = 5\<rparr>) [],
      MarshallPublicKey (demo_point True)))"
proof -
  have "SignCompact demo_lib True h = Some (28 # replicate 64 0)" "PublicKey demo_lib True = demo_point True" for h
    by (simp_all add: demo_lib_def)
  then show ?thesis
    using packet_roundtrip [OF demo.crypto_laws_axioms, of True findnodePacket rlp_ref
        "FindNodeRequest \<lparr>find_Target = [1], find_Expiration = 5\<rparr>" "28 # replicate 64 0"] by auto
qed

text \<open>Property C23. \<open>decodePacket\<close> accepts exactly the packets that consist of the digest of the rest, 65 bytes of
  signature and a non-empty message whose signature resolves to a key, which is the key it returns. On any
  other bytes it returns an error: it never panics.\<close>

theorem decodePacket_exact:
  "decodePacket C buf \<noteq> None \<and>
   (decodePacket C buf = Some (Inr (mac, sigdata, pubkey)) \<longleftrightarrow>
    (\<exists>sig p. buf = mac @ sig @ sigdata \<and> length mac = 32 \<and> length sig = 65 \<and> sigdata \<noteq> [] \<and>
       mac = Keccak256 C [sig @ sigdata] \<and> RecoverPubkey C sig (Keccak256 C [sigdata]) = Some (Inr p) \<and>
       pubkey = MarshallPublicKey p))"
  (is "?returns \<and> (?accepts \<longleftrightarrow> ?frame)")
proof (intro conjI iffI)
  show ?returns by (rule decodePacket_returns)
  show ?frame if ?accepts using that by (rule decodePacket_cases) blast
  show ?accepts if ?frame
  proof -
    obtain sig p where f: "buf = mac @ sig @ sigdata" "length mac = 32" "length sig = 65" "sigdata \<noteq> []"
      "mac = Keccak256 C [sig @ sigdata]" "RecoverPubkey C sig (Keccak256 C [sigdata]) = Some (Inr p)"
      "pubkey = MarshallPublicKey p" using \<open>?frame\<close> by blast
    show ?thesis unfolding f(1) decodePacket_layout [OF f(2-4)] using f(5-7) by (simp add: liftC_def)
  qed
qed

text \<open>Two different packets with the same digest are not both accepted, unless the bytes after the digest
  are a collision of the hash.\<close>

theorem decodePacket_binding:
  assumes "decodePacket C buf = Some (Inr (mac, data, key))"
    and "decodePacket C buf' = Some (Inr (mac, data', key'))" and "buf \<noteq> buf'"
  shows "drop macSize buf \<noteq> drop macSize buf' \<and>
    LegacyKeccak256 C (drop macSize buf) = LegacyKeccak256 C (drop macSize buf')"
  using assms by (auto elim!: decodePacket_cases simp: Keccak256_def)

theorem decodePacket_binding_witness:
  "\<exists>buf buf'. buf \<noteq> buf' \<and> drop macSize buf \<noteq> drop macSize buf' \<and>
    LegacyKeccak256 demo_lib (drop macSize buf) = LegacyKeccak256 demo_lib (drop macSize buf')"
proof -
  let ?buf = "\<lambda>b. replicate 32 0 @ replicate 65 0 @ [b] :: bytes"
  have "decodePacket demo_lib (?buf b) = Some (Inr (replicate 32 0, [b], MarshallPublicKey (demo_point False)))" for b
    by (subst decodePacket_layout)
      (simp_all add: demo_lib_def Keccak256_def RecoverPubkey_def liftC_def Let_def flip: replicate_add)
  from decodePacket_binding [OF this [of 1] this [of 2]] show ?thesis by (intro exI [of _ "?buf 1"] exI [of _ "?buf 2"]) simp
qed

text \<open>When a time stamp has expired, exactly: the seconds are counted from the year 1 in 63 bits, so a
  stamp from \<open>2 ^ 63 - 62135596800\<close> on wraps to a time before the year 1 and has always expired, and one from
  \<open>2 ^ 64 - 62135596800\<close> on stands for a time before 1970.\<close>

theorem hasExpired_exact:
  assumes "0 \<le> now"
  shows "hasExpired ts now \<longleftrightarrow>
    (let s = uint ts + 62135596800 in
     if s < 2 ^ 63 then s * Second < now else s < 2 ^ 64 \<or> (s - 2 ^ 64) * Second < now)"
proof -
  have ts: "uint ts < 2 ^ 64" using unsigned_less [of ts, where 'a = int] by simp
  have neg: "x * Second < now" if "x < 0" for x using that assms by (simp add: Second_def)
  let ?s = "uint ts + 62135596800"
  have "uint (ts + word_of_int unixToInternal :: uint64) = (if ?s < 2 ^ 64 then ?s else ?s - 2 ^ 64)"
    using uint_add_uint64 [of unixToInternal ts] by (simp add: unixToInternal_def)
  then have t: "time_Unix ts = (if ?s < 2 ^ 63 then ?s else ?s - 2 ^ 64) * Second"
    unfolding time_Unix_def sint_uint64 using ts by simp
  show ?thesis unfolding hasExpired_def t Let_def using neg [of "?s - 2 ^ 64"] by auto
qed

theorem hasExpired_exact_witness:
  "hasExpired (2 ^ 63 - 1) 0 \<and> \<not> hasExpired 1600000000 (63000000000 * Second)"
  using hasExpired_exact [of 0 "2 ^ 63 - 1"] hasExpired_exact [of "63000000000 * Second" 1600000000]
  by (simp add: Second_def)

end
