(* ===== verification/GoMonad.thy ===== *)
theory GoMonad
  imports Prelude
begin

text \<open>
  Stateful Go code that returns errors and may panic or block for ever: a command takes the state to
  \<open>None\<close>, or to the state after it and its result. A call that returns an error keeps what it did to
  the state before. The rules are those of two kinds of triples: in \<open>total\<close> the command also comes
  back, \<open>keeps\<close> says only what holds if it does.
\<close>

type_synonym ('s, 'e, 'a) cmd = "'s \<Rightarrow> ('s \<times> ('e + 'a)) option"

section \<open>Commands\<close>

definition ret :: "'a \<Rightarrow> ('s, 'e, 'a) cmd" where
  "ret a s = Some (s, Inr a)"

definition fail :: "'e \<Rightarrow> ('s, 'e, 'a) cmd" where
  "fail e s = Some (s, Inl e)"

definition panic :: "('s, 'e, 'a) cmd" where
  "panic s = None"

definition bindS :: "('s, 'e, 'a) cmd \<Rightarrow> ('a \<Rightarrow> ('s, 'e, 'b) cmd) \<Rightarrow> ('s, 'e, 'b) cmd" where
  "bindS m f s =
     (case m s of
        None \<Rightarrow> None
      | Some (s', r) \<Rightarrow> (case r of Inl e \<Rightarrow> Some (s', Inl e) | Inr a \<Rightarrow> f a s'))"

text \<open>A call whose error is ignored or looked at, reading and writing the state, and results of pure
  functions.\<close>

definition attempt :: "('s, 'e, 'a) cmd \<Rightarrow> ('s, 'f, 'e + 'a) cmd" where
  "attempt m s = (case m s of None \<Rightarrow> None | Some (s', r) \<Rightarrow> Some (s', Inr r))"

definition gets :: "('s \<Rightarrow> 'a) \<Rightarrow> ('s, 'e, 'a) cmd" where
  "gets f s = Some (s, Inr (f s))"

definition modify :: "('s \<Rightarrow> 's) \<Rightarrow> ('s, 'e, unit) cmd" where
  "modify f s = Some (f s, Inr ())"

definition pureR :: "'e + 'a \<Rightarrow> ('s, 'e, 'a) cmd" where
  "pureR r s = Some (s, r)"

definition pureO :: "'a option \<Rightarrow> ('s, 'e, 'a) cmd" where
  "pureO x s = (case x of None \<Rightarrow> None | Some a \<Rightarrow> Some (s, Inr a))"

definition pureP :: "('e + 'a) option \<Rightarrow> ('s, 'e, 'a) cmd" where
  "pureP x s = (case x of None \<Rightarrow> None | Some r \<Rightarrow> Some (s, r))"

lemmas cmd_defs = ret_def fail_def panic_def bindS_def attempt_def gets_def modify_def pureR_def pureO_def pureP_def

section \<open>Triples\<close>

definition total :: "('s \<Rightarrow> bool) \<Rightarrow> ('s, 'e, 'a) cmd \<Rightarrow> ('e + 'a \<Rightarrow> 's \<Rightarrow> bool) \<Rightarrow> bool" where
  "total P m Q \<longleftrightarrow> (\<forall>s. P s \<longrightarrow> (\<exists>s' r. m s = Some (s', r) \<and> Q r s'))"

definition keeps :: "('s \<Rightarrow> bool) \<Rightarrow> ('s, 'e, 'a) cmd \<Rightarrow> ('e + 'a \<Rightarrow> 's \<Rightarrow> bool) \<Rightarrow> bool" where
  "keeps P m Q \<longleftrightarrow> (\<forall>s s' r. P s \<longrightarrow> m s = Some (s', r) \<longrightarrow> Q r s')"

lemma totalI: "(\<And>s. P s \<Longrightarrow> \<exists>s' r. m s = Some (s', r) \<and> Q r s') \<Longrightarrow> total P m Q"
  by (simp add: total_def)

lemma totalE:
  assumes "total P m Q" and "P s" obtains s' r where "m s = Some (s', r)" "Q r s'"
  using assms by (auto simp: total_def)

lemma totalD: "total P m Q \<Longrightarrow> P s \<Longrightarrow> \<exists>s' r. m s = Some (s', r) \<and> Q r s'"
  by (simp add: total_def)

lemma keepsI: "(\<And>s s' r. P s \<Longrightarrow> m s = Some (s', r) \<Longrightarrow> Q r s') \<Longrightarrow> keeps P m Q"
  by (auto simp: keeps_def)

lemma keepsD: "keeps P m Q \<Longrightarrow> P s \<Longrightarrow> m s = Some (s', r) \<Longrightarrow> Q r s'"
  by (auto simp: keeps_def)

lemma total_keeps: "total P m Q \<Longrightarrow> keeps P m Q"
  by (fastforce simp: total_def keeps_def)

lemma total_weaken: "total P m Q \<Longrightarrow> (\<And>s. P' s \<Longrightarrow> P s) \<Longrightarrow> (\<And>r s. Q r s \<Longrightarrow> Q' r s) \<Longrightarrow> total P' m Q'"
  by (fastforce simp: total_def)

lemma keeps_weaken: "keeps P m Q \<Longrightarrow> (\<And>s. P' s \<Longrightarrow> P s) \<Longrightarrow> (\<And>r s. Q r s \<Longrightarrow> Q' r s) \<Longrightarrow> keeps P' m Q'"
  by (fastforce simp: keeps_def)

lemma total_bindS:
  assumes "total P m (\<lambda>r s. case r of Inl e \<Rightarrow> Q (Inl e) s | Inr a \<Rightarrow> R a s)" and "\<And>a. total (R a) (f a) Q"
  shows "total P (bindS m f) Q"
proof (rule totalI)
  fix s assume "P s"
  with assms(1) obtain s' r where m: "m s = Some (s', r)" "case r of Inl e \<Rightarrow> Q (Inl e) s' | Inr a \<Rightarrow> R a s'"
    by (rule totalE)
  show "\<exists>s' r. bindS m f s = Some (s', r) \<and> Q r s'"
  proof (cases r)
    case (Inr a)
    with m(2) have "R a s'" by simp
    with assms(2) [of a] obtain t q where "f a s' = Some (t, q)" "Q q t" by (rule totalE)
    with m(1) Inr show ?thesis by (simp add: bindS_def)
  qed (use m in \<open>simp add: bindS_def\<close>)
qed

lemma keeps_bindS:
  assumes "keeps P m (\<lambda>r s. case r of Inl e \<Rightarrow> Q (Inl e) s | Inr a \<Rightarrow> R a s)" and "\<And>a. keeps (R a) (f a) Q"
  shows "keeps P (bindS m f) Q"
proof (rule keepsI)
  fix s s' r assume "P s" and "bindS m f s = Some (s', r)"
  then obtain t q where m: "m s = Some (t, q)" "case q of Inl e \<Rightarrow> r = Inl e \<and> s' = t | Inr a \<Rightarrow> f a t = Some (s', r)"
    by (auto simp: bindS_def split: option.splits sum.splits prod.splits)
  have "case q of Inl e \<Rightarrow> Q (Inl e) t | Inr a \<Rightarrow> R a t" using keepsD [OF assms(1) \<open>P s\<close> m(1)] .
  then show "Q r s'" using m(2) keepsD [OF assms(2)] by (auto split: sum.splits)
qed

text \<open>The commands without a state change, and an invariant \<open>I\<close> that is kept throughout.\<close>

abbreviation inv_post :: "('s \<Rightarrow> bool) \<Rightarrow> 'r \<Rightarrow> 's \<Rightarrow> bool" where
  "inv_post I \<equiv> \<lambda>_ s. I s"

lemma total_simple:
  "total I (ret a) (inv_post I)" "total I (fail e) (inv_post I)" "total I (gets f) (inv_post I)" "total I (pureR r) (inv_post I)"
  by (simp_all add: total_def ret_def fail_def gets_def pureR_def)

lemma keeps_simple:
  "keeps I (ret a) (inv_post I)" "keeps I (fail e) (inv_post I)" "keeps I panic (inv_post I)" "keeps I (gets f) (inv_post I)"
  "keeps I (pureR r) (inv_post I)" "keeps I (pureO x) (inv_post I)" "keeps I (pureP y) (inv_post I)"
  by (auto simp: keeps_def cmd_defs split: option.splits)

lemma total_attempt: "total I m (inv_post I) \<Longrightarrow> total I (attempt m) (inv_post I)"
  by (fastforce simp: total_def attempt_def)

lemma keeps_attempt: "keeps I m (inv_post I) \<Longrightarrow> keeps I (attempt m) (inv_post I)"
  by (auto simp: keeps_def attempt_def split: option.splits)

lemma total_inv_bindS: "total I m (inv_post I) \<Longrightarrow> (\<And>a. total I (f a) (inv_post I)) \<Longrightarrow> total I (bindS m f) (inv_post I)"
  by (rule total_bindS [where R = "\<lambda>_. I"]) (auto elim: total_weaken split: sum.splits)

lemma keeps_inv_bindS: "keeps I m (inv_post I) \<Longrightarrow> (\<And>a. keeps I (f a) (inv_post I)) \<Longrightarrow> keeps I (bindS m f) (inv_post I)"
  by (rule keeps_bindS [where R = "\<lambda>_. I"]) (auto elim: keeps_weaken split: sum.splits)

lemma keeps_bindS_post:
  assumes "keeps I m (inv_post I)" and "\<And>e s. I s \<Longrightarrow> Q (Inl e) s" and "\<And>a. keeps I (f a) Q" shows "keeps I (bindS m f) Q"
  using assms by (intro keeps_bindS [where R = "\<lambda>_. I"]) (auto elim: keeps_weaken split: sum.splits)

lemma total_modify: "(\<And>s. I s \<Longrightarrow> I (f s)) \<Longrightarrow> total I (modify f) (inv_post I)"
  by (simp add: total_def modify_def)

lemma keeps_modify: "(\<And>s. I s \<Longrightarrow> I (f s)) \<Longrightarrow> keeps I (modify f) (inv_post I)"
  by (simp add: keeps_def modify_def)

lemma total_if: "(c \<Longrightarrow> total P m Q) \<Longrightarrow> (\<not> c \<Longrightarrow> total P n Q) \<Longrightarrow> total P (if c then m else n) Q"
  by simp

lemma keeps_if: "(c \<Longrightarrow> keeps P m Q) \<Longrightarrow> (\<not> c \<Longrightarrow> keeps P n Q) \<Longrightarrow> keeps P (if c then m else n) Q"
  by simp

lemmas total_rules = total_simple total_inv_bindS total_attempt total_modify total_if
lemmas keeps_rules = keeps_simple keeps_inv_bindS keeps_attempt keeps_modify keeps_if

section \<open>Evaluation\<close>

lemma cmd_eval [simp]:
  "ret a s = Some (s, Inr a)" "fail e s = Some (s, Inl e)" "panic s = None" "gets f s = Some (s, Inr (f s))"
  "pureR r s = Some (s, r)" "pureO (Some a) s = Some (s, Inr a)" "pureO None s = None"
  "pureP (Some r) s = Some (s, r)" "pureP None s = None"
  by (simp_all add: cmd_defs)

lemma modify_eval [simp]: "modify g s = Some (g s, Inr ())"
  by (simp add: modify_def)

lemma bindS_eval:
  "m s = None \<Longrightarrow> bindS m f s = None" "m s = Some (s', Inl e) \<Longrightarrow> bindS m f s = Some (s', Inl e)"
  "m s = Some (s', Inr a) \<Longrightarrow> bindS m f s = f a s'"
  by (simp_all add: bindS_def)

lemma bindS_simps [simp]:
  "bindS (ret a) f s = f a s" "bindS (fail e) f s = Some (s, Inl e)" "bindS panic f s = None" "bindS (gets g) f s = f (g s) s"
  "bindS (pureR (Inr a)) f s = f a s" "bindS (pureR (Inl e)) f s = Some (s, Inl e)"
  "bindS (pureO (Some a)) f s = f a s" "bindS (pureO None) f s = None"
  "bindS (pureP (Some (Inr a))) f s = f a s" "bindS (pureP (Some (Inl e))) f s = Some (s, Inl e)" "bindS (pureP None) f s = None"
  by (simp_all add: bindS_def)

lemma bindS_modify [simp]: "bindS (modify h) f s = f () (h s)"
  by (simp add: bindS_def)

lemma bindS_pure:
  "bindS (ret a) f = f a" "bindS (pureR (Inr a)) f = f a" "bindS (pureO (Some a)) f = f a" "bindS (pureP (Some (Inr a))) f = f a"
  by (simp_all add: fun_eq_iff)

lemma attempt_eval: "m s = None \<Longrightarrow> attempt m s = None" "m s = Some (s', r) \<Longrightarrow> attempt m s = Some (s', Inr r)"
  by (simp_all add: attempt_def)

lemma bindS_Some_cases:
  assumes "bindS m f s = Some (t, r)"
  obtains (error) e where "m s = Some (t, Inl e)" "r = Inl e" | (result) a s' where "m s = Some (s', Inr a)" "f a s' = Some (t, r)"
  using assms by (auto simp: bindS_def split: option.splits sum.splits)

lemma bindS_assoc: "bindS (bindS m f) g = bindS m (\<lambda>a. bindS (f a) g)"
  by (rule ext) (auto simp: bindS_def split: option.splits sum.splits)

end
