(* ===== verification/KadUtil.thy ===== *)
theory KadUtil
  imports Prelude
begin

text \<open>
  The XOR key space of the routing table, \<open>discovery/kademlia/util.go\<close>: identifiers are
  byte strings, their distance is the bytewise exclusive or compared as a big-endian number,
  and \<open>CommonPrefixLen\<close> counts the leading bits two identifiers share. The lemmas give
  \<open>CommonPrefixLen\<close> its meaning on single bits and relate it to the order of distances.
\<close>

type_synonym ID = bytes

section \<open>Definitions\<close>

text \<open>\<open>func (id ID) less(other ID) bool\<close>: \<open>bytes.Compare(id, other) < 0\<close>, the lexicographic
  order on byte lists.\<close>

definition less :: "ID \<Rightarrow> ID \<Rightarrow> bool" where
  "less a b \<longleftrightarrow> a < b"

text \<open>\<open>c[i] = a[i] ^ b[i]\<close> for every index of \<open>a\<close>: a panic when \<open>b\<close> is shorter.\<close>

definition xor_bytes :: "bytes \<Rightarrow> bytes \<Rightarrow> bytes option" where
  "xor_bytes a b = (if length a \<le> length b then Some (map2 (XOR) a b) else None)"

text \<open>\<open>math/bits\<close>: the least number of bits that represent \<open>n\<close>.\<close>

fun bit_len :: "nat \<Rightarrow> nat" where
  "bit_len n = (if n = 0 then 0 else Suc (bit_len (n div 2)))"

declare bit_len.simps [simp del]

definition LeadingZeros8 :: "byte \<Rightarrow> nat" where
  "LeadingZeros8 b = 8 - bit_len (unat b)"

fun zeroPrefixLen_from :: "nat \<Rightarrow> bytes \<Rightarrow> nat" where
  "zeroPrefixLen_from i [] = i * 8"
| "zeroPrefixLen_from i (b # bs) =
     (if b \<noteq> 0 then i * 8 + LeadingZeros8 b else zeroPrefixLen_from (Suc i) bs)"

definition zeroPrefixLen :: "bytes \<Rightarrow> nat" where
  "zeroPrefixLen bs = zeroPrefixLen_from 0 bs"

definition CommonPrefixLen :: "ID \<Rightarrow> ID \<Rightarrow> nat option" where
  "CommonPrefixLen a b = do { d \<leftarrow> xor_bytes a b; Some (zeroPrefixLen d) }"

text \<open>The same number where no index is out of range; the specification side of the proofs.\<close>

definition cpl :: "ID \<Rightarrow> ID \<Rightarrow> nat" where
  "cpl a b = zeroPrefixLen (map2 (XOR) a b)"

text \<open>Bit \<open>k\<close> of an identifier, the most significant bit of the first byte being bit 0.\<close>

definition bit_at :: "bytes \<Rightarrow> nat \<Rightarrow> bool" where
  "bit_at bs k = bit (bs ! (k div 8)) (7 - k mod 8)"

section \<open>Bit lengths\<close>

lemma bit_len_le_iff: "bit_len n \<le> k \<longleftrightarrow> n < 2 ^ k"
proof (induction n arbitrary: k rule: bit_len.induct)
  case (1 n)
  show ?case
  proof (cases k)
    case 0
    then show ?thesis by (simp add: bit_len.simps [of n])
  next
    case (Suc m)
    show ?thesis
    proof (cases "n = 0")
      case False
      then have "bit_len n \<le> k \<longleftrightarrow> n div 2 < 2 ^ m"
        using "1" [of m] by (simp add: bit_len.simps [of n] Suc)
      then show ?thesis by (auto simp: Suc div_less_iff_less_mult)
    qed (simp add: bit_len.simps)
  qed
qed

lemma bit_len_byte: "bit_len (unat (b :: byte)) \<le> 8"
  by (simp add: bit_len_le_iff)

lemma bit_len_eq_0 [simp]: "bit_len n = 0 \<longleftrightarrow> n = 0"
  using bit_len_le_iff [of n 0] by auto

lemma bit_above_bit_len: "bit_len n \<le> j \<Longrightarrow> \<not> bit n j"
proof -
  assume "bit_len n \<le> j"
  then have "n < 2 ^ j" by (simp add: bit_len_le_iff)
  then have "n div 2 ^ j = 0" by simp
  then show ?thesis by (simp add: bit_iff_odd)
qed

lemma bit_at_bit_len: "0 < n \<Longrightarrow> bit n (bit_len n - 1)"
proof -
  assume "0 < n"
  define k where "k = bit_len n - 1"
  from \<open>0 < n\<close> have k: "bit_len n = Suc k"
    using bit_len_eq_0 [of n] by (cases "bit_len n") (simp_all add: k_def)
  have "n < 2 ^ Suc k" using bit_len_le_iff [of n "Suc k"] k by simp
  moreover have "2 ^ k \<le> n" using bit_len_le_iff [of n k] k by simp
  ultimately have "n div 2 ^ k = 1"
    by (intro div_nat_eqI) (simp_all)
  then show ?thesis by (simp add: bit_iff_odd k)
qed

lemma LeadingZeros8_le: "LeadingZeros8 b \<le> 8"
  by (simp add: LeadingZeros8_def)

lemma LeadingZeros8_less: "b \<noteq> 0 \<Longrightarrow> LeadingZeros8 b < 8"
proof -
  assume "b \<noteq> 0"
  then have "0 < bit_len (unat b)" by (metis bit_len_eq_0 neq0_conv unat_eq_0)
  then show ?thesis unfolding LeadingZeros8_def by linarith
qed

lemma LeadingZeros8_zeros: "k < LeadingZeros8 b \<Longrightarrow> \<not> bit b (7 - k)"
proof -
  assume "k < LeadingZeros8 b"
  then have "bit_len (unat b) \<le> 7 - k" by (simp add: LeadingZeros8_def)
  then have "\<not> bit (unat b) (7 - k)" by (rule bit_above_bit_len)
  then show ?thesis by (simp add: bit_unsigned_iff)
qed

lemma LeadingZeros8_one: "b \<noteq> 0 \<Longrightarrow> bit b (7 - LeadingZeros8 b)"
proof -
  assume "b \<noteq> 0"
  then have pos: "0 < unat b" by (simp add: unat_gt_0)
  have "bit_len (unat b) \<noteq> 0" using pos by simp
  then have "7 - LeadingZeros8 b = bit_len (unat b) - 1"
    using bit_len_byte [of b] by (simp add: LeadingZeros8_def)
  then show ?thesis using bit_at_bit_len [OF pos] by (simp add: bit_unsigned_iff)
qed

lemma LeadingZeros8_antimono: "LeadingZeros8 b < LeadingZeros8 a \<Longrightarrow> a < b"
proof -
  assume "LeadingZeros8 b < LeadingZeros8 a"
  then have "bit_len (unat a) < bit_len (unat b)"
    using bit_len_byte [of a] bit_len_byte [of b] by (simp add: LeadingZeros8_def)
  then have "\<not> bit_len (unat b) \<le> bit_len (unat a)" by simp
  then have "2 ^ bit_len (unat a) \<le> unat b" by (simp add: bit_len_le_iff)
  moreover have "unat a < 2 ^ bit_len (unat a)" using bit_len_le_iff [of "unat a"] by blast
  ultimately show ?thesis by (simp add: word_less_nat_alt)
qed

section \<open>The zero prefix, bit by bit\<close>

lemma zeroPrefixLen_from_shift: "zeroPrefixLen_from i bs = i * 8 + zeroPrefixLen_from 0 bs"
proof (induction bs arbitrary: i)
  case (Cons b bs)
  show ?case using Cons [of "Suc i"] Cons [of "Suc 0"] by simp
qed simp

lemma zeroPrefixLen_Nil [simp]: "zeroPrefixLen [] = 0"
  by (simp add: zeroPrefixLen_def)

lemma zeroPrefixLen_Cons [simp]:
  "zeroPrefixLen (b # bs) = (if b \<noteq> 0 then LeadingZeros8 b else 8 + zeroPrefixLen bs)"
  using zeroPrefixLen_from_shift [of "Suc 0" bs] by (simp add: zeroPrefixLen_def)

lemma zeroPrefixLen_le: "zeroPrefixLen bs \<le> 8 * length bs"
  by (induction bs) (auto intro: LeadingZeros8_le [THEN order_trans])

lemma bit_at_Cons_low: "k < 8 \<Longrightarrow> bit_at (b # bs) k = bit b (7 - k)"
  by (simp add: bit_at_def)

lemma bit_at_Cons_high: "bit_at (b # bs) (8 + k) = bit_at bs k"
proof -
  have "(8 + k) div 8 = Suc (k div 8)" by simp
  then show ?thesis by (simp add: bit_at_def del: div_add_self1)
qed

lemma zeroPrefixLen_zeros: "k < zeroPrefixLen bs \<Longrightarrow> \<not> bit_at bs k"
proof (induction bs arbitrary: k)
  case (Cons b bs)
  show ?case
  proof (cases "b = 0")
    case True
    show ?thesis
    proof (cases "k < 8")
      case False
      then obtain j where "k = 8 + j" using le_Suc_ex by (metis not_less)
      with Cons True show ?thesis by (simp add: bit_at_Cons_high)
    qed (simp add: bit_at_Cons_low True)
  next
    case False
    with Cons.prems have "k < LeadingZeros8 b" by simp
    moreover from this have "k < 8" using LeadingZeros8_le [of b] by simp
    ultimately show ?thesis by (simp add: bit_at_Cons_low LeadingZeros8_zeros)
  qed
qed simp

lemma zeroPrefixLen_one: "zeroPrefixLen bs < 8 * length bs \<Longrightarrow> bit_at bs (zeroPrefixLen bs)"
proof (induction bs)
  case (Cons b bs)
  then show ?case
    by (cases "b = 0")
      (simp_all add: bit_at_Cons_high bit_at_Cons_low LeadingZeros8_less LeadingZeros8_one)
qed simp

lemma zeroPrefixLen_greater_less:
  "length x = length y \<Longrightarrow> zeroPrefixLen y < zeroPrefixLen x \<Longrightarrow> x < y"
proof (induction x y rule: list_induct2)
  case (Cons a x b y)
  show ?case
  proof (cases "a = 0")
    case True
    show ?thesis
    proof (cases "b = 0")
      case False
      with True show ?thesis by (simp add: word_gt_0)
    qed (use Cons True in simp)
  next
    case False
    with Cons.prems have b: "b \<noteq> 0"
      using LeadingZeros8_less [of a] by (cases "b = 0") simp_all
    with Cons.prems False have "a < b" by (auto intro: LeadingZeros8_antimono)
    then show ?thesis by simp
  qed
qed simp

section \<open>Common prefixes\<close>

lemma CommonPrefixLen_eq: "length a \<le> length b \<Longrightarrow> CommonPrefixLen a b = Some (cpl a b)"
  by (simp add: CommonPrefixLen_def xor_bytes_def cpl_def)

lemma CommonPrefixLen_panics: "length b < length a \<Longrightarrow> CommonPrefixLen a b = None"
  by (simp add: CommonPrefixLen_def xor_bytes_def)

lemma bit_at_xor:
  assumes "length a = length b" and "k < 8 * length a"
  shows "bit_at (map2 (XOR) a b) k \<longleftrightarrow> bit_at a k \<noteq> bit_at b k"
proof -
  from assms have "k div 8 < length a" by (simp add: div_less_iff_less_mult)
  with assms show ?thesis by (simp add: bit_at_def bit_xor_iff)
qed

lemma cpl_le: "length a = length b \<Longrightarrow> cpl a b \<le> 8 * length a"
  using zeroPrefixLen_le [of "map2 (XOR) a b"] by (simp add: cpl_def)

lemma cpl_agree:
  "length a = length b \<Longrightarrow> k < cpl a b \<Longrightarrow> bit_at a k = bit_at b k"
  using zeroPrefixLen_zeros [of k "map2 (XOR) a b"] bit_at_xor [of a b k] cpl_le [of a b]
  by (simp add: cpl_def)

lemma cpl_differ:
  "length a = length b \<Longrightarrow> cpl a b < 8 * length a \<Longrightarrow> bit_at a (cpl a b) \<noteq> bit_at b (cpl a b)"
  using zeroPrefixLen_one [of "map2 (XOR) a b"] bit_at_xor [of a b "cpl a b"]
  by (simp add: cpl_def)

lemma cpl_eqI:
  assumes len: "length a = length b" and le: "n \<le> 8 * length a"
    and agree: "\<And>k. k < n \<Longrightarrow> bit_at a k = bit_at b k"
    and differ: "n < 8 * length a \<Longrightarrow> bit_at a n \<noteq> bit_at b n"
  shows "cpl a b = n"
proof (rule antisym)
  show "cpl a b \<le> n"
  proof (rule ccontr)
    assume "\<not> cpl a b \<le> n"
    with len have "bit_at a n = bit_at b n" and "n < 8 * length a"
      using cpl_agree [of a b n] cpl_le [of a b] by simp_all
    with differ show False by simp
  qed
  show "n \<le> cpl a b"
  proof (rule ccontr)
    assume "\<not> n \<le> cpl a b"
    with agree cpl_differ [OF len] le show False by (metis leI order_less_le_trans)
  qed
qed

lemma cpl_sym: "length a = length b \<Longrightarrow> cpl a b = cpl b a"
  by (rule cpl_eqI) (use cpl_agree [of b a] cpl_differ [of b a] cpl_le [of b a] in simp_all)

lemma cpl_self: "cpl a a = 8 * length a"
  by (rule cpl_eqI) simp_all

lemma cpl_ultrametric:
  assumes "length a = length b" and "length b = length c"
  shows "min (cpl a b) (cpl b c) \<le> cpl a c"
proof (rule ccontr)
  assume "\<not> ?thesis"
  then have less: "cpl a c < cpl a b" "cpl a c < cpl b c" by simp_all
  then have "cpl a c < 8 * length a" using cpl_le [of a b] assms by simp
  then have "bit_at a (cpl a c) \<noteq> bit_at c (cpl a c)"
    using cpl_differ [of a c] assms by simp
  with less show False using cpl_agree [of a b] cpl_agree [of b c] assms by simp
qed

text \<open>Two identifiers whose common prefixes with a third differ in length share exactly the
  shorter of the two; two whose common prefixes with it are equally long share more.\<close>

lemma cpl_less_eq:
  assumes len: "length a = length l" "length b = length l" and less: "cpl a l < cpl b l"
  shows "cpl a b = cpl a l"
proof (rule cpl_eqI)
  show "bit_at a k = bit_at b k" if "k < cpl a l" for k
    using that less len cpl_agree [of a l k] cpl_agree [of b l k] by simp
  show "bit_at a (cpl a l) \<noteq> bit_at b (cpl a l)" if "cpl a l < 8 * length a"
    using that less len cpl_differ [of a l] cpl_agree [of b l "cpl a l"] by simp
qed (use len cpl_le [of a l] in simp_all)

lemma cpl_eq_greater:
  assumes len: "length a = length l" "length b = length l"
    and eq: "cpl a l = cpl b l" and small: "cpl a l < 8 * length l"
  shows "cpl a l < cpl a b"
proof (rule ccontr)
  assume "\<not> ?thesis"
  then have less: "cpl a b \<le> cpl a l" by simp
  with len small have differ: "bit_at a (cpl a b) \<noteq> bit_at b (cpl a b)"
    using cpl_differ [of a b] by simp
  show False
  proof (cases "cpl a b < cpl a l")
    case True
    with differ len eq show False
      using cpl_agree [of a l "cpl a b"] cpl_agree [of b l "cpl a b"] by simp
  next
    case False
    with less have "cpl a b = cpl a l" by simp
    with differ len eq small show False
      using cpl_differ [of a l] cpl_differ [of b l] by simp
  qed
qed

text \<open>A longer common prefix with the target is a smaller distance to it.\<close>

lemma cpl_greater_closer:
  assumes "length a = length t" and "length b = length t" and "cpl t b < cpl t a"
  shows "map2 (XOR) t a < map2 (XOR) t b"
  using assms zeroPrefixLen_greater_less [of "map2 (XOR) t a" "map2 (XOR) t b"]
  by (simp add: cpl_def)

lemma map2_xor_self: "map2 (XOR) a a = replicate (length a) (0 :: byte)"
  by (induction a) simp_all

lemma map2_xor_inj:
  "length a = length t \<Longrightarrow> length b = length t \<Longrightarrow>
   map2 (XOR) t a = map2 (XOR) t b \<longleftrightarrow> (a :: bytes) = b"
proof (induction t arbitrary: a b)
  case (Cons x t)
  then obtain a0 as b0 bs where ab: "a = a0 # as" "b = b0 # bs"
    by (metis length_Suc_conv)
  have "x XOR a0 = x XOR b0 \<longleftrightarrow> a0 = b0"
    by (metis xor.assoc xor_self_eq xor.left_neutral)
  with Cons ab show ?case by simp
qed simp

lemma zeros_le: "length a = n \<Longrightarrow> replicate n (0 :: byte) \<le> a"
proof (induction a arbitrary: n)
  case (Cons x a)
  then show ?case by (cases "x = 0") (auto simp: word_gt_0)
qed simp

lemma zeroPrefixLen_full: "zeroPrefixLen bs = 8 * length bs \<Longrightarrow> bs = replicate (length bs) 0"
proof (induction bs)
  case (Cons b bs)
  have "b = 0"
  proof (rule ccontr)
    assume "b \<noteq> 0"
    then show False using Cons.prems LeadingZeros8_less [of b] by simp
  qed
  with Cons show ?case by simp
qed simp

section \<open>Properties\<close>

text \<open>Property C5. \<open>CommonPrefixLen\<close> of two identifiers of equal length is the number of leading
  bits they share: it never panics, all earlier bits agree, and the bit at that position
  differs unless the identifiers are equal.\<close>

theorem CommonPrefixLen_spec:
  assumes "length a = length b"
  shows "\<exists>n. CommonPrefixLen a b = Some n \<and> n \<le> 8 * length a \<and>
    (\<forall>k < n. bit_at a k = bit_at b k) \<and>
    (if n < 8 * length a then bit_at a n \<noteq> bit_at b n else a = b)"
proof -
  have "a = b" if "cpl a b = 8 * length a"
  proof -
    have "zeroPrefixLen (map2 (XOR) a b) = 8 * length (map2 (XOR) a b)" using that assms by (simp add: cpl_def)
    then have "map2 (XOR) a b = replicate (length a) 0" using zeroPrefixLen_full [of "map2 (XOR) a b"] assms by simp
    then show ?thesis using map2_xor_inj [of b a a] assms by (simp add: map2_xor_self)
  qed
  moreover have "cpl a b \<le> 8 * length a" by (rule cpl_le [OF assms])
  ultimately show ?thesis
    using assms CommonPrefixLen_eq [of a b] cpl_agree [OF assms] cpl_differ [OF assms] by auto
qed

theorem CommonPrefixLen_spec_witness:
  "CommonPrefixLen [0xff, 0x80] [0xff, 0x90] = Some 11 \<and> bit_at [0xff, 0x80] 11 \<noteq> bit_at [0xff, 0x90] 11"
proof -
  have "CommonPrefixLen [0xff, 0x80] [0xff, 0x90] = Some 11" by code_simp
  then show ?thesis using CommonPrefixLen_spec [of "[0xff, 0x80]" "[0xff, 0x90]"] by simp
qed

end
