(* ===== verification/KadBucket.thy ===== *)
theory KadBucket
  imports KadUtil
begin

text \<open>
  A bucket of the routing table, \<open>discovery/kademlia/bucket.go\<close>: a \<open>container/list\<close> of
  entries, front first. The list model keeps an element's identity as its position, so
  \<open>list.Remove(e)\<close> and \<open>list.MoveToFront(e)\<close> act on the position the loop stands at. The
  read-write lock makes each operation atomic, so an operation is a function of the whole list.
\<close>

section \<open>Definitions\<close>

record Entry =
  entry_id :: string
  entry_hash :: ID

record Bucket =
  blist :: "Entry list"

definition newBucket :: Bucket where
  "newBucket = \<lparr>blist = []\<rparr>"

definition Bucket_Peers :: "Bucket \<Rightarrow> string list" where
  "Bucket_Peers b = map entry_id (blist b)"

fun Has_loop :: "string \<Rightarrow> Entry list \<Rightarrow> bool" where
  "Has_loop p [] = False"
| "Has_loop p (e # es) = (if entry_id e = p then True else Has_loop p es)"

definition Bucket_Has :: "Bucket \<Rightarrow> string \<Rightarrow> bool" where
  "Bucket_Has b p = Has_loop p (blist b)"

fun Remove_loop :: "string \<Rightarrow> Entry list \<Rightarrow> bool \<times> Entry list" where
  "Remove_loop p [] = (False, [])"
| "Remove_loop p (e # es) =
     (if entry_id e = p then (True, es)
      else (let (found, es') = Remove_loop p es in (found, e # es')))"

definition Bucket_Remove :: "Bucket \<Rightarrow> string \<Rightarrow> bool \<times> Bucket" where
  "Bucket_Remove b p = (let (found, es) = Remove_loop p (blist b) in (found, b\<lparr>blist := es\<rparr>))"

text \<open>
  The loop of \<open>MoveToFront\<close> does not stop at a match: it moves the element at position \<open>i\<close>
  to the front and goes on with that element's successor, which is now at position 1.
\<close>

partial_function (option) MoveToFront_loop :: "string \<Rightarrow> Entry list \<Rightarrow> nat \<Rightarrow> Entry list option" where
  "MoveToFront_loop p es i =
     (if i < length es then
        (if entry_id (es ! i) = p
         then MoveToFront_loop p (es ! i # take i es @ drop (Suc i) es) 1
         else MoveToFront_loop p es (Suc i))
      else Some es)"

definition Bucket_MoveToFront :: "Bucket \<Rightarrow> string \<Rightarrow> Bucket option" where
  "Bucket_MoveToFront b p =
     do { es \<leftarrow> MoveToFront_loop p (blist b) 0; Some (b\<lparr>blist := es\<rparr>) }"

definition Bucket_PushFront :: "Bucket \<Rightarrow> Entry \<Rightarrow> Bucket" where
  "Bucket_PushFront b e = b\<lparr>blist := e # blist b\<rparr>"

text \<open>\<open>PopBack\<close> on an empty bucket passes a nil element to \<open>list.Remove\<close>, which panics.\<close>

definition Bucket_PopBack :: "Bucket \<Rightarrow> (string \<times> Bucket) option" where
  "Bucket_PopBack b =
     (if blist b = [] then None
      else Some (entry_id (last (blist b)), b\<lparr>blist := butlast (blist b)\<rparr>))"

definition Bucket_Len :: "Bucket \<Rightarrow> nat" where
  "Bucket_Len b = length (blist b)"

fun Split_loop :: "nat \<Rightarrow> ID \<Rightarrow> Entry list \<Rightarrow> (Entry list \<times> Entry list) option" where
  "Split_loop c target [] = Some ([], [])"
| "Split_loop c target (e # es) =
     do {
       peerCPL \<leftarrow> CommonPrefixLen (entry_hash e) target;
       (kept, out) \<leftarrow> Split_loop c target es;
       Some (if c < peerCPL then (kept, e # out) else (e # kept, out))
     }"

definition Bucket_Split :: "Bucket \<Rightarrow> nat \<Rightarrow> ID \<Rightarrow> (Bucket \<times> Bucket) option" where
  "Bucket_Split b c target =
     do {
       (kept, out) \<leftarrow> Split_loop c target (blist b);
       Some (b\<lparr>blist := kept\<rparr>, newBucket\<lparr>blist := out\<rparr>)
     }"

section \<open>Lookup, insertion and removal\<close>

lemma newBucket_blist [simp]: "blist newBucket = []"
  by (simp add: newBucket_def)

lemma Has_loop_iff: "Has_loop p es \<longleftrightarrow> p \<in> entry_id ` set es"
  by (induction es) auto

lemma Bucket_Has_iff [simp]: "Bucket_Has b p \<longleftrightarrow> p \<in> set (Bucket_Peers b)"
  by (simp add: Bucket_Has_def Bucket_Peers_def Has_loop_iff)

lemma Bucket_Len_Peers: "Bucket_Len b = length (Bucket_Peers b)"
  by (simp add: Bucket_Len_def Bucket_Peers_def)

lemma Remove_loop_absent:
  "p \<notin> entry_id ` set es \<Longrightarrow> Remove_loop p es = (False, es)"
  by (induction es) auto

lemma Remove_loop_found: "fst (Remove_loop p es) \<longleftrightarrow> p \<in> entry_id ` set es"
  by (induction es) (auto split: prod.splits)

lemma Remove_loop_distinct:
  "distinct (map entry_id es) \<Longrightarrow> snd (Remove_loop p es) = filter (\<lambda>e. entry_id e \<noteq> p) es"
proof (induction es)
  case (Cons e es)
  show ?case
  proof (cases "entry_id e = p")
    case True
    with Cons.prems have "p \<notin> entry_id ` set es" by auto
    then have "filter (\<lambda>e. entry_id e \<noteq> p) es = es" by (auto simp: filter_id_conv)
    with True show ?thesis by simp
  next
    case False
    with Cons show ?thesis by (cases "Remove_loop p es") simp
  qed
qed simp

section \<open>Moving an entry to the front\<close>

text \<open>What the loop is for: the entries of \<open>p\<close> first, the others after them in their order.\<close>

definition moved :: "string \<Rightarrow> Entry list \<Rightarrow> Entry list" where
  "moved p es = filter (\<lambda>e. entry_id e = p) es @ filter (\<lambda>e. entry_id e \<noteq> p) es"

lemma MoveToFront_loop_end [simp]: "length es \<le> i \<Longrightarrow> MoveToFront_loop p es i = Some es"
  by (subst MoveToFront_loop.simps) simp

lemma MoveToFront_loop_skip:
  "i < length es \<Longrightarrow> entry_id (es ! i) \<noteq> p \<Longrightarrow>
   MoveToFront_loop p es i = MoveToFront_loop p es (Suc i)"
  by (subst MoveToFront_loop.simps) simp

lemma MoveToFront_loop_hit:
  "i < length es \<Longrightarrow> entry_id (es ! i) = p \<Longrightarrow>
   MoveToFront_loop p es i = MoveToFront_loop p (es ! i # take i es @ drop (Suc i) es) 1"
  by (subst MoveToFront_loop.simps) simp

lemma MoveToFront_loop_absent:
  "p \<notin> entry_id ` set (drop i es) \<Longrightarrow> MoveToFront_loop p es i = Some es"
proof (induction "length es - i" arbitrary: i)
  case (Suc n)
  then have i: "i < length es" by simp
  then have "drop i es = es ! i # drop (Suc i) es" by (rule Cons_nth_drop_Suc [symmetric])
  with Suc.prems have "entry_id (es ! i) \<noteq> p" and "p \<notin> entry_id ` set (drop (Suc i) es)"
    by auto
  with i Suc.hyps show ?case by (simp add: MoveToFront_loop_skip)
qed simp

lemma MoveToFront_loop_skips:
  assumes "p \<notin> entry_id ` set xs"
  shows "MoveToFront_loop p (xs @ ys) i = MoveToFront_loop p (xs @ ys) (max i (length xs))"
proof (induction "length xs - i" arbitrary: i)
  case (Suc n)
  then have i: "i < length xs" by simp
  with assms have "entry_id ((xs @ ys) ! i) \<noteq> p" by (auto simp: nth_append)
  with i Suc show ?case by (simp add: MoveToFront_loop_skip max_def)
qed (simp add: max_def)

lemma MoveToFront_loop_once:
  assumes "p \<notin> entry_id ` set xs" and "p \<notin> entry_id ` set ys" and "entry_id e = p"
  shows "MoveToFront_loop p (xs @ e # ys) 0 = Some (e # xs @ ys)"
proof -
  have "MoveToFront_loop p (xs @ e # ys) 0 = MoveToFront_loop p (xs @ e # ys) (length xs)"
    using MoveToFront_loop_skips [OF assms(1), of "e # ys" 0] by simp
  also have "\<dots> = MoveToFront_loop p (e # xs @ ys) 1"
    using MoveToFront_loop_hit [of "length xs" "xs @ e # ys" p] assms(3) by simp
  also have "\<dots> = Some (e # xs @ ys)"
    by (rule MoveToFront_loop_absent) (use assms in auto)
  finally show ?thesis .
qed

lemma filter_entry_id_absent:
  "p \<notin> entry_id ` set xs \<Longrightarrow> filter (\<lambda>e. entry_id e = p) xs = []"
  "p \<notin> entry_id ` set xs \<Longrightarrow> filter (\<lambda>e. entry_id e \<noteq> p) xs = xs"
  by (auto simp: filter_id_conv filter_empty_conv)

lemma MoveToFront_loop_unique:
  assumes "length (filter (\<lambda>e. entry_id e = p) es) \<le> 1"
  shows "MoveToFront_loop p es 0 = Some (moved p es)"
proof (cases "p \<in> entry_id ` set es")
  case True
  then obtain e xs ys where es: "es = xs @ e # ys" and e: "entry_id e = p"
    by (auto dest: split_list)
  with assms have "filter (\<lambda>e. entry_id e = p) xs = []" "filter (\<lambda>e. entry_id e = p) ys = []"
    by auto
  then have "p \<notin> entry_id ` set xs" "p \<notin> entry_id ` set ys" by (auto simp: filter_empty_conv)
  with es e show ?thesis
    by (simp add: moved_def filter_entry_id_absent MoveToFront_loop_once)
next
  case False
  then show ?thesis
    by (simp add: moved_def filter_entry_id_absent MoveToFront_loop_absent)
qed

lemma distinct_filter_entry_id:
  "distinct (map entry_id es) \<Longrightarrow> length (filter (\<lambda>e. entry_id e = p) es) \<le> 1"
  by (induction es) (auto simp: filter_entry_id_absent)

lemma MoveToFront_loop_distinct:
  "distinct (map entry_id es) \<Longrightarrow> MoveToFront_loop p es 0 = Some (moved p es)"
  by (rule MoveToFront_loop_unique [OF distinct_filter_entry_id])

text \<open>Two entries of the same peer make the loop run for ever: each is moved in front of
  the other in turn.\<close>

lemma count_two_hit:
  assumes "i < length es" and "entry_id (es ! i) = p"
    and "2 \<le> length (filter (\<lambda>e. entry_id e = p) es)"
  shows "p \<in> entry_id ` set (take i es @ drop (Suc i) es)"
proof -
  have es: "es = take i es @ es ! i # drop (Suc i) es" using assms(1) by (simp add: id_take_nth_drop)
  have "length (filter (\<lambda>e. entry_id e = p) es)
      = Suc (length (filter (\<lambda>e. entry_id e = p) (take i es @ drop (Suc i) es)))"
    by (subst es) (simp add: assms(2))
  with assms(3) have "filter (\<lambda>e. entry_id e = p) (take i es @ drop (Suc i) es) \<noteq> []"
    by fastforce
  then show ?thesis by (auto simp: filter_empty_conv)
qed

lemma MoveToFront_loop_diverges_aux:
  assumes "MoveToFront_loop p es i = Some r"
  shows "2 \<le> length (filter (\<lambda>e. entry_id e = p) es) \<longrightarrow> p \<notin> entry_id ` set (drop i es)"
proof (rule MoveToFront_loop.raw_induct [where P = "\<lambda>p es i r.
    2 \<le> length (filter (\<lambda>e. entry_id e = p) es) \<longrightarrow> p \<notin> entry_id ` set (drop i es)", OF _ assms],
    goal_cases)
  case (1 f p es i r)
  show ?case
  proof (cases "i < length es")
    case True
    then have drop_i: "drop i es = es ! i # drop (Suc i) es" by (rule Cons_nth_drop_Suc [symmetric])
    let ?es = "es ! i # take i es @ drop (Suc i) es"
    show ?thesis
    proof (cases "entry_id (es ! i) = p")
      case hit: True
      have es: "es = take i es @ es ! i # drop (Suc i) es" using True by (simp add: id_take_nth_drop)
      have "length (filter (\<lambda>e. entry_id e = p) es) = length (filter (\<lambda>e. entry_id e = p) ?es)"
        by (subst es) simp
      moreover from 1(2) hit True have "f p ?es 1 = Some r" by simp
      ultimately have "2 \<le> length (filter (\<lambda>e. entry_id e = p) es) \<longrightarrow>
          p \<notin> entry_id ` set (take i es @ drop (Suc i) es)"
        using 1(1) [of p ?es 1 r] by simp
      then show ?thesis using count_two_hit [OF True hit] by blast
    next
      case False
      with 1(2) True have "f p es (Suc i) = Some r" by simp
      then show ?thesis using 1(1) [of p es "Suc i" r] drop_i False by auto
    qed
  qed simp
qed

lemma MoveToFront_loop_returns_iff:
  "(\<exists>r. MoveToFront_loop p es 0 = Some r) \<longleftrightarrow> length (filter (\<lambda>e. entry_id e = p) es) \<le> 1"
proof
  assume "\<exists>r. MoveToFront_loop p es 0 = Some r"
  then have "2 \<le> length (filter (\<lambda>e. entry_id e = p) es) \<longrightarrow> p \<notin> entry_id ` set es"
    using MoveToFront_loop_diverges_aux [of p es 0] by auto
  then show "length (filter (\<lambda>e. entry_id e = p) es) \<le> 1"
    using filter_entry_id_absent(1) [of p es] by (metis list.size(3) not_less_eq_eq
        numeral_2_eq_2 One_nat_def zero_le)
next
  assume "length (filter (\<lambda>e. entry_id e = p) es) \<le> 1"
  then show "\<exists>r. MoveToFront_loop p es 0 = Some r" by (simp add: MoveToFront_loop_unique)
qed

lemma set_moved [simp]: "set (moved p es) = set es"
  by (auto simp: moved_def)

lemma length_moved [simp]: "length (moved p es) = length es"
  by (simp add: moved_def sum_length_filter_compl)

lemma distinct_moved:
  "distinct (map entry_id es) \<Longrightarrow> distinct (map entry_id (moved p es))"
  by (auto simp: moved_def distinct_map_filter_keys)

lemma hd_moved: "p \<in> entry_id ` set es \<Longrightarrow> entry_id (hd (moved p es)) = p"
proof -
  assume "p \<in> entry_id ` set es"
  then have "filter (\<lambda>e. entry_id e = p) es \<noteq> []" by (auto simp: filter_empty_conv)
  then obtain x xs where "filter (\<lambda>e. entry_id e = p) es = x # xs"
    by (auto simp: neq_Nil_conv)
  moreover from this have "entry_id x = p" by (auto simp: filter_eq_Cons_iff)
  ultimately show ?thesis by (simp add: moved_def)
qed

section \<open>Splitting\<close>

lemma Split_loop_eq:
  assumes "\<And>e. e \<in> set es \<Longrightarrow> length (entry_hash e) = length target"
  shows "Split_loop c target es =
    Some (filter (\<lambda>e. \<not> c < cpl (entry_hash e) target) es,
          filter (\<lambda>e. c < cpl (entry_hash e) target) es)"
  using assms by (induction es) (auto simp: CommonPrefixLen_eq)

lemma Bucket_Split_eq:
  assumes "\<And>e. e \<in> set (blist b) \<Longrightarrow> length (entry_hash e) = length target"
  shows "Bucket_Split b c target =
    Some (b\<lparr>blist := filter (\<lambda>e. \<not> c < cpl (entry_hash e) target) (blist b)\<rparr>,
          newBucket\<lparr>blist := filter (\<lambda>e. c < cpl (entry_hash e) target) (blist b)\<rparr>)"
  using Split_loop_eq [OF assms] by (simp add: Bucket_Split_def)

section \<open>Properties\<close>

text \<open>Property C6. The loop of \<open>MoveToFront\<close> goes on past its match, so it returns exactly when the
  bucket has at most one entry of the peer; it then moves that entry to the front and keeps
  the order of the others.\<close>

theorem MoveToFront_returns_iff:
  "(case Bucket_MoveToFront b p of
      None \<Rightarrow> 1 < length (filter (\<lambda>e. entry_id e = p) (blist b))
    | Some b' \<Rightarrow> length (filter (\<lambda>e. entry_id e = p) (blist b)) \<le> 1 \<and>
        blist b' = filter (\<lambda>e. entry_id e = p) (blist b) @ filter (\<lambda>e. entry_id e \<noteq> p) (blist b))"
  using MoveToFront_loop_returns_iff [of p "blist b"] MoveToFront_loop_unique [of p "blist b"]
  by (cases "MoveToFront_loop p (blist b) 0") (auto simp: Bucket_MoveToFront_def moved_def)

end
