(* ===== verification/KadTable.thy ===== *)
theory KadTable
  imports KadBucket
begin

text \<open>
  The Kademlia routing table, \<open>discovery/kademlia/kademlia.go\<close> and \<open>sorting.go\<close>. The record
  \<open>RoutingTable\<close> has the fields of the Go struct; the two notification callbacks are the log
  \<open>notified\<close> of the calls made to them. The hash is a field of the table, a parameter of its
  creation: \<open>hash.Hash\<close> after \<open>Reset\<close>, one \<open>Write\<close> and \<open>Sum(nil)\<close> is a function of the
  bytes written. \<open>NewRoutingTable\<close> calls \<open>hashPeer\<close>, which replaces a nil hash by SHA3-256,
  so the model resolves that choice at creation.
\<close>

section \<open>Definitions\<close>

datatype kad_error = ErrPeerRejectedHighLatency | ErrPeerRejectedNoCapacity

datatype notification = PeerAdded string | PeerRemoved string

record RoutingTable =
  rt_local :: ID
  maxLatency :: duration
  Buckets :: "Bucket list"
  bucketsize :: int
  notified :: "notification list"
  rt_hash :: "bytes \<Rightarrow> bytes"

definition hashPeer :: "RoutingTable \<Rightarrow> string \<Rightarrow> ID" where
  "hashPeer rt p = rt_hash rt (bytes_of_string p)"

definition NewRoutingTable ::
  "(bytes \<Rightarrow> bytes) \<Rightarrow> int \<Rightarrow> string \<Rightarrow> duration \<Rightarrow> (bytes \<Rightarrow> bytes) option \<Rightarrow> RoutingTable" where
  "NewRoutingTable sha3 bsize peer latency hash =
     (let rt = \<lparr>rt_local = [], maxLatency = latency, Buckets = [newBucket], bucketsize = bsize,
                notified = [], rt_hash = (case hash of None \<Rightarrow> sha3 | Some h \<Rightarrow> h)\<rparr>
      in rt\<lparr>rt_local := hashPeer rt peer\<rparr>)"

text \<open>\<open>bucketID := cpl; if bucketID >= len(rt.Buckets) { bucketID = len(rt.Buckets) - 1 }\<close>\<close>

definition bucketID :: "RoutingTable \<Rightarrow> nat \<Rightarrow> nat" where
  "bucketID rt c = (if length (Buckets rt) \<le> c then length (Buckets rt) - 1 else c)"

definition setBucket :: "RoutingTable \<Rightarrow> nat \<Rightarrow> Bucket \<Rightarrow> RoutingTable" where
  "setBucket rt i b = rt\<lparr>Buckets := (Buckets rt)[i := b]\<rparr>"

definition notify :: "RoutingTable \<Rightarrow> notification \<Rightarrow> RoutingTable" where
  "notify rt n = rt\<lparr>notified := notified rt @ [n]\<rparr>"

text \<open>With no positive bucket size the recursion of \<open>nextBucket\<close> does not end.\<close>

partial_function (option) nextBucket :: "RoutingTable \<Rightarrow> RoutingTable option" where
  "nextBucket rt =
     Option.bind (index (Buckets rt) (length (Buckets rt) - 1)) (\<lambda>bucket.
     Option.bind (Bucket_Split bucket (length (Buckets rt) - 1) (rt_local rt)) (\<lambda>split.
     let rt' = rt\<lparr>Buckets := (Buckets rt)[length (Buckets rt) - 1 := fst split] @ [snd split]\<rparr>
     in if bucketsize rt \<le> int (Bucket_Len (snd split)) then nextBucket rt' else Some rt'))"

definition Update :: "RoutingTable \<Rightarrow> string \<Rightarrow> (RoutingTable \<times> (kad_error + string)) option" where
  "Update rt p = do {
     let peerID = hashPeer rt p;
     c \<leftarrow> CommonPrefixLen peerID (rt_local rt);
     let i = bucketID rt c;
     bucket \<leftarrow> index (Buckets rt) i;
     if Bucket_Has bucket p then do {
       bucket \<leftarrow> Bucket_MoveToFront bucket p;
       Some (setBucket rt i bucket, Inr '''')
     }
     else if int (Bucket_Len bucket) < bucketsize rt then
       Some (notify (setBucket rt i (Bucket_PushFront bucket \<lparr>entry_id = p, entry_hash = peerID\<rparr>))
               (PeerAdded p), Inr '''')
     else if i = length (Buckets rt) - 1 then do {
       rt \<leftarrow> nextBucket rt;
       let i = bucketID rt c;
       bucket \<leftarrow> index (Buckets rt) i;
       if bucketsize rt \<le> int (Bucket_Len bucket) then Some (rt, Inl ErrPeerRejectedNoCapacity)
       else
         Some (notify (setBucket rt i (Bucket_PushFront bucket \<lparr>entry_id = p, entry_hash = peerID\<rparr>))
                 (PeerAdded p), Inr '''')
     }
     else Some (rt, Inl ErrPeerRejectedNoCapacity)
   }"

definition Remove :: "RoutingTable \<Rightarrow> string \<Rightarrow> RoutingTable option" where
  "Remove rt p = do {
     let peerID = hashPeer rt p;
     c \<leftarrow> CommonPrefixLen peerID (rt_local rt);
     let i = bucketID rt c;
     bucket \<leftarrow> index (Buckets rt) i;
     let (found, bucket) = Bucket_Remove bucket p;
     let rt = setBucket rt i bucket;
     Some (if found then notify rt (PeerRemoved p) else rt)
   }"

record peerDistance =
  pd_p :: string
  pd_distance :: ID

record peerDistanceSorter =
  pds_peers :: "peerDistance list"
  pds_target :: ID

definition appendPeer :: "peerDistanceSorter \<Rightarrow> Entry \<Rightarrow> peerDistanceSorter option" where
  "appendPeer pds e = do {
     d \<leftarrow> xor_bytes (pds_target pds) (entry_hash e);
     Some (pds\<lparr>pds_peers := pds_peers pds @ [\<lparr>pd_p = entry_id e, pd_distance = d\<rparr>]\<rparr>)
   }"

fun appendPeersFromList :: "peerDistanceSorter \<Rightarrow> Entry list \<Rightarrow> peerDistanceSorter option" where
  "appendPeersFromList pds [] = Some pds"
| "appendPeersFromList pds (e # es) = do { pds \<leftarrow> appendPeer pds e; appendPeersFromList pds es }"

text \<open>\<open>sort.Sort\<close> with \<open>Less\<close> comparing distances. The library sort is not stable, which shows
  only between peers at equal distances, that is, with equal hashes.\<close>

definition pds_sort :: "peerDistanceSorter \<Rightarrow> peerDistanceSorter" where
  "pds_sort pds = pds\<lparr>pds_peers := sort_key pd_distance (pds_peers pds)\<rparr>"

text \<open>The peers of bucket \<open>c\<close> and, when they are fewer than \<open>count\<close>, of its two neighbours.\<close>

definition NearestPeers_collect ::
  "RoutingTable \<Rightarrow> ID \<Rightarrow> nat \<Rightarrow> int \<Rightarrow> peerDistanceSorter option" where
  "NearestPeers_collect rt target c count = do {
     bucket \<leftarrow> index (Buckets rt) c;
     pds \<leftarrow> appendPeersFromList \<lparr>pds_peers = [], pds_target = target\<rparr> (blist bucket);
     (if int (length (pds_peers pds)) < count then do {
        pds \<leftarrow> (if 0 < c then do {
                  b \<leftarrow> index (Buckets rt) (c - 1);
                  appendPeersFromList pds (blist b)
                } else Some pds);
        (if c < length (Buckets rt) - 1 then do {
           b \<leftarrow> index (Buckets rt) (c + 1);
           appendPeersFromList pds (blist b)
         } else Some pds)
      } else Some pds)
   }"

text \<open>\<open>make([]peerDistance, 0, 3*rt.bucketsize)\<close> panics on a negative capacity, and the slice
  expression \<open>pds.peers[:count]\<close> on a negative count.\<close>

definition NearestPeers :: "RoutingTable \<Rightarrow> string \<Rightarrow> int \<Rightarrow> string list option" where
  "NearestPeers rt peer count = do {
     let id = hashPeer rt peer;
     c \<leftarrow> CommonPrefixLen id (rt_local rt);
     let c = bucketID rt c;
     _ \<leftarrow> index (Buckets rt) c;
     _ \<leftarrow> (if 3 * bucketsize rt < 0 then None else Some ());
     pds \<leftarrow> NearestPeers_collect rt id c count;
     let pds = pds_sort pds;
     peers \<leftarrow>
       (if count < int (length (pds_peers pds)) then
          (if count < 0 then None else Some (take (nat count) (pds_peers pds)))
        else Some (pds_peers pds));
     Some (map pd_p peers)
   }"

definition Find :: "RoutingTable \<Rightarrow> string \<Rightarrow> string option" where
  "Find rt p = do {
     srch \<leftarrow> NearestPeers rt p 1;
     Some (case srch of [] \<Rightarrow> '''' | x # _ \<Rightarrow> if x \<noteq> p then '''' else x)
   }"

definition NearestPeer :: "RoutingTable \<Rightarrow> string \<Rightarrow> string option" where
  "NearestPeer rt p = do {
     peers \<leftarrow> NearestPeers rt p 1;
     Some (case peers of [] \<Rightarrow> '''' | x # _ \<Rightarrow> x)
   }"

definition Size :: "RoutingTable \<Rightarrow> nat" where
  "Size rt = foldl (\<lambda>tot b. tot + Bucket_Len b) 0 (Buckets rt)"

definition ListPeers :: "RoutingTable \<Rightarrow> string list" where
  "ListPeers rt = foldl (\<lambda>peers b. peers @ Bucket_Peers b) [] (Buckets rt)"

section \<open>The invariant\<close>

text \<open>
  Every entry carries the hash of its own identifier and lies in the bucket its hash points
  to; a bucket holds no peer twice and at most \<open>bucketsize\<close> entries. \<open>hash_len\<close> is what the
  table relies on of its hash: digests of one length.
\<close>

definition hash_len :: "RoutingTable \<Rightarrow> bool" where
  "hash_len rt \<longleftrightarrow> (\<forall>x. length (rt_hash rt x) = length (rt_local rt))"

definition home :: "RoutingTable \<Rightarrow> string \<Rightarrow> nat" where
  "home rt p = bucketID rt (cpl (hashPeer rt p) (rt_local rt))"

definition bucket_ok :: "RoutingTable \<Rightarrow> nat \<Rightarrow> Bucket \<Rightarrow> bool" where
  "bucket_ok rt i b \<longleftrightarrow> distinct (Bucket_Peers b) \<and> int (Bucket_Len b) \<le> bucketsize rt \<and>
     (\<forall>e \<in> set (blist b). entry_hash e = hashPeer rt (entry_id e) \<and> home rt (entry_id e) = i)"

definition table_ok :: "RoutingTable \<Rightarrow> bool" where
  "table_ok rt \<longleftrightarrow> hash_len rt \<and> 0 < bucketsize rt \<and> Buckets rt \<noteq> [] \<and>
     (\<forall>i < length (Buckets rt). bucket_ok rt i (Buckets rt ! i))"

definition peers_of :: "RoutingTable \<Rightarrow> string set" where
  "peers_of rt = set (ListPeers rt)"

text \<open>The bucket a peer belongs to.\<close>

definition home_bucket :: "RoutingTable \<Rightarrow> string \<Rightarrow> Bucket" where
  "home_bucket rt p = Buckets rt ! home rt p"

lemma ListPeers_concat: "ListPeers rt = concat (map Bucket_Peers (Buckets rt))"
proof -
  have "foldl (\<lambda>peers b. peers @ Bucket_Peers b) acc bs = acc @ concat (map Bucket_Peers bs)"
    for acc bs by (induction bs arbitrary: acc) simp_all
  then show ?thesis by (simp add: ListPeers_def)
qed

lemma Size_ListPeers: "Size rt = length (ListPeers rt)"
proof -
  have "foldl (\<lambda>tot b. tot + Bucket_Len b) n bs = n + length (concat (map Bucket_Peers bs))"
    for n bs by (induction bs arbitrary: n) (simp_all add: Bucket_Len_Peers)
  then show ?thesis by (simp add: Size_def ListPeers_concat)
qed

lemma length_hashPeer: "hash_len rt \<Longrightarrow> length (hashPeer rt p) = length (rt_local rt)"
  by (simp add: hash_len_def hashPeer_def)

lemma CommonPrefixLen_hashPeer:
  "hash_len rt \<Longrightarrow>
   CommonPrefixLen (hashPeer rt p) (rt_local rt) = Some (cpl (hashPeer rt p) (rt_local rt))"
  by (simp add: CommonPrefixLen_eq length_hashPeer)

lemma bucketID_less: "Buckets rt \<noteq> [] \<Longrightarrow> bucketID rt c < length (Buckets rt)"
  by (auto simp: bucketID_def)

lemma home_less: "Buckets rt \<noteq> [] \<Longrightarrow> home rt p < length (Buckets rt)"
  by (simp add: home_def bucketID_less)

lemma table_okD:
  assumes "table_ok rt"
  shows "hash_len rt" "0 < bucketsize rt" "Buckets rt \<noteq> []"
    and "i < length (Buckets rt) \<Longrightarrow> bucket_ok rt i (Buckets rt ! i)"
    and "home rt p < length (Buckets rt)"
    and "bucket_ok rt (home rt p) (home_bucket rt p)"
  using assms by (auto simp: table_ok_def home_less home_bucket_def)

lemma bucket_ok_entry:
  assumes "bucket_ok rt i b" and "e \<in> set (blist b)"
  shows "entry_hash e = hashPeer rt (entry_id e)" "home rt (entry_id e) = i"
  using assms by (auto simp: bucket_ok_def)

lemma set_Bucket_Peers: "set (Bucket_Peers b) = entry_id ` set (blist b)"
  by (simp add: Bucket_Peers_def)

lemma bucket_ok_member: "bucket_ok rt i b \<Longrightarrow> p \<in> set (Bucket_Peers b) \<Longrightarrow> home rt p = i"
  by (auto simp: set_Bucket_Peers bucket_ok_def)

text \<open>A peer is in the table exactly when it is in its own bucket.\<close>

lemma peers_of_iff:
  assumes "table_ok rt"
  shows "p \<in> peers_of rt \<longleftrightarrow> p \<in> set (Bucket_Peers (home_bucket rt p))"
proof
  assume "p \<in> peers_of rt"
  then obtain b where "b \<in> set (Buckets rt)" "p \<in> set (Bucket_Peers b)"
    by (auto simp: peers_of_def ListPeers_concat)
  then obtain i where "i < length (Buckets rt)" and p: "p \<in> set (Bucket_Peers (Buckets rt ! i))"
    by (auto simp: in_set_conv_nth [of b])
  moreover from this have "home rt p = i"
    using bucket_ok_member table_okD(4) [OF assms] by blast
  ultimately show "p \<in> set (Bucket_Peers (home_bucket rt p))" by (simp add: home_bucket_def)
next
  assume "p \<in> set (Bucket_Peers (home_bucket rt p))"
  then show "p \<in> peers_of rt"
    using table_okD(5) [OF assms, of p]
    by (auto simp: peers_of_def ListPeers_concat home_bucket_def)
qed

lemma distinct_ListPeers:
  assumes "table_ok rt"
  shows "distinct (ListPeers rt)"
proof -
  have "distinct (concat (map Bucket_Peers bs))"
    if "\<And>i. i < length bs \<Longrightarrow> bucket_ok rt (k + i) (bs ! i)" for bs k
    using that
  proof (induction bs arbitrary: k)
    case (Cons b bs)
    have b: "bucket_ok rt k b" using Cons.prems [of 0] by simp
    have bs: "bucket_ok rt (Suc k + i) (bs ! i)" if "i < length bs" for i
      using Cons.prems [of "Suc i"] that by simp
    have "set (Bucket_Peers b) \<inter> set (Bucket_Peers b') = {}" if "b' \<in> set bs" for b'
    proof -
      from that obtain i where "i < length bs" "b' = bs ! i" by (auto simp: in_set_conv_nth)
      then have "home rt q = Suc k + i" if "q \<in> set (Bucket_Peers b')" for q
        using bs [of i] bucket_ok_member that by blast
      moreover have "home rt q = k" if "q \<in> set (Bucket_Peers b)" for q
        using b bucket_ok_member that by blast
      ultimately show ?thesis by fastforce
    qed
    then show ?case using Cons.IH [OF bs] b by (auto simp: bucket_ok_def)
  qed simp
  from this [of "Buckets rt" 0] show ?thesis
    using assms by (simp add: ListPeers_concat table_ok_def)
qed

section \<open>Writing one bucket\<close>

lemma setBucket_fields [simp]:
  "rt_local (setBucket rt i b) = rt_local rt" "maxLatency (setBucket rt i b) = maxLatency rt"
  "bucketsize (setBucket rt i b) = bucketsize rt" "notified (setBucket rt i b) = notified rt"
  "rt_hash (setBucket rt i b) = rt_hash rt" "Buckets (setBucket rt i b) = (Buckets rt)[i := b]"
  by (simp_all add: setBucket_def)

lemma notify_fields [simp]:
  "rt_local (notify rt n) = rt_local rt" "maxLatency (notify rt n) = maxLatency rt"
  "bucketsize (notify rt n) = bucketsize rt" "Buckets (notify rt n) = Buckets rt"
  "rt_hash (notify rt n) = rt_hash rt" "notified (notify rt n) = notified rt @ [n]"
  by (simp_all add: notify_def)

lemma hashPeer_frame [simp]:
  "hashPeer (setBucket rt i b) = hashPeer rt" "hashPeer (notify rt n) = hashPeer rt"
  by (simp_all add: hashPeer_def fun_eq_iff)

lemma home_frame [simp]:
  "home (setBucket rt i b) = home rt" "home (notify rt n) = home rt"
  by (simp_all add: home_def bucketID_def fun_eq_iff)

lemma bucket_ok_frame [simp]:
  "bucket_ok (setBucket rt i b) = bucket_ok rt" "bucket_ok (notify rt n) = bucket_ok rt"
  by (simp_all add: bucket_ok_def fun_eq_iff)

lemma table_ok_notify [simp]: "table_ok (notify rt n) = table_ok rt"
  by (simp add: table_ok_def hash_len_def)

lemma peers_of_notify [simp]: "peers_of (notify rt n) = peers_of rt"
  by (simp add: peers_of_def ListPeers_concat)

lemma table_ok_setBucket:
  assumes "table_ok rt" and "bucket_ok rt i b"
  shows "table_ok (setBucket rt i b)"
proof -
  have "bucket_ok rt j ((Buckets rt)[i := b] ! j)" if "j < length (Buckets rt)" for j
    using assms that by (cases "j = i") (simp_all add: table_ok_def)
  with assms show ?thesis by (simp add: table_ok_def hash_len_def)
qed

lemma peers_of_setBucket:
  assumes "table_ok rt" and "bucket_ok rt i b" and "i < length (Buckets rt)"
  shows "p \<in> peers_of (setBucket rt i b) \<longleftrightarrow>
    (if home rt p = i then p \<in> set (Bucket_Peers b) else p \<in> peers_of rt)"
  using peers_of_iff [OF table_ok_setBucket [OF assms(1,2)], of p] peers_of_iff [OF assms(1), of p]
    assms(3) table_okD(5) [OF assms(1), of p]
  by (simp add: home_bucket_def)

section \<open>Unfolding the last bucket\<close>

definition unfolded :: "RoutingTable \<Rightarrow> RoutingTable" where
  "unfolded rt =
     (let n = length (Buckets rt) - 1; es = blist (Buckets rt ! n);
          near = (\<lambda>e. n < cpl (entry_hash e) (rt_local rt))
      in rt\<lparr>Buckets := (Buckets rt)[n := \<lparr>blist = filter (\<lambda>e. \<not> near e) es\<rparr>]
                       @ [\<lparr>blist = filter near es\<rparr>]\<rparr>)"

lemma unfolded_fields [simp]:
  "rt_local (unfolded rt) = rt_local rt" "maxLatency (unfolded rt) = maxLatency rt"
  "bucketsize (unfolded rt) = bucketsize rt" "notified (unfolded rt) = notified rt"
  "rt_hash (unfolded rt) = rt_hash rt" "length (Buckets (unfolded rt)) = Suc (length (Buckets rt))"
  "hashPeer (unfolded rt) = hashPeer rt"
  by (simp_all add: unfolded_def Let_def hashPeer_def fun_eq_iff)

lemma nextBucket_unfolded:
  assumes "table_ok rt"
  shows "nextBucket rt =
    (if bucketsize rt \<le> int (Bucket_Len (last (Buckets (unfolded rt))))
     then nextBucket (unfolded rt) else Some (unfolded rt))"
proof -
  let ?n = "length (Buckets rt) - 1"
  have n: "?n < length (Buckets rt)" using assms by (simp add: table_ok_def)
  then have b: "bucket_ok rt ?n (Buckets rt ! ?n)" by (rule table_okD(4) [OF assms])
  have "length (entry_hash e) = length (rt_local rt)" if "e \<in> set (blist (Buckets rt ! ?n))" for e
    using bucket_ok_entry(1) [OF b that] table_okD(1) [OF assms] by (simp add: length_hashPeer)
  note split = Bucket_Split_eq [of "Buckets rt ! ?n" "rt_local rt" ?n, OF this]
  have blist: "blist_update (\<lambda>_. es) b = \<lparr>blist = es\<rparr>" for es and b :: Bucket
    by (cases b) simp
  show ?thesis
    by (subst nextBucket.simps)
      (use n in \<open>simp add: split unfolded_def Let_def blist Bucket_Len_def del: One_nat_def\<close>)
qed

lemma home_unfolded:
  "home (unfolded rt) p =
   (if home rt p = length (Buckets rt) - 1 \<and> length (Buckets rt) - 1 < cpl (hashPeer rt p) (rt_local rt)
    then length (Buckets rt) else home rt p)"
  by (auto simp: home_def bucketID_def)

lemma bucket_ok_unfolded:
  assumes ok: "table_ok rt" and i: "i < Suc (length (Buckets rt))"
  shows "bucket_ok (unfolded rt) i (Buckets (unfolded rt) ! i)"
proof -
  let ?n = "length (Buckets rt) - 1" and ?len = "length (Buckets rt)"
  have n: "?n < ?len" using ok by (simp add: table_ok_def)
  have last: "bucket_ok rt ?n (Buckets rt ! ?n)" using n by (rule table_okD(4) [OF ok])
  have part: "bucket_ok (unfolded rt) j \<lparr>blist = filter P (blist (Buckets rt ! ?n))\<rparr>"
    if "\<And>e. e \<in> set (blist (Buckets rt ! ?n)) \<Longrightarrow> P e \<Longrightarrow> home (unfolded rt) (entry_id e) = j" for P j
  proof -
    have "int (length (filter P (blist (Buckets rt ! ?n)))) \<le> bucketsize rt"
      using last by (intro int_length_filter_le) (simp add: bucket_ok_def Bucket_Len_def)
    then show ?thesis
      using last that by (auto simp: bucket_ok_def Bucket_Peers_def Bucket_Len_def
          distinct_map_filter_keys)
  qed
  consider "i < ?n" | "i = ?n" | "i = ?len" using i by linarith
  then show ?thesis
  proof cases
    case 1
    then have "Buckets (unfolded rt) ! i = Buckets rt ! i" and "bucket_ok rt i (Buckets rt ! i)"
      using table_okD(4) [OF ok, of i] by (simp_all add: unfolded_def Let_def nth_append)
    with 1 show ?thesis by (auto simp: bucket_ok_def home_unfolded)
  next
    case 2
    have "Buckets (unfolded rt) ! ?n =
        \<lparr>blist = filter (\<lambda>e. \<not> ?n < cpl (entry_hash e) (rt_local rt)) (blist (Buckets rt ! ?n))\<rparr>"
      using n by (simp add: unfolded_def Let_def nth_append)
    moreover have "bucket_ok (unfolded rt) ?n \<dots>"
      by (rule part) (use bucket_ok_entry [OF last] in \<open>simp add: home_unfolded\<close>)
    ultimately show ?thesis using 2 by simp
  next
    case 3
    have "Buckets (unfolded rt) ! ?len =
        \<lparr>blist = filter (\<lambda>e. ?n < cpl (entry_hash e) (rt_local rt)) (blist (Buckets rt ! ?n))\<rparr>"
      by (simp add: unfolded_def Let_def nth_append)
    moreover have "bucket_ok (unfolded rt) ?len \<dots>"
      by (rule part) (use bucket_ok_entry [OF last] in \<open>simp add: home_unfolded\<close>)
    ultimately show ?thesis using 3 by simp
  qed
qed

lemma table_ok_unfolded:
  assumes "table_ok rt"
  shows "table_ok (unfolded rt)"
proof -
  have "Buckets (unfolded rt) \<noteq> []" by (simp add: unfolded_def Let_def)
  then show ?thesis
    using assms bucket_ok_unfolded [OF assms] by (simp add: table_ok_def hash_len_def)
qed

lemma peers_of_unfolded:
  assumes "table_ok rt"
  shows "peers_of (unfolded rt) = peers_of rt"
proof -
  let ?n = "length (Buckets rt) - 1"
  have ne: "Buckets rt \<noteq> []" by (rule table_okD(3) [OF assms])
  then have "set (ListPeers rt) = \<Union> (set ` Bucket_Peers ` set (butlast (Buckets rt) @ [last (Buckets rt)]))"
    by (simp add: ListPeers_concat)
  moreover have "set (ListPeers (unfolded rt)) =
      \<Union> (set ` Bucket_Peers ` set (butlast (Buckets rt))) \<union> set (Bucket_Peers (last (Buckets rt)))"
    using ne by (auto simp: ListPeers_concat unfolded_def Let_def nth_update_last Bucket_Peers_def
        last_conv_nth simp del: One_nat_def)
  ultimately show ?thesis by (auto simp: peers_of_def)
qed

lemma last_unfolded_full:
  assumes "table_ok rt" and "bucketsize rt \<le> int (Bucket_Len (last (Buckets (unfolded rt))))"
  shows "length (Buckets rt) \<le> 8 * length (rt_local rt)"
proof -
  let ?n = "length (Buckets rt) - 1"
  have n: "?n < length (Buckets rt)" using assms(1) by (simp add: table_ok_def)
  have "0 < Bucket_Len (last (Buckets (unfolded rt)))"
    using assms(2) table_okD(2) [OF assms(1)] by linarith
  then have "filter (\<lambda>e. ?n < cpl (entry_hash e) (rt_local rt)) (blist (Buckets rt ! ?n)) \<noteq> []"
    by (auto simp: unfolded_def Let_def Bucket_Len_def)
  then obtain e where e: "e \<in> set (blist (Buckets rt ! ?n))" "?n < cpl (entry_hash e) (rt_local rt)"
    by (auto simp: filter_empty_conv)
  then have "length (entry_hash e) = length (rt_local rt)"
    using bucket_ok_entry(1) [OF table_okD(4) [OF assms(1) n]] table_okD(1) [OF assms(1)]
    by (simp add: length_hashPeer)
  then show ?thesis using cpl_le [of "entry_hash e" "rt_local rt"] e(2) by linarith
qed

text \<open>The recursion of \<open>nextBucket\<close> ends, keeps the peers and leaves room in the last bucket.\<close>

lemma nextBucket_total:
  assumes "table_ok rt"
  obtains rt' where "nextBucket rt = Some rt'" "table_ok rt'" "peers_of rt' = peers_of rt"
    "rt' = rt\<lparr>Buckets := Buckets rt'\<rparr>" "length (Buckets rt) < length (Buckets rt')"
    "length (Buckets rt') \<le> max (Suc (length (Buckets rt))) (8 * length (rt_local rt) + 2)"
    "int (Bucket_Len (last (Buckets rt'))) < bucketsize rt"
proof -
  have "\<exists>rt'. nextBucket rt = Some rt' \<and> table_ok rt' \<and> peers_of rt' = peers_of rt \<and>
    rt' = rt\<lparr>Buckets := Buckets rt'\<rparr> \<and> length (Buckets rt) < length (Buckets rt') \<and>
    length (Buckets rt') \<le> max (Suc (length (Buckets rt))) (8 * length (rt_local rt) + 2) \<and>
    int (Bucket_Len (last (Buckets rt'))) < bucketsize rt"
    using assms
  proof (induction "8 * length (rt_local rt) + 1 - length (Buckets rt)" arbitrary: rt rule: less_induct)
    case less
    note step = nextBucket_unfolded [OF less.prems] and ok = table_ok_unfolded [OF less.prems]
      and same = peers_of_unfolded [OF less.prems]
    have frame: "(unfolded rt)\<lparr>Buckets := bs\<rparr> = rt\<lparr>Buckets := bs\<rparr>" for bs
      by (simp add: unfolded_def Let_def)
    show ?case
    proof (cases "bucketsize rt \<le> int (Bucket_Len (last (Buckets (unfolded rt))))")
      case True
      have small: "length (Buckets rt) \<le> 8 * length (rt_local rt)"
        by (rule last_unfolded_full [OF less.prems True])
      then obtain rt' where "nextBucket (unfolded rt) = Some rt'" "table_ok rt'"
        "peers_of rt' = peers_of (unfolded rt)" "rt' = (unfolded rt)\<lparr>Buckets := Buckets rt'\<rparr>"
        "length (Buckets (unfolded rt)) < length (Buckets rt')"
        "length (Buckets rt') \<le> max (Suc (length (Buckets (unfolded rt)))) (8 * length (rt_local rt) + 2)"
        "int (Bucket_Len (last (Buckets rt'))) < bucketsize (unfolded rt)"
        using less.hyps [OF _ ok] by fastforce
      moreover from this(4) have "rt' = rt\<lparr>Buckets := Buckets rt'\<rparr>"
        by (metis frame)
      ultimately show ?thesis using True step same small
        by (intro exI [of _ rt']) (auto simp: max_def)
    next
      case False
      moreover have "unfolded rt = rt\<lparr>Buckets := Buckets (unfolded rt)\<rparr>"
        using frame [of "Buckets (unfolded rt)"] by simp
      ultimately show ?thesis using step ok same by (intro exI [of _ "unfolded rt"]) simp
    qed
  qed
  with that show ?thesis by blast
qed

section \<open>Update and Remove\<close>

text \<open>Two tables that differ in their buckets only.\<close>

definition same_config :: "RoutingTable \<Rightarrow> RoutingTable \<Rightarrow> bool" where
  "same_config rt rt' \<longleftrightarrow> rt' = rt\<lparr>Buckets := Buckets rt'\<rparr>"

lemma same_configD:
  assumes "same_config rt rt'"
  shows "rt_local rt' = rt_local rt" "maxLatency rt' = maxLatency rt"
    "bucketsize rt' = bucketsize rt" "notified rt' = notified rt" "rt_hash rt' = rt_hash rt"
    "hashPeer rt' = hashPeer rt"
  using arg_cong [OF assms [unfolded same_config_def], of rt_local]
    arg_cong [OF assms [unfolded same_config_def], of maxLatency]
    arg_cong [OF assms [unfolded same_config_def], of bucketsize]
    arg_cong [OF assms [unfolded same_config_def], of notified]
    arg_cong [OF assms [unfolded same_config_def], of rt_hash]
  by (simp_all add: hashPeer_def fun_eq_iff)

lemma same_config_refl [simp]: "same_config rt rt"
  by (simp add: same_config_def)

definition entry_of :: "RoutingTable \<Rightarrow> string \<Rightarrow> Entry" where
  "entry_of rt p = \<lparr>entry_id = p, entry_hash = hashPeer rt p\<rparr>"

definition pushed :: "RoutingTable \<Rightarrow> string \<Rightarrow> RoutingTable" where
  "pushed rt p = notify (setBucket rt (home rt p) (Bucket_PushFront (home_bucket rt p) (entry_of rt p)))
     (PeerAdded p)"

definition refreshed :: "RoutingTable \<Rightarrow> string \<Rightarrow> RoutingTable" where
  "refreshed rt p =
     setBucket rt (home rt p) ((home_bucket rt p)\<lparr>blist := moved p (blist (home_bucket rt p))\<rparr>)"

lemma index_home: "table_ok rt \<Longrightarrow> index (Buckets rt) (home rt p) = Some (home_bucket rt p)"
  by (simp add: table_okD(5) home_bucket_def)

lemma bucket_ok_push:
  assumes "bucket_ok rt (home rt p) b" and "p \<notin> set (Bucket_Peers b)"
    and "int (Bucket_Len b) < bucketsize rt"
  shows "bucket_ok rt (home rt p) (Bucket_PushFront b (entry_of rt p))"
  using assms by (auto simp: bucket_ok_def Bucket_PushFront_def Bucket_Peers_def Bucket_Len_def entry_of_def)

lemma pushed_ok:
  assumes "table_ok rt" and "p \<notin> peers_of rt" and "int (Bucket_Len (home_bucket rt p)) < bucketsize rt"
  shows "table_ok (pushed rt p)" "peers_of (pushed rt p) = insert p (peers_of rt)"
proof -
  have "p \<notin> set (Bucket_Peers (home_bucket rt p))" using assms(1,2) peers_of_iff by blast
  note b = bucket_ok_push [OF table_okD(6) [OF assms(1)] this assms(3)]
  show "table_ok (pushed rt p)" using table_ok_setBucket [OF assms(1) b] by (simp add: pushed_def)
  have "q \<in> peers_of (pushed rt p) \<longleftrightarrow> q = p \<or> q \<in> peers_of rt" for q
    using peers_of_setBucket [OF assms(1) b table_okD(5) [OF assms(1)], of q]
      peers_of_iff [OF assms(1), of q]
    by (auto simp: pushed_def Bucket_PushFront_def Bucket_Peers_def entry_of_def home_bucket_def)
  then show "peers_of (pushed rt p) = insert p (peers_of rt)" by auto
qed

lemma refreshed_ok:
  assumes "table_ok rt"
  shows "table_ok (refreshed rt p)" "peers_of (refreshed rt p) = peers_of rt"
proof -
  let ?b = "(home_bucket rt p)\<lparr>blist := moved p (blist (home_bucket rt p))\<rparr>"
  have b: "bucket_ok rt (home rt p) ?b"
    using table_okD(6) [OF assms, of p]
    by (auto simp: bucket_ok_def Bucket_Peers_def Bucket_Len_def distinct_moved)
  show "table_ok (refreshed rt p)" using table_ok_setBucket [OF assms b] by (simp add: refreshed_def)
  have "q \<in> peers_of (refreshed rt p) \<longleftrightarrow> q \<in> peers_of rt" for q
    using peers_of_setBucket [OF assms b table_okD(5) [OF assms], of q] peers_of_iff [OF assms, of q]
    by (auto simp: refreshed_def Bucket_Peers_def home_bucket_def)
  then show "peers_of (refreshed rt p) = peers_of rt" by auto
qed

lemma last_home_length:
  assumes "table_ok rt" and "home rt p = length (Buckets rt) - 1"
  shows "length (Buckets rt) \<le> 8 * length (rt_local rt) + 1"
proof -
  have "cpl (hashPeer rt p) (rt_local rt) \<le> 8 * length (rt_local rt)"
    using cpl_le [of "hashPeer rt p" "rt_local rt"] length_hashPeer [OF table_okD(1) [OF assms(1)]]
    by simp
  then show ?thesis using assms(2) by (auto simp: home_def bucketID_def split: if_splits)
qed

text \<open>The three ways an update can end; \<open>rt'\<close> is the table after any unfolding.\<close>

lemma Update_cases:
  assumes ok: "table_ok rt"
  obtains
    (present) "p \<in> peers_of rt" "Update rt p = Some (refreshed rt p, Inr '''')"
  | (added) rt' where "p \<notin> peers_of rt" "table_ok rt'" "peers_of rt' = peers_of rt"
      "same_config rt rt'" "length (Buckets rt') \<le> max (length (Buckets rt)) (8 * length (rt_local rt) + 2)"
      "int (Bucket_Len (home_bucket rt' p)) < bucketsize rt"
      "Update rt p = Some (pushed rt' p, Inr '''')"
  | (rejected) rt' where "p \<notin> peers_of rt" "table_ok rt'" "peers_of rt' = peers_of rt"
      "same_config rt rt'" "length (Buckets rt') \<le> max (length (Buckets rt)) (8 * length (rt_local rt) + 2)"
      "int (Bucket_Len (home_bucket rt' p)) = bucketsize rt"
      "Update rt p = Some (rt', Inl ErrPeerRejectedNoCapacity)"
proof -
  let ?b = "home_bucket rt p" and ?c = "cpl (hashPeer rt p) (rt_local rt)"
  note c = CommonPrefixLen_hashPeer [OF table_okD(1) [OF ok], of p]
  have home: "bucketID rt ?c = home rt p" by (simp add: home_def)
  have b: "bucket_ok rt (home rt p) ?b" by (rule table_okD(6) [OF ok])
  have entry: "\<lparr>entry_id = p, entry_hash = hashPeer rt p\<rparr> = entry_of rt p" by (simp add: entry_of_def)
  note upd = Update_def [of rt p, unfolded Let_def c bind.bind_lunit home index_home [OF ok] entry]
  consider "p \<in> peers_of rt"
    | "p \<notin> peers_of rt" "int (Bucket_Len ?b) < bucketsize rt"
    | "p \<notin> peers_of rt" "int (Bucket_Len ?b) = bucketsize rt" "home rt p \<noteq> length (Buckets rt) - 1"
    | "p \<notin> peers_of rt" "int (Bucket_Len ?b) = bucketsize rt" "home rt p = length (Buckets rt) - 1"
    using b unfolding bucket_ok_def by linarith
  then show ?thesis
  proof cases
    case 1
    have "Bucket_MoveToFront ?b p = Some (?b\<lparr>blist := moved p (blist ?b)\<rparr>)"
      using b by (simp add: Bucket_MoveToFront_def MoveToFront_loop_distinct bucket_ok_def Bucket_Peers_def)
    with 1 have "Update rt p = Some (refreshed rt p, Inr '''')"
      by (simp add: upd peers_of_iff [OF ok] refreshed_def)
    with 1 show ?thesis by (rule present)
  next
    case 2
    then have "Update rt p = Some (pushed rt p, Inr '''')"
      by (simp add: upd peers_of_iff [OF ok] pushed_def)
    with 2 ok show ?thesis by (intro added [of rt]) simp_all
  next
    case 3
    then have "Update rt p = Some (rt, Inl ErrPeerRejectedNoCapacity)"
      by (simp add: upd peers_of_iff [OF ok])
    with 3 ok show ?thesis by (intro rejected [of rt]) simp_all
  next
    case 4
    obtain rt' where rt': "nextBucket rt = Some rt'" "table_ok rt'" "peers_of rt' = peers_of rt"
      and frame: "rt' = rt\<lparr>Buckets := Buckets rt'\<rparr>"
      and len: "length (Buckets rt') \<le> max (Suc (length (Buckets rt))) (8 * length (rt_local rt) + 2)"
      using nextBucket_total [OF ok] by metis
    from frame have same: "same_config rt rt'" by (simp add: same_config_def)
    have "Suc (length (Buckets rt)) \<le> 8 * length (rt_local rt) + 2"
      using last_home_length [OF ok 4(3)] by simp
    with len have len': "length (Buckets rt') \<le> max (length (Buckets rt)) (8 * length (rt_local rt) + 2)"
      by linarith
    have home': "bucketID rt' ?c = home rt' p" by (simp add: home_def same_configD [OF same])
    have entry': "entry_of rt p = entry_of rt' p" by (simp add: entry_of_def same_configD [OF same])
    have upd': "Update rt p =
        (if bucketsize rt \<le> int (Bucket_Len (home_bucket rt' p))
         then Some (rt', Inl ErrPeerRejectedNoCapacity) else Some (pushed rt' p, Inr ''''))"
      using 4 by (simp add: upd peers_of_iff [OF ok] rt' home' index_home [OF rt'(2)]
          same_configD [OF same] pushed_def entry')
    have le: "int (Bucket_Len (home_bucket rt' p)) \<le> bucketsize rt"
      using table_okD(6) [OF rt'(2), of p] by (simp add: bucket_ok_def same_configD [OF same])
    show ?thesis
    proof (cases "bucketsize rt \<le> int (Bucket_Len (home_bucket rt' p))")
      case True
      with le upd' 4 rt' same len' show ?thesis by (intro rejected [of rt']) simp_all
    next
      case False
      with upd' 4 rt' same len' show ?thesis by (intro added [of rt']) simp_all
    qed
  qed
qed

lemma Remove_eq:
  assumes ok: "table_ok rt"
  shows "Remove rt p = Some
    (let rt' = setBucket rt (home rt p)
          ((home_bucket rt p)\<lparr>blist := filter (\<lambda>e. entry_id e \<noteq> p) (blist (home_bucket rt p))\<rparr>)
     in if p \<in> peers_of rt then notify rt' (PeerRemoved p) else rt')"
proof -
  let ?b = "home_bucket rt p"
  note c = CommonPrefixLen_hashPeer [OF table_okD(1) [OF ok], of p]
  have home: "bucketID rt (cpl (hashPeer rt p) (rt_local rt)) = home rt p" by (simp add: home_def)
  have "distinct (map entry_id (blist ?b))"
    using table_okD(6) [OF ok, of p] by (simp add: bucket_ok_def Bucket_Peers_def)
  then have "Remove_loop p (blist ?b) = (p \<in> peers_of rt, filter (\<lambda>e. entry_id e \<noteq> p) (blist ?b))"
    using Remove_loop_distinct [of "blist ?b" p] Remove_loop_found [of p "blist ?b"]
      peers_of_iff [OF ok, of p] by (simp add: prod_eq_iff set_Bucket_Peers)
  then show ?thesis
    by (simp add: Remove_def Let_def c home index_home [OF ok] Bucket_Remove_def)
qed

lemma Remove_ok:
  assumes ok: "table_ok rt"
  obtains rt' where "Remove rt p = Some rt'" "table_ok rt'" "peers_of rt' = peers_of rt - {p}"
    "notified rt' = notified rt @ (if p \<in> peers_of rt then [PeerRemoved p] else [])"
    "rt_hash rt' = rt_hash rt" "rt_local rt' = rt_local rt" "bucketsize rt' = bucketsize rt"
    "length (Buckets rt') = length (Buckets rt)"
proof -
  let ?b = "(home_bucket rt p)\<lparr>blist := filter (\<lambda>e. entry_id e \<noteq> p) (blist (home_bucket rt p))\<rparr>"
  let ?rt = "setBucket rt (home rt p) ?b"
  have b: "bucket_ok rt (home rt p) ?b"
    using table_okD(6) [OF ok, of p] unfolding bucket_ok_def Bucket_Peers_def Bucket_Len_def
    by (auto simp: distinct_map_filter_keys int_length_filter_le)
  have "q \<in> peers_of ?rt \<longleftrightarrow> q \<in> peers_of rt \<and> q \<noteq> p" for q
    using peers_of_setBucket [OF ok b table_okD(5) [OF ok], of q] peers_of_iff [OF ok, of q]
    by (auto simp: set_Bucket_Peers home_bucket_def)
  then have peers: "peers_of ?rt = peers_of rt - {p}" by auto
  note facts = Remove_eq [OF ok, of p] table_ok_setBucket [OF ok b] peers
  show ?thesis
  proof (cases "p \<in> peers_of rt")
    case True
    with facts show ?thesis by (intro that [of "notify ?rt (PeerRemoved p)"]) (simp_all add: Let_def)
  next
    case False
    with facts show ?thesis by (intro that [of ?rt]) (simp_all add: Let_def)
  qed
qed

lemma NewRoutingTable_ok:
  assumes "0 < bsize" and "\<And>x. length ((case h of None \<Rightarrow> sha3 | Some f \<Rightarrow> f) x) = n"
  shows "table_ok (NewRoutingTable sha3 bsize peer latency h)"
    and "peers_of (NewRoutingTable sha3 bsize peer latency h) = {}"
    and "notified (NewRoutingTable sha3 bsize peer latency h) = []"
  using assms by (simp_all add: NewRoutingTable_def Let_def table_ok_def hash_len_def hashPeer_def
      bucket_ok_def Bucket_Peers_def Bucket_Len_def peers_of_def ListPeers_concat)

end
