(* ===== verification/KadLookup.thy ===== *)
theory KadLookup
  imports KadTable
begin

text \<open>
  Lookups in the routing table (\<open>NearestPeers\<close>, \<open>NearestPeer\<close>, \<open>Find\<close> of
  \<open>discovery/kademlia/kademlia.go\<close>), the interface that the discovery backend uses of the
  table, and the properties of the routing table as a whole: the states it can reach, its
  size, and its notifications.
\<close>

section \<open>What a lookup computes\<close>

text \<open>The distance a lookup sorts by, and the peers it looks at.\<close>

definition dist :: "RoutingTable \<Rightarrow> string \<Rightarrow> string \<Rightarrow> ID" where
  "dist rt t p = map2 (XOR) (hashPeer rt t) (hashPeer rt p)"

definition candidates :: "RoutingTable \<Rightarrow> string \<Rightarrow> int \<Rightarrow> string list" where
  "candidates rt t count =
     (let c = home rt t; own = Bucket_Peers (Buckets rt ! c) in
      own @ (if int (length own) < count
             then (if 0 < c then Bucket_Peers (Buckets rt ! (c - 1)) else []) @
                  (if c < length (Buckets rt) - 1 then Bucket_Peers (Buckets rt ! (c + 1)) else [])
             else []))"

definition pd_of :: "RoutingTable \<Rightarrow> string \<Rightarrow> string \<Rightarrow> peerDistance" where
  "pd_of rt t p = \<lparr>pd_p = p, pd_distance = dist rt t p\<rparr>"

lemma pd_of_fields [simp]: "pd_p (pd_of rt t p) = p" "pd_distance (pd_of rt t p) = dist rt t p"
  by (simp_all add: pd_of_def)

lemma insort_key_map: "insort_key f (g x) (map g xs) = map g (insort_key (\<lambda>a. f (g a)) x xs)"
  by (induction xs) simp_all

lemma sort_key_map: "sort_key f (map g xs) = map g (sort_key (\<lambda>a. f (g a)) xs)"
  by (induction xs) (simp_all add: insort_key_map)

lemma length_dist: "hash_len rt \<Longrightarrow> length (dist rt t p) = length (rt_local rt)"
  by (simp add: dist_def length_hashPeer)

lemma appendPeersFromList_eq:
  assumes "\<And>e. e \<in> set es \<Longrightarrow> entry_hash e = hashPeer rt (entry_id e)" and "hash_len rt"
    and "pds_target pds = hashPeer rt t"
  shows "appendPeersFromList pds es =
    Some (pds\<lparr>pds_peers := pds_peers pds @ map (pd_of rt t \<circ> entry_id) es\<rparr>)"
  using assms
proof (induction es arbitrary: pds)
  case (Cons e es)
  have "appendPeer pds e = Some (pds\<lparr>pds_peers := pds_peers pds @ [pd_of rt t (entry_id e)]\<rparr>)"
    using Cons.prems by (simp add: appendPeer_def xor_bytes_def length_hashPeer pd_of_def dist_def)
  with Cons show ?case by simp
qed simp

lemma appendPeersFromList_bucket:
  assumes "table_ok rt" and "i < length (Buckets rt)" and "pds_target pds = hashPeer rt t"
  shows "appendPeersFromList pds (blist (Buckets rt ! i)) =
    Some (pds\<lparr>pds_peers := pds_peers pds @ map (pd_of rt t) (Bucket_Peers (Buckets rt ! i))\<rparr>)"
  using appendPeersFromList_eq [of "blist (Buckets rt ! i)" rt pds t]
    bucket_ok_entry(1) [OF table_okD(4) [OF assms(1,2)]] table_okD(1) [OF assms(1)] assms(3)
  by (simp add: Bucket_Peers_def)

lemma NearestPeers_collect_eq:
  assumes ok: "table_ok rt"
  shows "NearestPeers_collect rt (hashPeer rt t) (home rt t) count =
    Some \<lparr>pds_peers = map (pd_of rt t) (candidates rt t count), pds_target = hashPeer rt t\<rparr>"
proof -
  let ?c = "home rt t" and ?t = "hashPeer rt t"
  have i: "?c < length (Buckets rt)" by (rule table_okD(5) [OF ok])
  have append: "appendPeersFromList \<lparr>pds_peers = map (pd_of rt t) ps, pds_target = ?t\<rparr> (blist (Buckets rt ! j))
      = Some \<lparr>pds_peers = map (pd_of rt t) (ps @ Bucket_Peers (Buckets rt ! j)), pds_target = ?t\<rparr>"
    if "j < length (Buckets rt)" for ps j
    using appendPeersFromList_bucket [OF ok that, of "\<lparr>pds_peers = map (pd_of rt t) ps, pds_target = ?t\<rparr>" t]
    by simp
  note start = append [of ?c "[]", simplified]
  show ?thesis
    unfolding NearestPeers_collect_def candidates_def Let_def
    using i by (simp add: start append del: map_append)
qed

lemma NearestPeers_eq:
  assumes ok: "table_ok rt" and "0 \<le> count"
  shows "NearestPeers rt t count =
    Some (take (nat count) (sort_key (dist rt t) (candidates rt t count)))"
proof -
  note c = CommonPrefixLen_hashPeer [OF table_okD(1) [OF ok], of t]
  have home: "bucketID rt (cpl (hashPeer rt t) (rt_local rt)) = home rt t" by (simp add: home_def)
  show ?thesis
    unfolding NearestPeers_def Let_def
    using assms(2) table_okD(2,5) [OF ok] by (simp add: c home NearestPeers_collect_eq [OF ok] pds_sort_def sort_key_map
        take_map comp_def)
qed

text \<open>A peer that shares the target's bucket is closer to the target than one that does not.\<close>

lemma same_home_closer:
  assumes ok: "table_ok rt" and "home rt p = home rt t" and "home rt q \<noteq> home rt t"
  shows "dist rt t p < dist rt t q"
proof -
  let ?l = "rt_local rt" and ?n = "length (Buckets rt) - 1"
  have len: "length (hashPeer rt x) = length ?l" for x
    using table_okD(1) [OF ok] by (rule length_hashPeer)
  define cp cq ct where "cp = cpl (hashPeer rt p) ?l" and "cq = cpl (hashPeer rt q) ?l"
    and "ct = cpl (hashPeer rt t) ?l"
  have le: "cpl (hashPeer rt x) ?l \<le> 8 * length ?l" for x using cpl_le [of "hashPeer rt x" ?l] len by simp
  have "cpl ?l (hashPeer rt p) = cp" unfolding cp_def by (rule cpl_sym [OF len [symmetric]])
  then have tri: "min ct cp \<le> cpl (hashPeer rt t) (hashPeer rt p)"
    using cpl_ultrametric [OF len len [symmetric], of t p] by (simp only: ct_def)
  have same: "cp = ct \<or> ?n \<le> cp \<and> ?n \<le> ct"
    and other: "cq \<noteq> ct" "\<not> (?n \<le> cq \<and> ?n \<le> ct)"
    using assms(2,3) by (auto simp: home_def bucketID_def cp_def cq_def ct_def split: if_splits)
  have "cpl (hashPeer rt t) (hashPeer rt q) = min ct cq"
  proof (cases "ct < cq")
    case True
    then show ?thesis using cpl_less_eq [of "hashPeer rt t" ?l "hashPeer rt q"] len
      by (simp add: ct_def cq_def)
  next
    case False
    with other have "cq < ct" by simp
    then have "cpl (hashPeer rt q) (hashPeer rt t) = cq"
      using cpl_less_eq [of "hashPeer rt q" ?l "hashPeer rt t"] by (simp add: len ct_def cq_def)
    moreover have "cpl (hashPeer rt t) (hashPeer rt q) = cpl (hashPeer rt q) (hashPeer rt t)"
      by (rule cpl_sym) (simp only: len)
    ultimately show ?thesis using \<open>cq < ct\<close> by simp
  qed
  moreover have "min ct cq < cpl (hashPeer rt t) (hashPeer rt p)"
  proof (cases "cp = ct")
    case True
    show ?thesis
    proof (cases "ct < 8 * length ?l")
      case True
      with \<open>cp = ct\<close> have "ct < cpl (hashPeer rt t) (hashPeer rt p)"
        using cpl_eq_greater [of "hashPeer rt t" ?l "hashPeer rt p"] len by (simp add: ct_def cp_def)
      then show ?thesis by simp
    next
      case False
      with \<open>cp = ct\<close> le [of t] have full: "ct = 8 * length ?l" "cp = 8 * length ?l"
        by (simp_all add: ct_def)
      moreover have "cq < ct" using other(1) full le [of q] by (simp add: cq_def)
      ultimately show ?thesis using tri by simp
    qed
  next
    case False
    with same have n: "?n \<le> cp" "?n \<le> ct" by simp_all
    with other have "cq < ?n" by simp
    then show ?thesis using n tri by simp
  qed
  ultimately show ?thesis using len by (simp add: dist_def cpl_greater_closer)
qed

lemma set_candidates:
  assumes ok: "table_ok rt"
  shows "set (candidates rt t count) \<subseteq> peers_of rt"
    and "set (Bucket_Peers (home_bucket rt t)) \<subseteq> set (candidates rt t count)"
proof -
  have mem: "x \<in> peers_of rt" if "x \<in> set (Bucket_Peers (Buckets rt ! i))" "i < length (Buckets rt)" for x i
    using nth_mem [OF that(2)] that(1) unfolding peers_of_def ListPeers_concat
    by (simp only: set_concat set_map) blast
  show "set (candidates rt t count) \<subseteq> peers_of rt"
    using table_okD(5) [OF ok, of t]
    by (auto simp: candidates_def Let_def split: if_splits intro: mem)
  show "set (Bucket_Peers (home_bucket rt t)) \<subseteq> set (candidates rt t count)"
    by (auto simp: candidates_def Let_def home_bucket_def)
qed

lemma disjoint_buckets:
  assumes "table_ok rt" "i < length (Buckets rt)" "j < length (Buckets rt)" "i \<noteq> j"
  shows "set (Bucket_Peers (Buckets rt ! i)) \<inter> set (Bucket_Peers (Buckets rt ! j)) = {}"
  using bucket_ok_member [OF table_okD(4) [OF assms(1,2)]]
    bucket_ok_member [OF table_okD(4) [OF assms(1,3)]] assms(4) by blast

lemma distinct_candidates:
  assumes ok: "table_ok rt"
  shows "distinct (candidates rt t count)"
proof -
  have d: "distinct (Bucket_Peers (Buckets rt ! i))" if "i < length (Buckets rt)" for i
    using table_okD(4) [OF ok that] by (simp add: bucket_ok_def)
  have "x \<notin> set (Bucket_Peers (Buckets rt ! j))"
    if "x \<in> set (Bucket_Peers (Buckets rt ! i))" "i < length (Buckets rt)" "j < length (Buckets rt)" "i < j"
    for x i j using disjoint_buckets [OF ok that(2,3)] that(1,4) by blast
  then show ?thesis
    using table_okD(5) [OF ok, of t] d by (auto simp: candidates_def Let_def)
qed

lemma sorted_take_sort_key: "sorted (map f (take n (sort_key f xs)))"
  by (simp add: take_map [symmetric])

text \<open>What every lookup returns: peers of the table, each once, in the order of their distance.\<close>

lemma NearestPeers_sound:
  assumes "table_ok rt" and "0 \<le> count"
  obtains ps where "NearestPeers rt t count = Some ps" "distinct ps" "set ps \<subseteq> peers_of rt"
    "sorted (map (dist rt t) ps)" "int (length ps) \<le> count"
proof (rule that [OF NearestPeers_eq [OF assms, of t]])
  let ?s = "sort_key (dist rt t) (candidates rt t count)"
  show "distinct (take (nat count) ?s)" using distinct_candidates [OF assms(1)] by simp
  have "set (take (nat count) ?s) \<subseteq> set ?s" by (rule set_take_subset)
  then show "set (take (nat count) ?s) \<subseteq> peers_of rt"
    using set_candidates(1) [OF assms(1), of t count] by simp
  show "sorted (map (dist rt t) (take (nat count) ?s))" by (rule sorted_take_sort_key)
  show "int (length (take (nat count) ?s)) \<le> count" using assms(2) by simp
qed

lemma take_sort_key_nearest:
  assumes "x \<in> set (take n (sort_key f xs))" and "y \<in> set xs" and "y \<notin> set (take n (sort_key f xs))"
  shows "f x \<le> f y"
proof -
  let ?s = "sort_key f xs"
  have "y \<in> set (take n ?s @ drop n ?s)" using assms(2) by (simp only: append_take_drop_id set_sort)
  with assms(3) have "y \<in> set (drop n ?s)" by (simp only: set_append Un_iff) simp
  moreover have "sorted (map f (take n ?s @ drop n ?s))"
    by (simp only: append_take_drop_id sorted_sort_key)
  ultimately show ?thesis using assms(1) by (auto simp only: map_append sorted_append set_map)
qed

text \<open>The own bucket of the target alone decides a lookup that it can fill.\<close>

lemma NearestPeers_own_bucket:
  assumes "table_ok rt" and "0 \<le> count" and "count \<le> int (Bucket_Len (home_bucket rt t))"
  shows "NearestPeers rt t count =
    Some (take (nat count) (sort_key (dist rt t) (Bucket_Peers (home_bucket rt t))))"
  using NearestPeers_eq [OF assms(1,2), of t] assms(3)
  by (simp add: candidates_def Let_def home_bucket_def Bucket_Len_Peers)

lemma same_home_le:
  assumes "table_ok rt" and "p \<in> set (Bucket_Peers (home_bucket rt t))" and "q \<in> peers_of rt"
    and "q \<notin> set (Bucket_Peers (home_bucket rt t))"
  shows "dist rt t p < dist rt t q"
proof (rule same_home_closer [OF assms(1)])
  show "home rt p = home rt t" using bucket_ok_member [OF table_okD(6) [OF assms(1)] assms(2)] .
  have "q \<in> set (Bucket_Peers (home_bucket rt q))" using assms(1,3) peers_of_iff by blast
  then show "home rt q \<noteq> home rt t" using assms(4) by (auto simp: home_bucket_def)
qed

lemma dist_self_least:
  assumes "hash_len rt" and "dist rt p q \<le> dist rt p p"
  shows "hashPeer rt q = hashPeer rt p"
proof -
  have "dist rt p p \<le> dist rt p q"
    using zeros_le [of "dist rt p q"] assms(1) by (simp add: dist_def map2_xor_self length_hashPeer)
  with assms(2) have "dist rt p q = dist rt p p" by simp
  then show ?thesis
    using map2_xor_inj [of "hashPeer rt q" "hashPeer rt p" "hashPeer rt p"] assms(1)
    by (simp add: dist_def length_hashPeer)
qed

lemma take_1_sort_key:
  assumes "y \<in> set xs"
  obtains q where "take 1 (sort_key f xs) = [q]" "f q \<le> f y"
proof (cases "sort_key f xs")
  case Nil
  with assms show ?thesis by (metis empty_iff list.set(1) set_sort)
next
  case (Cons q qs)
  have "y \<in> set (q # qs)" using assms Cons by (metis set_sort)
  moreover have "sorted (map f (q # qs))" using sorted_sort_key [of f xs] Cons by simp
  ultimately have "f q \<le> f y" by auto
  with that [of q] Cons show ?thesis by simp
qed

lemma NearestPeers_one:
  assumes "table_ok rt" and own: "p \<in> set (Bucket_Peers (home_bucket rt t))"
  obtains q where "NearestPeers rt t 1 = Some [q]" "dist rt t q \<le> dist rt t p"
proof -
  have "0 < length (Bucket_Peers (home_bucket rt t))" using own by (rule length_pos_if_in_set)
  then have "1 \<le> int (Bucket_Len (home_bucket rt t))" unfolding Bucket_Len_Peers by linarith
  then have "NearestPeers rt t 1 = Some (take 1 (sort_key (dist rt t) (Bucket_Peers (home_bucket rt t))))"
    using NearestPeers_own_bucket [OF assms(1), of 1 t] by simp
  moreover obtain q where "take 1 (sort_key (dist rt t) (Bucket_Peers (home_bucket rt t))) = [q]"
    "dist rt t q \<le> dist rt t p"
    by (rule take_1_sort_key [OF own])
  ultimately show ?thesis using that by simp
qed

section \<open>The states of a routing table\<close>

text \<open>A table is created by \<open>NewRoutingTable\<close> and changed by \<open>Update\<close> and \<open>Remove\<close> alone. Both
  hold the write lock from their first access to the buckets to their return, so a run of
  concurrent calls is a sequence of whole calls.\<close>

inductive table_step :: "RoutingTable \<Rightarrow> RoutingTable \<Rightarrow> bool" where
  step_update: "Update rt p = Some (rt', r) \<Longrightarrow> table_step rt rt'"
| step_remove: "Remove rt p = Some rt' \<Longrightarrow> table_step rt rt'"

inductive_cases table_stepE: "table_step rt rt'"

text \<open>The set of peers that a listener of the two callbacks reconstructs.\<close>

fun replay :: "string set \<Rightarrow> notification list \<Rightarrow> string set" where
  "replay S [] = S"
| "replay S (PeerAdded p # ns) = replay (insert p S) ns"
| "replay S (PeerRemoved p # ns) = replay (S - {p}) ns"

lemma replay_append: "replay S (ns @ ms) = replay (replay S ns) ms"
  by (induction S ns rule: replay.induct) simp_all

lemma pushed_notified: "notified (pushed rt p) = notified rt @ [PeerAdded p]"
  by (simp add: pushed_def)

lemma refreshed_notified: "notified (refreshed rt p) = notified rt"
  by (simp add: refreshed_def)

lemma home_bucket_pushed:
  "table_ok rt \<Longrightarrow> home_bucket (pushed rt p) p = Bucket_PushFront (home_bucket rt p) (entry_of rt p)"
  by (simp add: home_bucket_def pushed_def table_okD(5))

lemma home_bucket_refreshed:
  "table_ok rt \<Longrightarrow>
   home_bucket (refreshed rt p) p = (home_bucket rt p)\<lparr>blist := moved p (blist (home_bucket rt p))\<rparr>"
  by (simp add: home_bucket_def refreshed_def table_okD(5))

lemma moved_eq_Nil [simp]: "moved p es = [] \<longleftrightarrow> es = []"
  using length_moved [of p es] by (metis length_0_conv)

lemma Bucket_Peers_front:
  assumes "table_ok rt"
  shows "Bucket_Peers (home_bucket (pushed rt p) p) = p # Bucket_Peers (home_bucket rt p)"
    and "p \<in> peers_of rt \<Longrightarrow> hd (Bucket_Peers (home_bucket (refreshed rt p) p)) = p"
proof -
  show "Bucket_Peers (home_bucket (pushed rt p) p) = p # Bucket_Peers (home_bucket rt p)"
    using home_bucket_pushed [OF assms, of p]
    by (simp add: Bucket_Peers_def Bucket_PushFront_def entry_of_def)
  assume "p \<in> peers_of rt"
  then have mem: "p \<in> entry_id ` set (blist (home_bucket rt p))"
    using peers_of_iff [OF assms, of p] by (simp add: set_Bucket_Peers)
  moreover from this have "blist (home_bucket rt p) \<noteq> []" by auto
  ultimately show "hd (Bucket_Peers (home_bucket (refreshed rt p) p)) = p"
    using hd_moved [of p "blist (home_bucket rt p)"]
    by (simp add: home_bucket_refreshed [OF assms] Bucket_Peers_def hd_map)
qed

text \<open>What every operation keeps, beyond \<open>table_ok\<close>: the configuration of the table, the bound on
  the number of buckets, and the agreement of the notifications with the content.\<close>

definition table_inv :: "(bytes \<Rightarrow> bytes) \<Rightarrow> ID \<Rightarrow> int \<Rightarrow> RoutingTable \<Rightarrow> bool" where
  "table_inv h me bsize rt \<longleftrightarrow> table_ok rt \<and> rt_hash rt = h \<and> rt_local rt = me \<and> bucketsize rt = bsize \<and>
     length (Buckets rt) \<le> 8 * length me + 2 \<and> replay {} (notified rt) = peers_of rt"

lemma table_inv_refreshed: "table_inv h me bsize rt \<Longrightarrow> table_inv h me bsize (refreshed rt p)"
  using refreshed_ok [of rt p] by (simp add: table_inv_def refreshed_notified) (simp add: refreshed_def)

lemma table_inv_config:
  assumes "table_inv h me bsize rt" and "table_ok rt'" and "peers_of rt' = peers_of rt"
    and "same_config rt rt'"
    and "length (Buckets rt') \<le> max (length (Buckets rt)) (8 * length (rt_local rt) + 2)"
  shows "table_inv h me bsize rt'"
  using assms same_configD [OF assms(4)] by (simp add: table_inv_def)

lemma table_inv_pushed:
  assumes "table_inv h me bsize rt" and "p \<notin> peers_of rt"
    and "int (Bucket_Len (home_bucket rt p)) < bucketsize rt"
  shows "table_inv h me bsize (pushed rt p)"
  using assms pushed_ok [of rt p]
  by (simp add: table_inv_def pushed_notified replay_append) (simp add: pushed_def)

lemma table_inv_Update:
  assumes "table_inv h me bsize rt"
  obtains rt' r where "Update rt p = Some (rt', r)" "table_inv h me bsize rt'"
proof -
  have ok: "table_ok rt" using assms by (simp add: table_inv_def)
  from ok show ?thesis
  proof (cases rule: Update_cases [where p = p])
    case present
    show ?thesis using that [OF present(2) table_inv_refreshed [OF assms]] .
  next
    case (added rt')
    note inv = table_inv_config [OF assms added(2-5)]
    have "int (Bucket_Len (home_bucket rt' p)) < bucketsize rt'"
      using added(4,6) by (simp add: same_configD)
    then show ?thesis using that [OF added(7) table_inv_pushed [OF inv]] added(1,3) by simp
  next
    case (rejected rt')
    show ?thesis using that [OF rejected(7) table_inv_config [OF assms rejected(2-5)]] .
  qed
qed

lemma table_inv_Remove:
  assumes "table_inv h me bsize rt"
  obtains rt' where "Remove rt p = Some rt'" "table_inv h me bsize rt'"
proof -
  have ok: "table_ok rt" using assms by (simp add: table_inv_def)
  obtain rt' where rt': "Remove rt p = Some rt'" "table_ok rt'" "peers_of rt' = peers_of rt - {p}"
    "notified rt' = notified rt @ (if p \<in> peers_of rt then [PeerRemoved p] else [])"
    "rt_hash rt' = rt_hash rt" "rt_local rt' = rt_local rt" "bucketsize rt' = bucketsize rt"
    "length (Buckets rt') = length (Buckets rt)"
    by (rule Remove_ok [OF ok])
  have "table_inv h me bsize rt'" using rt'(2-) assms by (simp add: table_inv_def replay_append)
  with rt'(1) show ?thesis by (rule that)
qed

lemma table_inv_step:
  assumes "table_step rt rt'" and "table_inv h me bsize rt"
  shows "table_inv h me bsize rt'"
  using assms(1)
proof cases
  case (step_update p r)
  with table_inv_Update [OF assms(2), of p] show ?thesis by auto
next
  case (step_remove p)
  with table_inv_Remove [OF assms(2), of p] show ?thesis by auto
qed

lemma table_inv_steps: "table_step\<^sup>*\<^sup>* rt rt' \<Longrightarrow> table_inv h me bsize rt \<Longrightarrow> table_inv h me bsize rt'"
  by (induction rule: rtranclp_induct) (auto intro: table_inv_step)

lemma Size_bound:
  assumes "table_ok rt"
  shows "int (Size rt) \<le> bucketsize rt * int (length (Buckets rt))"
proof -
  have "int (length (concat (map Bucket_Peers bs))) \<le> k * int (length bs)"
    if "\<And>b. b \<in> set bs \<Longrightarrow> int (Bucket_Len b) \<le> k" for bs and k :: int
    using that
  proof (induction bs)
    case (Cons b bs)
    then have "int (Bucket_Len b) \<le> k" "int (length (concat (map Bucket_Peers bs))) \<le> k * int (length bs)"
      by simp_all
    then show ?case by (simp add: Bucket_Len_Peers algebra_simps)
  qed simp
  moreover have "int (Bucket_Len b) \<le> bucketsize rt" if "b \<in> set (Buckets rt)" for b
    using that table_okD(4) [OF assms] by (auto simp: in_set_conv_nth bucket_ok_def)
  ultimately show ?thesis by (simp add: Size_ListPeers ListPeers_concat)
qed

section \<open>The interface of the table\<close>

text \<open>What a client of the routing table relies on: neither operation panics, an update adds at
  most the peer it names, and a lookup answers with at most \<open>n\<close> members of the table.\<close>

locale peer_table =
  fixes ok :: "'t \<Rightarrow> bool" and members :: "'t \<Rightarrow> 'p set"
    and upd :: "'t \<Rightarrow> 'p \<Rightarrow> ('t \<times> 'r) option" and near :: "'t \<Rightarrow> 'p \<Rightarrow> int \<Rightarrow> 'p list option"
  assumes upd_total: "ok t \<Longrightarrow> \<exists>t' r. upd t p = Some (t', r) \<and> ok t' \<and>
      members t \<subseteq> members t' \<and> members t' \<subseteq> insert p (members t)"
    and near_total: "ok t \<Longrightarrow> 0 \<le> n \<Longrightarrow> \<exists>ps. near t q n = Some ps \<and> distinct ps \<and>
      set ps \<subseteq> members t \<and> int (length ps) \<le> n"
begin

text \<open>A client that keeps a map of all members resolves every answer of a lookup.\<close>

lemma near_resolves:
  assumes "ok t" and "members t \<subseteq> dom m" and "0 \<le> n"
  obtains ps where "near t q n = Some ps" "distinct ps" "set ps \<subseteq> dom m" "int (length ps) \<le> n"
  using near_total [OF assms(1,3)] assms(2) that by blast

lemma upd_covered:
  assumes "ok t" and "members t \<subseteq> dom m" and "p \<in> dom m"
  obtains t' r where "upd t p = Some (t', r)" "ok t'" "members t' \<subseteq> dom m"
  using upd_total [OF assms(1), of p] assms(2,3) that by blast

end

lemma Update_members:
  assumes "table_ok rt"
  shows "\<exists>rt' r. Update rt p = Some (rt', r) \<and> table_ok rt' \<and>
      peers_of rt \<subseteq> peers_of rt' \<and> peers_of rt' \<subseteq> insert p (peers_of rt)"
  using assms
proof (cases rule: Update_cases [where p = p])
  case present
  then show ?thesis using refreshed_ok [OF assms, of p] by auto
next
  case (added rt')
  then have "int (Bucket_Len (home_bucket rt' p)) < bucketsize rt'" by (simp add: same_configD)
  then show ?thesis using added pushed_ok [of rt' p] by auto
next
  case (rejected rt')
  then show ?thesis by auto
qed

interpretation kad: peer_table table_ok peers_of Update NearestPeers
proof
  show "\<exists>rt' r. Update rt p = Some (rt', r) \<and> table_ok rt' \<and>
      peers_of rt \<subseteq> peers_of rt' \<and> peers_of rt' \<subseteq> insert p (peers_of rt)"
    if "table_ok rt" for rt p using that by (rule Update_members)
  show "\<exists>ps. NearestPeers rt q n = Some ps \<and> distinct ps \<and> set ps \<subseteq> peers_of rt \<and> int (length ps) \<le> n"
    if "table_ok rt" "0 \<le> n" for rt q n using NearestPeers_sound [OF that, of q] by metis
qed

section \<open>Properties\<close>

text \<open>A table for the witnesses: one-byte digests, two entries a bucket.\<close>

definition sample_hash :: "bytes \<Rightarrow> bytes" where
  "sample_hash bs = [case bs of [] \<Rightarrow> 0 | b # _ \<Rightarrow> b]"

definition sample_table :: RoutingTable where
  "sample_table = NewRoutingTable sample_hash 2 ''a'' 0 None"

lemma sample_table_inv: "table_inv sample_hash [97] 2 sample_table"
  using NewRoutingTable_ok [of 2 sample_hash None 1 "''a''" 0]
  by (simp add: sample_table_def table_inv_def sample_hash_def)
    (simp add: NewRoutingTable_def Let_def hashPeer_def sample_hash_def bytes_of_string_def byte_of_char_def)

lemma sample_table_ok: "table_ok sample_table"
  using sample_table_inv by (simp add: table_inv_def)

lemma sample_table_fields:
  "Buckets sample_table = [\<lparr>blist = []\<rparr>]" "rt_local sample_table = [97]"
  "rt_hash sample_table = sample_hash" "bucketsize sample_table = 2"
  by (simp_all add: sample_table_def NewRoutingTable_def Let_def hashPeer_def sample_hash_def
      newBucket_def bytes_of_string_def byte_of_char_def)

text \<open>Property C1. \<open>Update\<close> never panics and always returns: on a well-formed table it either
  succeeds, and then the table holds exactly its former peers and \<open>p\<close>, with \<open>p\<close> at the front of its
  bucket; or it returns \<open>ErrPeerRejectedNoCapacity\<close>, and then the bucket of \<open>p\<close> is full, \<open>p\<close> is
  not in the table and no peer was lost. The table stays well-formed.\<close>

theorem Update_spec:
  assumes "table_ok rt"
  shows "\<exists>rt' r. Update rt p = Some (rt', r) \<and> table_ok rt' \<and>
    (case r of
       Inr evicted \<Rightarrow> evicted = '''' \<and> peers_of rt' = insert p (peers_of rt) \<and>
         hd (Bucket_Peers (home_bucket rt' p)) = p
     | Inl e \<Rightarrow> e = ErrPeerRejectedNoCapacity \<and> p \<notin> peers_of rt \<and> peers_of rt' = peers_of rt \<and>
         int (Bucket_Len (home_bucket rt' p)) = bucketsize rt)"
  using assms
proof (cases rule: Update_cases [where p = p])
  case present
  then show ?thesis using refreshed_ok [OF assms, of p] Bucket_Peers_front(2) [OF assms, of p] by auto
next
  case (added rt')
  then have "int (Bucket_Len (home_bucket rt' p)) < bucketsize rt'" by (simp add: same_configD)
  then show ?thesis using added pushed_ok [of rt' p] Bucket_Peers_front(1) [of rt' p] by auto
next
  case (rejected rt')
  then show ?thesis by auto
qed

theorem Update_spec_witness:
  "table_ok sample_table \<and> (\<exists>rt' r. Update sample_table ''b'' = Some (rt', r) \<and> table_ok rt')"
  using sample_table_ok Update_spec [OF sample_table_ok, of "''b''"] by blast

text \<open>Property C2. \<open>Remove\<close> always returns; it takes exactly \<open>p\<close> out of a well-formed table, keeps
  the table well-formed and reports the removal exactly when \<open>p\<close> was there.\<close>

theorem Remove_spec:
  assumes "table_ok rt"
  shows "\<exists>rt'. Remove rt p = Some rt' \<and> table_ok rt' \<and> peers_of rt' = peers_of rt - {p} \<and>
    notified rt' = notified rt @ (if p \<in> peers_of rt then [PeerRemoved p] else [])"
  by (rule Remove_ok [OF assms, of p]) auto

theorem Remove_spec_witness:
  "table_ok sample_table \<and> (\<exists>rt'. Remove sample_table ''b'' = Some rt' \<and> notified rt' = [])"
proof -
  have "peers_of sample_table = {}" "notified sample_table = []"
    using sample_table_inv sample_table_fields(1)
    by (simp_all add: peers_of_def ListPeers_concat Bucket_Peers_def sample_table_def NewRoutingTable_def Let_def)
  then show ?thesis using sample_table_ok Remove_spec [OF sample_table_ok, of "''b''"] by auto
qed

text \<open>Property C3. Whatever sequence of \<open>Update\<close> and \<open>Remove\<close> calls follows the creation of a table
  with a positive bucket size and a hash with digests of \<open>n\<close> bytes: every entry is in the bucket of
  its prefix length, no peer is stored twice, no bucket exceeds its size, there are at most
  \<open>8 * n + 2\<close> buckets, \<open>Size\<close> counts the peers, and the notifications describe the content.\<close>

theorem reachable_table:
  assumes "0 < bsize" and "\<And>x. length (h x) = n"
    and "table_step\<^sup>*\<^sup>* (NewRoutingTable sha3 bsize peer latency (Some h)) rt"
  shows "table_ok rt \<and> distinct (ListPeers rt) \<and> replay {} (notified rt) = set (ListPeers rt) \<and>
    Size rt = card (set (ListPeers rt)) \<and> int (Size rt) \<le> bsize * (8 * int n + 2) \<and>
    (\<forall>i < length (Buckets rt). \<forall>e \<in> set (blist (Buckets rt ! i)). \<exists>c.
       CommonPrefixLen (entry_hash e) (rt_local rt) = Some c \<and> i = min c (length (Buckets rt) - 1))"
proof -
  let ?rt = "NewRoutingTable sha3 bsize peer latency (Some h)"
  have me: "rt_local ?rt = h (bytes_of_string peer)" "length (Buckets ?rt) = 1" "rt_hash ?rt = h"
    "bucketsize ?rt = bsize"
    by (simp_all add: NewRoutingTable_def Let_def hashPeer_def)
  have "table_inv h (h (bytes_of_string peer)) bsize ?rt"
    using NewRoutingTable_ok [of bsize sha3 "Some h" n peer latency] assms(1,2) me
    by (simp add: table_inv_def)
  then have inv: "table_inv h (h (bytes_of_string peer)) bsize rt" by (rule table_inv_steps [OF assms(3)])
  then have ok: "table_ok rt" and rp: "replay {} (notified rt) = set (ListPeers rt)"
    by (simp_all add: table_inv_def peers_of_def)
  have d: "distinct (ListPeers rt)" by (rule distinct_ListPeers [OF ok])
  then have size: "Size rt = card (set (ListPeers rt))" by (simp add: Size_ListPeers distinct_card)
  have "bsize * int (length (Buckets rt)) \<le> bsize * (8 * int n + 2)"
    using inv assms(1,2) by (intro mult_left_mono) (simp_all add: table_inv_def)
  then have bound: "int (Size rt) \<le> bsize * (8 * int n + 2)"
    using Size_bound [OF ok] inv by (simp add: table_inv_def)
  have "\<exists>c. CommonPrefixLen (entry_hash e) (rt_local rt) = Some c \<and> i = min c (length (Buckets rt) - 1)"
    if i: "i < length (Buckets rt)" and e: "e \<in> set (blist (Buckets rt ! i))" for i e
    using CommonPrefixLen_hashPeer [OF table_okD(1) [OF ok], of "entry_id e"] i
      bucket_ok_entry [OF table_okD(4) [OF ok i] e]
    by (auto simp: home_def bucketID_def min_def split: if_splits)
  then show ?thesis using ok rp d size bound by blast
qed

theorem reachable_table_witness: "\<exists>rt. table_step sample_table rt \<and> distinct (ListPeers rt)"
proof -
  let ?rt = "NewRoutingTable sample_hash 2 ''a'' 0 (Some sample_hash)"
  have eq: "sample_table = ?rt" by (simp add: sample_table_def NewRoutingTable_def)
  obtain rt' where "Remove sample_table ''b'' = Some rt'" using Remove_ok [OF sample_table_ok] by blast
  then have step: "table_step sample_table rt'" by (rule step_remove)
  then have "table_step\<^sup>*\<^sup>* ?rt rt'" by (simp add: eq)
  then have "distinct (ListPeers rt')"
    using reachable_table [of 2 sample_hash 1 sample_hash "''a''" 0 rt'] by (simp add: sample_hash_def)
  with step show ?thesis by blast
qed

text \<open>A one-peer table for the lookups.\<close>

definition sample_one :: RoutingTable where
  "sample_one = pushed sample_table ''b''"

lemma sample_one_ok: "table_ok sample_one" "peers_of sample_one = {''b''}"
  "home_bucket sample_one ''b'' = \<lparr>blist = [\<lparr>entry_id = ''b'', entry_hash = [98]\<rparr>]\<rparr>"
proof -
  have b: "home_bucket sample_table ''b'' = \<lparr>blist = []\<rparr>"
    using sample_table_fields(1) table_okD(5) [OF sample_table_ok, of "''b''"]
    by (simp add: home_bucket_def)
  have p: "peers_of sample_table = {}"
    by (simp add: peers_of_def ListPeers_concat Bucket_Peers_def sample_table_fields)
  show "table_ok sample_one" "peers_of sample_one = {''b''}"
    using pushed_ok [OF sample_table_ok, of "''b''"] b p
    by (simp_all add: sample_one_def Bucket_Len_def sample_table_fields)
  show "home_bucket sample_one ''b'' = \<lparr>blist = [\<lparr>entry_id = ''b'', entry_hash = [98]\<rparr>]\<rparr>"
    using home_bucket_pushed [OF sample_table_ok, of "''b''"] b
    by (simp add: sample_one_def Bucket_PushFront_def entry_of_def hashPeer_def sample_table_fields
        sample_hash_def bytes_of_string_def byte_of_char_def)
qed

text \<open>Property C4. When the bucket of the target holds at least \<open>count\<close> peers, \<open>NearestPeers\<close>
  answers exactly: \<open>count\<close> distinct peers of the table in the order of their XOR distance to the
  target, none of them farther than any peer of the table that was left out.\<close>

theorem NearestPeers_exact:
  assumes "table_ok rt" and "0 \<le> count" and "count \<le> int (Bucket_Len (home_bucket rt t))"
  shows "\<exists>ps. NearestPeers rt t count = Some ps \<and> int (length ps) = count \<and> distinct ps \<and>
    set ps \<subseteq> peers_of rt \<and> sorted (map (dist rt t) ps) \<and>
    (\<forall>p \<in> set ps. \<forall>q \<in> peers_of rt - set ps. dist rt t p \<le> dist rt t q)"
proof -
  let ?own = "Bucket_Peers (home_bucket rt t)"
  let ?ps = "take (nat count) (sort_key (dist rt t) ?own)"
  note eq = NearestPeers_own_bucket [OF assms]
  obtain ps where ps: "NearestPeers rt t count = Some ps" "distinct ps" "set ps \<subseteq> peers_of rt"
    "sorted (map (dist rt t) ps)"
    by (rule NearestPeers_sound [OF assms(1,2), of t])
  with eq have ps_eq: "ps = ?ps" by simp
  have "set ?ps \<subseteq> set (sort_key (dist rt t) ?own)" by (rule set_take_subset)
  then have own: "set ps \<subseteq> set ?own" by (simp add: ps_eq)
  have "dist rt t p \<le> dist rt t q" if p: "p \<in> set ps" and q: "q \<in> peers_of rt" "q \<notin> set ps" for p q
  proof (cases "q \<in> set ?own")
    case True
    then show ?thesis using take_sort_key_nearest [of p "nat count" "dist rt t" ?own q] p q(2) ps_eq by blast
  next
    case False
    then show ?thesis using same_home_le [OF assms(1) _ q(1)] p own by (simp add: less_imp_le subset_iff)
  qed
  moreover have "int (length ps) = count" using assms(2,3) by (simp add: ps_eq Bucket_Len_Peers)
  ultimately show ?thesis using ps by blast
qed

theorem NearestPeers_exact_witness: "NearestPeers sample_one ''b'' 1 = Some [''b'']"
proof -
  obtain ps where "NearestPeers sample_one ''b'' 1 = Some ps" "length ps = 1" "set ps \<subseteq> {''b''}"
    using NearestPeers_exact [of sample_one 1 "''b''"] sample_one_ok by (auto simp: Bucket_Len_def)
  then show ?thesis by (cases ps) auto
qed

text \<open>Every other lookup still returns, for any non-negative \<open>count\<close>, at most \<open>count\<close>
  distinct peers of the table in the order of their distance, and it returns one at least
  whenever the bucket of the target holds one.\<close>

theorem NearestPeers_total:
  assumes "table_ok rt" and "0 \<le> count"
  shows "\<exists>ps. NearestPeers rt t count = Some ps \<and> int (length ps) \<le> count \<and> distinct ps \<and>
    set ps \<subseteq> peers_of rt \<and> sorted (map (dist rt t) ps) \<and>
    (0 < count \<longrightarrow> 0 < Bucket_Len (home_bucket rt t) \<longrightarrow> ps \<noteq> [])"
proof -
  have "take (nat count) (sort_key (dist rt t) (candidates rt t count)) \<noteq> []"
    if "0 < count" "0 < Bucket_Len (home_bucket rt t)"
  proof -
    have "set (candidates rt t count) \<noteq> {}"
      using that set_candidates(2) [OF assms(1), of t count] by (auto simp: Bucket_Len_Peers)
    then have "length (sort_key (dist rt t) (candidates rt t count)) \<noteq> 0" by simp
    then show ?thesis using that(1) by (metis length_sort list.size(3) take_eq_Nil zero_less_nat_eq less_irrefl)
  qed
  moreover obtain ps where ps: "NearestPeers rt t count = Some ps" "distinct ps" "set ps \<subseteq> peers_of rt"
    "sorted (map (dist rt t) ps)" "int (length ps) \<le> count"
    by (rule NearestPeers_sound [OF assms, of t])
  moreover from ps(1) have "ps = take (nat count) (sort_key (dist rt t) (candidates rt t count))"
    using NearestPeers_eq [OF assms, of t] by simp
  ultimately show ?thesis by (intro exI [of _ ps]) simp
qed

theorem NearestPeers_total_witness: "\<exists>ps. NearestPeers sample_table ''b'' 16 = Some ps \<and> length ps \<le> 16"
  using NearestPeers_total [OF sample_table_ok, of 16 "''b''"] by auto

text \<open>\<open>Find\<close> decides membership, as long as no other peer of the table has the digest
  of the peer looked for: it returns the peer if it is in the table and the empty string if not.\<close>

theorem Find_correct:
  assumes "table_ok rt" and "\<And>q. q \<in> peers_of rt \<Longrightarrow> hashPeer rt q = hashPeer rt p \<Longrightarrow> q = p"
  shows "Find rt p = Some (if p \<in> peers_of rt then p else '''')"
proof -
  obtain ps where ps: "NearestPeers rt p 1 = Some ps" "set ps \<subseteq> peers_of rt"
    using NearestPeers_sound [OF assms(1), of 1 p] by (metis zero_le_one)
  show ?thesis
  proof (cases "p \<in> peers_of rt")
    case True
    then have own: "p \<in> set (Bucket_Peers (home_bucket rt p))" using peers_of_iff [OF assms(1)] by blast
    then obtain q where q: "NearestPeers rt p 1 = Some [q]" "dist rt p q \<le> dist rt p p"
      by (rule NearestPeers_one [OF assms(1)])
    from q(2) have "hashPeer rt q = hashPeer rt p" by (rule dist_self_least [OF table_okD(1) [OF assms(1)]])
    then have "q = p" using assms(2) ps q(1) by auto
    then show ?thesis using True q(1) by (simp add: Find_def)
  next
    case False
    then show ?thesis using ps by (cases ps) (auto simp: Find_def)
  qed
qed

theorem Find_correct_witness: "Find sample_one ''b'' = Some ''b''"
  using Find_correct [of sample_one "''b''"] sample_one_ok by simp

end
