(* ===== verification/Discv4Backend.thy ===== *)
theory Discv4Backend
  imports Discv4Packet GoMonad KadLookup
begin

text \<open>
  The discovery backend of \<open>discovery/discv4.go\<close>. The record \<open>Backend\<close> has the fields of the Go
  struct that the protocol reads and writes, and:

  \<^item> \<open>b_heap\<close>, the \<open>Peer\<close> structs. A \<open>*Peer\<close> is an index into it, because the node map, the task queue
    and the lookups share peers and \<open>updatePeer\<close> and \<open>probeNode\<close> write to them.
  \<^item> \<open>b_chans\<close>, the unbuffered channels made by \<open>probeNode\<close> and \<open>findNodes\<close>. The callbacks send without
    waiting, so a message arrives only when the receiver is parked on the channel: the channel is
    idle, has its receiver waiting, or has handed a message to it.
  \<^item> \<open>b_handlers\<close> and \<open>b_timers\<close>, the registered callbacks by their key and the timers that remove them. A
    callback is known by the channel it sends to.
  \<^item> \<open>b_sent\<close>, the calls of the transport's \<open>WriteTo\<close>, with the packet and the address.

  The crypto and RLP libraries, the private key and the success of each \<open>WriteTo\<close> are the parameters
  in \<open>disc_env\<close>. A blocking receive lets the other goroutines run: \<open>rx\<close> is the state when the
  receive returns and the message received, \<open>None\<close> when it never returns.
\<close>

section \<open>Definitions\<close>

record ('k, 'v) disc_env =
  env_C :: "'k crypto_lib"
  env_F :: "'v fastrlp"
  env_key :: 'k
  env_WriteTo :: "(bytes \<times> string) list \<Rightarrow> bytes \<Rightarrow> string \<Rightarrow> bool"

record respMessage =
  Complete :: bool
  Payload :: bytes
  Timestamp :: "time option"

datatype chan_state = Idle | Waiting | Delivered respMessage

record Backend =
  b_heap :: "Peer list"
  b_nodes :: "(string \<times> nat) list"
  b_table :: RoutingTable
  b_handlers :: "string \<Rightarrow> nat option"
  b_timers :: "(string \<times> nat) list"
  b_chans :: "chan_state list"
  b_tasks :: "nat list"
  b_eventCh :: "string list"
  b_active :: bool
  b_inlookup :: int
  b_local :: Peer
  b_bootnodes :: "string list"
  b_sent :: "(bytes \<times> string) list"
  b_shutdown :: bool

type_synonym 'a disc = "(Backend, disc_error, 'a) cmd"
type_synonym receive = "Backend \<Rightarrow> nat \<Rightarrow> (Backend \<times> respMessage) option"

definition NewBackend :: "('k, 'v) disc_env \<Rightarrow> UDPAddr \<Rightarrow> disc_error + Backend" where
  "NewBackend env addr =
     (let pub = PublicKey (env_C env) (env_key env);
          i = EncodeToHex (drop 1 (elliptic_Marshal pub))
      in bindR (newPeer i addr 0) (\<lambda>localPeer.
         Inr \<lparr>b_heap = [], b_nodes = [],
              b_table = NewRoutingTable (LegacyKeccak256 (env_C env)) bucketSize (peer_ID localPeer) (1000 * Second)
                          (Some (LegacyKeccak256 (env_C env))),
              b_handlers = (\<lambda>_. None), b_timers = [], b_chans = [], b_tasks = [], b_eventCh = [], b_active = False,
              b_inlookup = 0, b_local = localPeer, b_bootnodes = [], b_sent = [], b_shutdown = False\<rparr>))"

definition SetBootnodes :: "string list \<Rightarrow> Backend \<Rightarrow> Backend" where
  "SetBootnodes bootnodes b = b\<lparr>b_bootnodes := bootnodes\<rparr>"

text \<open>\<open>&Peer{...}\<close>, \<open>make(chan respMessage)\<close> and what a pointer points to.\<close>

definition alloc :: "Peer \<Rightarrow> nat disc" where
  "alloc p b = Some (b\<lparr>b_heap := b_heap b @ [p]\<rparr>, Inr (length (b_heap b)))"

definition make_chan :: "nat disc" where
  "make_chan b = Some (b\<lparr>b_chans := b_chans b @ [Idle]\<rparr>, Inr (length (b_chans b)))"

definition deref :: "nat \<Rightarrow> Peer disc" where
  "deref a b = (case index (b_heap b) a of None \<Rightarrow> None | Some p \<Rightarrow> Some (b, Inr p))"

definition assign :: "nat \<Rightarrow> (Peer \<Rightarrow> Peer) \<Rightarrow> unit disc" where
  "assign a f = modify (\<lambda>b. b\<lparr>b_heap := (b_heap b)[a := f (b_heap b ! a)]\<rparr>)"

text \<open>The queue of tasks has room for 100 peers; when it is full the peer is dropped.\<close>

definition sendTask :: "nat \<Rightarrow> unit disc" where
  "sendTask peer = modify (\<lambda>b. if length (b_tasks b) < 100 then b\<lparr>b_tasks := b_tasks b @ [peer]\<rparr> else b)"

definition deliver :: "string \<Rightarrow> unit disc" where
  "deliver s = modify (\<lambda>b. if length (b_eventCh b) < 10 then b\<lparr>b_eventCh := b_eventCh b @ [s]\<rparr> else b)"

definition handler_key :: "string \<Rightarrow> byte \<Rightarrow> string" where
  "handler_key i code = i @ ''_'' @ dec_string (unat code)"

text \<open>\<open>select { case ackCh <- m: default: }\<close>\<close>

definition send_ack :: "nat \<Rightarrow> respMessage \<Rightarrow> Backend \<Rightarrow> Backend" where
  "send_ack ch m b =
     (if ch < length (b_chans b) \<and> b_chans b ! ch = Waiting then b\<lparr>b_chans := (b_chans b)[ch := Delivered m]\<rparr> else b)"

definition getCallback :: "string \<Rightarrow> byte \<Rightarrow> nat option disc" where
  "getCallback i code = gets (\<lambda>b. b_handlers b (handler_key i code))"

definition setHandler :: "string \<Rightarrow> byte \<Rightarrow> nat \<Rightarrow> unit disc" where
  "setHandler i code ackCh = modify (\<lambda>b.
     b\<lparr>b_handlers := (b_handlers b)(handler_key i code \<mapsto> ackCh),
       b_timers := b_timers b @ [(handler_key i code, ackCh)]\<rparr>)"

text \<open>The function that \<open>setHandler\<close> gives to \<open>time.AfterFunc\<close>, for the \<open>i\<close>-th timer.\<close>

definition fire_timer :: "nat \<Rightarrow> Backend \<Rightarrow> Backend" where
  "fire_timer i b =
     (if i < length (b_timers b) then
        let (key, ackCh) = b_timers b ! i
        in send_ack ackCh \<lparr>Complete = False, Payload = [], Timestamp = None\<rparr>
             (b\<lparr>b_handlers := (b_handlers b)(key := None), b_timers := take i (b_timers b) @ drop (Suc i) (b_timers b)\<rparr>)
      else b)"

definition sendPacket :: "('k, 'v) disc_env \<Rightarrow> nat \<Rightarrow> byte \<Rightarrow> rlpMessage \<Rightarrow> unit disc" where
  "sendPacket env peer code msg =
     bindS (pureP (encodePacket (env_C env) (env_F env) (env_key env) code msg)) (\<lambda>data.
     bindS (deref peer) (\<lambda>p.
     bindS (gets (\<lambda>b. env_WriteTo env (b_sent b) data (Peer_addr p))) (\<lambda>ok.
     bindS (modify (\<lambda>b. b\<lparr>b_sent := b_sent b @ [(data, Peer_addr p)]\<rparr>)) (\<lambda>_.
     if ok then ret () else fail WriteFailed))))"

definition getPeer :: "string \<Rightarrow> nat option disc" where
  "getPeer i = gets (\<lambda>b. map_of (b_nodes b) i)"

definition Backend_hasExpired :: "nat \<Rightarrow> bool disc" where
  "Backend_hasExpired a =
     bindS (deref a) (\<lambda>p.
     case peer_Last p of
       None \<Rightarrow> ret True
     | Some receivedTime \<Rightarrow>
       bindS (getPeer (peer_ID p)) (\<lambda>n.
       case n of
         None \<Rightarrow> ret True
       | Some q \<Rightarrow> bindS (deref q) (\<lambda>p. ret (Peer_hasExpired p receivedTime bondExpiration))))"

text \<open>The error of \<open>Update\<close> is ignored.\<close>

definition table_Update :: "string \<Rightarrow> unit disc" where
  "table_Update i b = (case Update (b_table b) i of None \<Rightarrow> None | Some (rt, _) \<Rightarrow> Some (b\<lparr>b_table := rt\<rparr>, Inr ()))"

definition updatePeer :: "nat \<Rightarrow> unit disc" where
  "updatePeer a =
     bindS (deref a) (\<lambda>peer.
     bindS (table_Update (peer_ID peer)) (\<lambda>_.
     bindS (getPeer (peer_ID peer)) (\<lambda>n.
     case n of
       Some q \<Rightarrow>
         bindS (assign q (\<lambda>p. p\<lparr>peer_TCP := peer_TCP peer\<rparr>)) (\<lambda>_.
         case peer_Last peer of None \<Rightarrow> ret () | Some t \<Rightarrow> assign q (\<lambda>p. p\<lparr>peer_Last := Some t\<rparr>))
     | None \<Rightarrow> modify (\<lambda>b. b\<lparr>b_nodes := b_nodes b @ [(peer_ID peer, a)]\<rparr>))))"

fun resolve :: "string list \<Rightarrow> nat list disc" where
  "resolve [] = ret []"
| "resolve (p # ps) =
     bindS (getPeer p) (\<lambda>n.
     case n of
       None \<Rightarrow> fail (PeerNotFound p)
     | Some a \<Rightarrow> bindS (resolve ps) (\<lambda>as. ret (a # as)))"

definition NearestPeersFromTarget :: "bytes \<Rightarrow> nat list disc" where
  "NearestPeersFromTarget target =
     bindS (gets b_table) (\<lambda>rt.
     bindS (pureO (NearestPeers rt (EncodeToHex target) bucketSize)) resolve)"

definition NearestPeers_local :: "nat list disc" where
  "NearestPeers_local = bindS (gets (\<lambda>b. peer_Bytes (b_local b))) NearestPeersFromTarget"

definition GetPeers :: "Backend \<Rightarrow> nat list" where
  "GetPeers b = map snd (b_nodes b)"

subsection \<open>Incoming packets\<close>

text \<open>A panic of the handlers on a message that cannot be decoded.\<close>

definition decode_or_panic :: "('k, 'v) disc_env \<Rightarrow> ('v \<Rightarrow> (rlp_error + 'm) option) \<Rightarrow> bytes \<Rightarrow> 'm option" where
  "decode_or_panic env dec data =
     Option.bind (Parse (env_F env) data) (\<lambda>v.
     Option.bind (dec v) (\<lambda>r. case r of Inl e \<Rightarrow> None | Inr m \<Rightarrow> Some m))"

definition handlePingPacket :: "('k, 'v) disc_env \<Rightarrow> time \<Rightarrow> time \<Rightarrow> bytes \<Rightarrow> bytes \<Rightarrow> nat \<Rightarrow> unit disc" where
  "handlePingPacket env now now' data mac peer =
     bindS (pureO (decode_or_panic env (pingRequest_UnmarshalRLP (env_F env)) data)) (\<lambda>req.
     if hasExpired (ping_Expiration req) now then fail PingExpired else
     bindS (deref peer) (\<lambda>p.
     bindS (attempt (sendPacket env peer pongPacket (PongResponse
       \<lparr>pong_To = toRPCEndpoint p, pong_ReplyTok = mac, pong_Expiration = Time_Unix (now' + 20 * Second)\<rparr>))
       :: (disc_error + unit) disc) (\<lambda>_.
     bindS (Backend_hasExpired peer) (\<lambda>expired.
     if expired then sendTask peer else updatePeer peer))))"

function send_neighbors :: "('k, 'v) disc_env \<Rightarrow> nat \<Rightarrow> rpcNode list \<Rightarrow> unit disc" where
  "send_neighbors env peer nodes =
     (if nodes = [] then ret ()
      else bindS (sendPacket env peer neighborsPacket (NeighborsResponse
             \<lparr>nb_Nodes = take maxNeighbors nodes, nb_Expiration = 0\<rparr>)) (\<lambda>_.
           send_neighbors env peer (drop maxNeighbors nodes)))"
  by pat_completeness auto
termination
  by (relation "measure (\<lambda>(env, peer, nodes). length nodes)") (auto simp: maxNeighbors_def)

declare send_neighbors.simps [simp del]

definition handleFindNodePacket :: "('k, 'v) disc_env \<Rightarrow> bytes \<Rightarrow> nat \<Rightarrow> unit disc" where
  "handleFindNodePacket env data peer =
     bindS (Backend_hasExpired peer) (\<lambda>expired.
     if expired then ret () else
     bindS (pureO (decode_or_panic env (findNodeRequest_UnmarshalRLP (env_F env)) data)) (\<lambda>req.
     bindS (NearestPeersFromTarget (find_Target req)) (\<lambda>peers.
     bindS (gets (\<lambda>b. map (\<lambda>a. toRPCNode (b_heap b ! a)) peers)) (\<lambda>nodes.
     send_neighbors env peer nodes))))"

definition HandlePacket :: "('k, 'v) disc_env \<Rightarrow> time \<Rightarrow> time \<Rightarrow> Packet \<Rightarrow> unit disc" where
  "HandlePacket env now now' packet =
     bindS (pureP (decodePacket (env_C env) (pkt_Buf packet))) (\<lambda>(mac, sigdata, pubkey).
     bindS (pureR (packet_peer packet pubkey)) (\<lambda>p.
     bindS (alloc p) (\<lambda>peer.
     bindS (pureO (index sigdata 0)) (\<lambda>msgcode.
     let data = drop 1 sigdata in
     bindS (getCallback (peer_ID p) msgcode) (\<lambda>callback.
     bindS (case callback of
              None \<Rightarrow> ret ()
            | Some ch \<Rightarrow> modify (send_ack ch \<lparr>Complete = True, Payload = data, Timestamp = Some (pkt_Timestamp packet)\<rparr>)) (\<lambda>_.
     if callback \<noteq> None \<and> msgcode \<noteq> pingPacket then ret ()
     else if msgcode = pingPacket then handlePingPacket env now now' data mac peer
     else if msgcode = findnodePacket then handleFindNodePacket env data peer
     else if msgcode = neighborsPacket then fail NeighborsNotExpected
     else if msgcode = pongPacket then fail (PongNotExpected (peer_UDPAddr p) (peer_ID p) (peer_Bytes p))
     else fail (CodeNotFound msgcode)))))))"


subsection \<open>Outgoing requests\<close>

definition receive_ack :: "receive \<Rightarrow> nat \<Rightarrow> respMessage disc" where
  "receive_ack rx ch b =
     (case rx (b\<lparr>b_chans := (b_chans b)[ch := Waiting]\<rparr>) ch of None \<Rightarrow> None | Some (b', m) \<Rightarrow> Some (b', Inr m))"

definition probeNode :: "('k, 'v) disc_env \<Rightarrow> receive \<Rightarrow> time \<Rightarrow> nat \<Rightarrow> bool disc" where
  "probeNode env rx now peer =
     bindS make_chan (\<lambda>ack.
     bindS (deref peer) (\<lambda>p.
     bindS (setHandler (peer_ID p) pongPacket ack) (\<lambda>_.
     bindS (gets b_local) (\<lambda>self.
     bindS (attempt (sendPacket env peer pingPacket (PingRequest
       \<lparr>ping_Version = 4, ping_From = toRPCEndpoint self, ping_To = toRPCEndpoint p,
        ping_Expiration = Time_Unix (now + 10 * Second)\<rparr>)) :: (disc_error + unit) disc) (\<lambda>_.
     bindS (receive_ack rx ack) (\<lambda>resp.
     if Complete resp then
       bindS (assign peer (\<lambda>p. p\<lparr>peer_Last := Timestamp resp\<rparr>)) (\<lambda>_.
       bindS (updatePeer peer) (\<lambda>_.
       bindS (deref peer) (\<lambda>p.
       bindS (deliver (Peer_Enode p)) (\<lambda>_. ret True))))
     else ret False))))))"

text \<open>One round of \<open>probeTask\<close>: it takes the oldest task, if there is one.\<close>

definition probeTask :: "('k, 'v) disc_env \<Rightarrow> receive \<Rightarrow> time \<Rightarrow> bool disc" where
  "probeTask env rx now =
     bindS (gets b_tasks) (\<lambda>tasks.
     case tasks of
       [] \<Rightarrow> ret False
     | task # rest \<Rightarrow> bindS (modify (\<lambda>b. b\<lparr>b_tasks := rest\<rparr>)) (\<lambda>_. probeNode env rx now task))"

text \<open>\<open>perm\<close> is the result of \<open>rand.Perm\<close>.\<close>

fun pick_peer :: "RoutingTable \<Rightarrow> nat list \<Rightarrow> string" where
  "pick_peer rt [] = ''''"
| "pick_peer rt (i # is) =
     (let bucket = Buckets rt ! i
      in if Bucket_Len bucket \<noteq> 0 then Bucket_Peers bucket ! (Bucket_Len bucket - 1) else pick_peer rt is)"

definition revalidatePeer :: "('k, 'v) disc_env \<Rightarrow> receive \<Rightarrow> nat list \<Rightarrow> time \<Rightarrow> unit disc" where
  "revalidatePeer env rx perm now =
     bindS (gets (\<lambda>b. pick_peer (b_table b) perm)) (\<lambda>i.
     bindS (getPeer i) (\<lambda>n.
     case n of None \<Rightarrow> ret () | Some peer \<Rightarrow> bindS (probeNode env rx now peer) (\<lambda>_. ret ())))"

fun toPeers :: "rpcNode list \<Rightarrow> disc_error + Peer list" where
  "toPeers [] = Inr []"
| "toPeers (n # ns) = bindR (toPeer n) (\<lambda>p. bindR (toPeers ns) (\<lambda>ps. Inr (p # ps)))"

definition alloc_all :: "Peer list \<Rightarrow> nat list disc" where
  "alloc_all ps b = Some (b\<lparr>b_heap := b_heap b @ ps\<rparr>, Inr [length (b_heap b)..<length (b_heap b) + length ps])"

text \<open>The loop over the responses: it ends with the first timeout, or when there are exactly
  \<open>bucketSize\<close> peers.\<close>

partial_function (option) find_loop ::
  "('k, 'v) disc_env \<Rightarrow> receive \<Rightarrow> nat \<Rightarrow> nat list \<Rightarrow> bool \<Rightarrow> Backend \<Rightarrow> (Backend \<times> (disc_error + nat list \<times> bool)) option" where
  "find_loop env rx ack peers atLeastOne b =
     Option.bind (receive_ack rx ack b) (\<lambda>(b, r). case r of Inl e \<Rightarrow> Some (b, Inl e) | Inr resp \<Rightarrow>
     if Complete resp then
       Option.bind (decode_or_panic env (neighborsResponse_UnmarshalRLP (env_F env)) (Payload resp)) (\<lambda>neighbors.
       case toPeers (nb_Nodes neighbors) of
         Inl e \<Rightarrow> Some (b, Inl e)
       | Inr ps \<Rightarrow>
         Option.bind (alloc_all ps b) (\<lambda>(b, q). case q of Inl e \<Rightarrow> Some (b, Inl e) | Inr new \<Rightarrow>
         if int (length (peers @ new)) = bucketSize then Some (b, Inr (peers @ new, True))
         else find_loop env rx ack (peers @ new) True b))
     else Some (b, Inr (peers, atLeastOne)))"

fun sendTasks :: "nat list \<Rightarrow> unit disc" where
  "sendTasks [] = ret ()"
| "sendTasks (p # ps) = bindS (sendTask p) (\<lambda>_. sendTasks ps)"

text \<open>The first part of \<open>findNodes\<close>: a peer whose bond has expired is probed, and must probe back.\<close>

definition bond :: "('k, 'v) disc_env \<Rightarrow> receive \<Rightarrow> time \<Rightarrow> nat \<Rightarrow> unit disc" where
  "bond env rx now peer =
     bindS (Backend_hasExpired peer) (\<lambda>expired.
     if \<not> expired then ret () else
     bindS (probeNode env rx now peer) (\<lambda>ok.
     if \<not> ok then fail FailedToProbe else
     bindS make_chan (\<lambda>ack.
     bindS (deref peer) (\<lambda>p.
     bindS (setHandler (peer_ID p) pingPacket ack) (\<lambda>_.
     bindS (receive_ack rx ack) (\<lambda>resp.
     if Complete resp then ret () else fail NoProbeBack))))))"

text \<open>The argument \<open>target\<close> of \<open>findNodes\<close> is not used: the request asks for the local key.\<close>

definition findNodes :: "('k, 'v) disc_env \<Rightarrow> receive \<Rightarrow> time \<Rightarrow> nat \<Rightarrow> bytes \<Rightarrow> nat list disc" where
  "findNodes env rx now peer target =
     bindS (bond env rx now peer) (\<lambda>_.
     bindS make_chan (\<lambda>ack.
     bindS (deref peer) (\<lambda>p.
     bindS (setHandler (peer_ID p) neighborsPacket ack) (\<lambda>_.
     bindS (gets (\<lambda>b. peer_Bytes (b_local b))) (\<lambda>self.
     bindS (attempt (sendPacket env peer findnodePacket (FindNodeRequest
       \<lparr>find_Target = self, find_Expiration = Time_Unix (now + 20 * Second)\<rparr>)) :: (disc_error + unit) disc) (\<lambda>_.
     bindS (find_loop env rx ack [] False) (\<lambda>(peers, atLeastOne).
     if \<not> atLeastOne then fail FailedToGetPeers else
     bindS (sendTasks peers) (\<lambda>_. ret peers))))))))"

subsection \<open>Lookups\<close>

text \<open>The queue and the peers asked whose reply has not come, by address, and the identifiers seen.\<close>

record lookup =
  lk_queue :: "nat list"
  lk_visited :: "string list"
  lk_pending :: "nat list"

text \<open>\<open>peer, queue = queue[0], queue[1:]; findNodes(peer)\<close>\<close>

definition lookup_ask :: "lookup \<Rightarrow> lookup" where
  "lookup_ask L = L\<lparr>lk_queue := tl (lk_queue L), lk_pending := lk_pending L @ [hd (lk_queue L)]\<rparr>"

text \<open>The seed loop compares \<open>i\<close> with the length of the queue that it shortens.\<close>

function lookup_seed :: "nat \<Rightarrow> lookup \<Rightarrow> lookup" where
  "lookup_seed i L = (if i < min (length (lk_queue L)) alpha then lookup_seed (Suc i) (lookup_ask L) else L)"
  by pat_completeness auto
termination
  by (relation "measure (\<lambda>(i, L). alpha - i)") auto

declare lookup_seed.simps [simp del]

function lookup_fill :: "lookup \<Rightarrow> lookup" where
  "lookup_fill L = (if length (lk_pending L) < alpha \<and> lk_queue L \<noteq> [] then lookup_fill (lookup_ask L) else L)"
  by pat_completeness auto
termination
  by (relation "measure (\<lambda>L. length (lk_queue L))") (auto simp: lookup_ask_def)

declare lookup_fill.simps [simp del]

fun lookup_visit :: "(string \<times> nat) list \<Rightarrow> lookup \<Rightarrow> lookup" where
  "lookup_visit [] L = L"
| "lookup_visit ((i, p) # nodes) L =
     lookup_visit nodes
       (if i \<in> set (lk_visited L) then L
        else L\<lparr>lk_visited := lk_visited L @ [i], lk_queue := lk_queue L @ [p]\<rparr>)"

text \<open>The reply of the \<open>k\<close>-th pending request.\<close>

definition lookup_reply :: "nat \<Rightarrow> (string \<times> nat) list \<Rightarrow> lookup \<Rightarrow> lookup" where
  "lookup_reply k nodes L =
     lookup_fill (lookup_visit nodes (L\<lparr>lk_pending := take k (lk_pending L) @ drop (Suc k) (lk_pending L)\<rparr>))"

text \<open>\<open>sel\<close> says which pending request replies next, \<open>None\<close> when the select takes the shutdown. The
  goroutine of a request runs when its reply is taken; what runs meanwhile is in \<open>rx\<close>.\<close>

partial_function (option) lookup_loop ::
  "('k, 'v) disc_env \<Rightarrow> receive \<Rightarrow> (Backend \<Rightarrow> nat list \<Rightarrow> nat option) \<Rightarrow> time \<Rightarrow> bytes \<Rightarrow> lookup \<Rightarrow> Backend \<Rightarrow>
   (Backend \<times> string list option) option" where
  "lookup_loop env rx sel now target L b =
     (if lk_pending L = [] then Some (b, Some (lk_visited L))
      else case sel b (lk_pending L) of
        None \<Rightarrow> Some (b, None)
      | Some k \<Rightarrow>
        Option.bind (index (lk_pending L) k) (\<lambda>p.
        Option.bind (findNodes env rx now p target b) (\<lambda>(b, r).
        let nodes = (case r of Inl e \<Rightarrow> [] | Inr as \<Rightarrow> as)
        in lookup_loop env rx sel now target
             (lookup_reply k (map (\<lambda>a. (peer_ID (b_heap b ! a), a)) nodes) L) b)))"

text \<open>The identifiers visited are a map, which is read in no particular order.\<close>

fun discovered :: "string list \<Rightarrow> nat list disc" where
  "discovered [] = ret []"
| "discovered (i # is) =
     bindS (getPeer i) (\<lambda>n.
     case n of None \<Rightarrow> fail NotDiscovered | Some p \<Rightarrow> bindS (discovered is) (\<lambda>ps. ret (p # ps)))"

definition lookup_run :: "('k, 'v) disc_env \<Rightarrow> receive \<Rightarrow> (Backend \<Rightarrow> nat list \<Rightarrow> nat option) \<Rightarrow> time \<Rightarrow> bytes \<Rightarrow> nat list disc" where
  "lookup_run env rx sel now target =
     bindS (gets b_active) (\<lambda>active.
     if \<not> active then ret [] else
     bindS (NearestPeersFromTarget target) (\<lambda>queue.
     bindS (\<lambda>b. case lookup_loop env rx sel now target
                   (lookup_seed 0 \<lparr>lk_queue = queue, lk_visited = [], lk_pending = []\<rparr>) b of
                 None \<Rightarrow> None | Some (b, v) \<Rightarrow> Some (b, Inr v)) (\<lambda>visited.
     case visited of None \<Rightarrow> ret [] | Some is \<Rightarrow> discovered is)))"

definition LookupTarget :: "('k, 'v) disc_env \<Rightarrow> receive \<Rightarrow> (Backend \<Rightarrow> nat list \<Rightarrow> nat option) \<Rightarrow> time \<Rightarrow> bytes \<Rightarrow> nat list disc" where
  "LookupTarget env rx sel now target =
     bindS (gets b_inlookup) (\<lambda>inlookup.
     if inlookup = 1 then ret [] else
     bindS (attempt (lookup_run env rx sel now target)) (\<lambda>r.
     bindS (modify (\<lambda>b. b\<lparr>b_inlookup := 0\<rparr>)) (\<lambda>_. pureR r)))"

definition Lookup :: "('k, 'v) disc_env \<Rightarrow> receive \<Rightarrow> (Backend \<Rightarrow> nat list \<Rightarrow> nat option) \<Rightarrow> time \<Rightarrow> nat list disc" where
  "Lookup env rx sel now = bindS (gets (\<lambda>b. peer_Bytes (b_local b))) (LookupTarget env rx sel now)"

text \<open>\<open>t\<close> is the array of 64 random bytes.\<close>

definition LookupRandom :: "('k, 'v) disc_env \<Rightarrow> receive \<Rightarrow> (Backend \<Rightarrow> nat list \<Rightarrow> nat option) \<Rightarrow> time \<Rightarrow> bytes \<Rightarrow> nat list disc" where
  "LookupRandom env rx sel now t = LookupTarget env rx sel now t"

definition Backend_Close :: "Backend \<Rightarrow> Backend option" where
  "Backend_Close b = (if b_shutdown b then None else Some (b\<lparr>b_shutdown := True\<rparr>))"

end
