(* ===== verification/Discv4Inv.thy ===== *)
theory Discv4Inv
  imports Discv4Backend
begin

text \<open>
  The invariant of the discovery backend, and that every operation keeps it whatever the other
  goroutines do while it waits. The relation \<open>disc_run\<close> is the closure of the operations; a
  receive lets any such run happen before it returns.
\<close>

section \<open>The invariant\<close>

text \<open>
  Every member of the routing table has its peer in the node map, every entry of the map points to the
  peer with that identifier, all peers have well-formed identifiers, handlers and timers know only
  existing channels, and the two buffered channels hold no more than their capacity.
\<close>

definition nodes_ok :: "Backend \<Rightarrow> bool" where
  "nodes_ok b \<longleftrightarrow> distinct (map fst (b_nodes b)) \<and>
     (\<forall>(i, a) \<in> set (b_nodes b). a < length (b_heap b) \<and> peer_ID (b_heap b ! a) = i)"

definition peers_ok :: "Backend \<Rightarrow> bool" where
  "peers_ok b \<longleftrightarrow> (\<forall>p \<in> set (b_heap b). peer_ok p) \<and> peer_ok (b_local b)"

definition table_covered :: "Backend \<Rightarrow> bool" where
  "table_covered b \<longleftrightarrow> table_ok (b_table b) \<and> peers_of (b_table b) \<subseteq> dom (map_of (b_nodes b))"

definition chans_ok :: "Backend \<Rightarrow> bool" where
  "chans_ok b \<longleftrightarrow> (\<forall>k c. b_handlers b k = Some c \<longrightarrow> c < length (b_chans b)) \<and>
     (\<forall>(k, c) \<in> set (b_timers b). c < length (b_chans b))"

definition queues_ok :: "Backend \<Rightarrow> bool" where
  "queues_ok b \<longleftrightarrow> (\<forall>a \<in> set (b_tasks b). a < length (b_heap b)) \<and> length (b_tasks b) \<le> 100 \<and> length (b_eventCh b) \<le> 10"

definition backend_ok :: "Backend \<Rightarrow> bool" where
  "backend_ok b \<longleftrightarrow> table_covered b \<and> nodes_ok b \<and> peers_ok b \<and> chans_ok b \<and> queues_ok b"

lemmas backend_ok_defs = backend_ok_def table_covered_def nodes_ok_def peers_ok_def chans_ok_def queues_ok_def

text \<open>A channel whose receiver waits and that neither a handler nor a timer knows.\<close>

definition orphan :: "nat \<Rightarrow> Backend \<Rightarrow> bool" where
  "orphan c b \<longleftrightarrow> c < length (b_chans b) \<and> b_chans b ! c = Waiting \<and>
     (\<forall>k. b_handlers b k \<noteq> Some c) \<and> c \<notin> snd ` set (b_timers b)"

text \<open>The invariant with what a goroutine knows of the heap: its first \<open>n\<close> peers and \<open>k\<close> channels exist,
  and the channels in \<open>S\<close> are orphans.\<close>

definition binv :: "nat \<Rightarrow> nat \<Rightarrow> nat set \<Rightarrow> Backend \<Rightarrow> bool" where
  "binv n k S b \<longleftrightarrow> backend_ok b \<and> n \<le> length (b_heap b) \<and> k \<le> length (b_chans b) \<and> (\<forall>c \<in> S. orphan c b)"

lemma invD: "binv n k S b \<Longrightarrow> backend_ok b" "binv n k S b \<Longrightarrow> n \<le> length (b_heap b)"
    "binv n k S b \<Longrightarrow> k \<le> length (b_chans b)" "binv n k S b \<Longrightarrow> c \<in> S \<Longrightarrow> orphan c b"
  by (simp_all add: binv_def)

lemma inv_mono: "binv n k S b \<Longrightarrow> m \<le> n \<Longrightarrow> j \<le> k \<Longrightarrow> binv m j S b"
  by (simp add: binv_def)

text \<open>An update that touches only fields the invariant does not mention.\<close>

lemma inv_other [simp]:
  "binv n k S (b\<lparr>b_sent := x\<rparr>) = binv n k S b" "binv n k S (b\<lparr>b_inlookup := y\<rparr>) = binv n k S b"
  "binv n k S (b\<lparr>b_active := z\<rparr>) = binv n k S b" "binv n k S (b\<lparr>b_bootnodes := w\<rparr>) = binv n k S b"
  "binv n k S (b\<lparr>b_shutdown := v\<rparr>) = binv n k S b"
  by (simp_all add: binv_def backend_ok_defs orphan_def)

section \<open>The operations on the heap and the queues\<close>

abbreviation tot :: "nat \<Rightarrow> nat \<Rightarrow> nat set \<Rightarrow> 'a disc \<Rightarrow> bool" where
  "tot n k S m \<equiv> total (binv n k S) m (inv_post (binv n k S))"

abbreviation kept :: "nat \<Rightarrow> nat \<Rightarrow> nat set \<Rightarrow> 'a disc \<Rightarrow> bool" where
  "kept n k S m \<equiv> keeps (binv n k S) m (inv_post (binv n k S))"

lemma inv_heap_append:
  assumes "\<forall>p \<in> set ps. peer_ok p" and "binv n k S b"
  shows "binv (length (b_heap b) + length ps) k S (b\<lparr>b_heap := b_heap b @ ps\<rparr>)"
proof -
  let ?b = "b\<lparr>b_heap := b_heap b @ ps\<rparr>"
  have ok: "backend_ok b" "k \<le> length (b_chans b)" "\<forall>c \<in> S. orphan c b" using assms(2) by (simp_all add: binv_def)
  have "nodes_ok ?b" using ok(1) by (auto simp: backend_ok_def nodes_ok_def nth_append)
  moreover have "queues_ok ?b" using ok(1) by (fastforce simp: backend_ok_def queues_ok_def)
  moreover have "peers_ok ?b" using ok(1) assms(1) by (auto simp: backend_ok_def peers_ok_def)
  ultimately have "backend_ok ?b" using ok(1) by (simp add: backend_ok_def table_covered_def chans_ok_def)
  then show ?thesis using ok(2,3) by (simp add: binv_def orphan_def)
qed

lemma tot_alloc:
  assumes "peer_ok p" and "\<And>a. n \<le> a \<Longrightarrow> tot (Suc a) k S (f a)"
  shows "tot n k S (bindS (alloc p) f)"
proof (rule totalI)
  fix b assume b: "binv n k S b"
  let ?b = "b\<lparr>b_heap := b_heap b @ [p]\<rparr>" and ?a = "length (b_heap b)"
  have "binv (Suc ?a) k S ?b" using inv_heap_append [OF _ b, of "[p]"] assms(1) by simp
  moreover have "n \<le> ?a" using b by (rule invD)
  ultimately obtain b' r where "f ?a ?b = Some (b', r)" "binv (Suc ?a) k S b'"
    using totalD [OF assms(2) [of ?a]] by blast
  then show "\<exists>b' r. bindS (alloc p) f b = Some (b', r) \<and> binv n k S b'"
    using \<open>n \<le> ?a\<close> inv_mono [of "Suc ?a" k S b' n k] by (simp add: bindS_def alloc_def)
qed

lemma keeps_make_chan:
  assumes "\<And>c. k \<le> c \<Longrightarrow> c \<notin> S \<Longrightarrow> keeps (binv n (Suc c) S) (f c) Q"
  shows "keeps (binv n k S) (bindS make_chan f) Q"
proof (rule keepsI)
  fix b b' r assume b: "binv n k S b" and run: "bindS make_chan f b = Some (b', r)"
  let ?b = "b\<lparr>b_chans := b_chans b @ [Idle]\<rparr>" and ?c = "length (b_chans b)"
  have "binv n (Suc ?c) S ?b" using b
    by (auto simp: binv_def backend_ok_defs orphan_def nth_append less_Suc_eq split: prod.splits)
  moreover have "k \<le> ?c" using b by (rule invD)
  moreover have "?c \<notin> S" using invD(4) [OF b] by (auto simp: orphan_def)
  ultimately show "Q r b'"
    using run keepsD [OF assms [of ?c], of ?b] by (simp add: bindS_def make_chan_def)
qed

lemma kept_make_chan:
  assumes "\<And>c. k \<le> c \<Longrightarrow> c \<notin> S \<Longrightarrow> kept n (Suc c) S (f c)" shows "kept n k S (bindS make_chan f)"
proof (rule keeps_make_chan)
  fix c assume "k \<le> c" and "c \<notin> S"
  then show "keeps (binv n (Suc c) S) (f c) (inv_post (binv n k S))"
    by (intro keeps_weaken [OF assms [of c]]) (auto elim!: inv_mono)
qed

lemma tot_deref:
  assumes "a < n" and "\<And>p. peer_ok p \<Longrightarrow> tot n k S (f p)" shows "tot n k S (bindS (deref a) f)"
proof (rule totalI)
  fix b assume b: "binv n k S b"
  then have "a < length (b_heap b)" "peer_ok (b_heap b ! a)" using assms(1) by (auto simp: binv_def backend_ok_defs)
  then show "\<exists>b' r. bindS (deref a) f b = Some (b', r) \<and> binv n k S b'"
    using totalD [OF assms(2) b] by (simp add: bindS_def deref_def)
qed

lemma inv_assign:
  assumes "binv n k S b" and "\<And>p. peer_ID (f p) = peer_ID p \<and> peer_Bytes (f p) = peer_Bytes p"
  shows "binv n k S (b\<lparr>b_heap := (b_heap b)[a := f (b_heap b ! a)]\<rparr>)"
proof -
  have ok: "peer_ok (f p) = peer_ok p" for p using assms(2) [of p] by (simp add: peer_ok_def)
  have all: "\<forall>p \<in> set (b_heap b). peer_ok p" using assms(1) by (simp add: binv_def backend_ok_def peers_ok_def)
  have "\<forall>p \<in> set ((b_heap b)[a := f (b_heap b ! a)]). peer_ok p"
  proof (cases "a < length (b_heap b)")
    case True
    then have "peer_ok (f (b_heap b ! a))" using all ok by simp
    then show ?thesis using all set_update_subset_insert [of "b_heap b" a "f (b_heap b ! a)"] by blast
  qed (use all in \<open>simp add: list_update_beyond not_less\<close>)
  moreover have "peer_ID ((b_heap b)[a := f (b_heap b ! a)] ! c) = peer_ID (b_heap b ! c)" for c
    using assms(2) by (cases "a < length (b_heap b)") (auto simp: nth_list_update list_update_beyond not_less)
  ultimately show ?thesis using assms(1) by (simp add: binv_def backend_ok_defs orphan_def)
qed

lemma tot_assign:
  "(\<And>p. peer_ID (f p) = peer_ID p \<and> peer_Bytes (f p) = peer_Bytes p) \<Longrightarrow> tot n k S (assign a f)"
  unfolding assign_def by (rule total_modify) (rule inv_assign)

lemma tot_sendTask: "a < n \<Longrightarrow> tot n k S (sendTask a)"
  unfolding sendTask_def by (rule total_modify) (auto simp: binv_def backend_ok_defs orphan_def)

lemma tot_sendTasks: "\<forall>a \<in> set as. a < n \<Longrightarrow> tot n k S (sendTasks as)"
  by (induction "as") (auto intro!: total_rules tot_sendTask)

lemma tot_deliver: "tot n k S (deliver s)"
  unfolding deliver_def by (rule total_modify) (auto simp: binv_def backend_ok_defs orphan_def)

lemma tot_setHandler: "c < k \<Longrightarrow> c \<notin> S \<Longrightarrow> tot n k S (setHandler i code c)"
  unfolding setHandler_def by (rule total_modify) (auto simp: binv_def backend_ok_defs orphan_def)

lemma inv_send_ack: "binv n k S b \<Longrightarrow> c \<notin> S \<Longrightarrow> binv n k S (send_ack c m b)"
  by (auto simp: send_ack_def binv_def backend_ok_defs orphan_def nth_list_update)

lemma inv_drop_timers:
  assumes "binv n k S b" and "set ts \<subseteq> set (b_timers b)"
  shows "binv n k S (b\<lparr>b_handlers := (b_handlers b)(key := None), b_timers := ts\<rparr>)" (is "binv n k S ?b")
proof -
  have "chans_ok ?b" using assms by (simp add: binv_def backend_ok_def chans_ok_def) blast
  then have "backend_ok ?b" using assms(1)
    by (simp add: binv_def backend_ok_def table_covered_def nodes_ok_def peers_ok_def queues_ok_def)
  moreover have "orphan c ?b" if "c \<in> S" for c using invD(4) [OF assms(1) that] assms(2) by (auto simp: orphan_def)
  ultimately show ?thesis using assms(1) by (simp add: binv_def)
qed

lemma inv_fire_timer: "binv n k S b \<Longrightarrow> binv n k S (fire_timer i b)"
proof (cases "i < length (b_timers b)")
  case True
  assume b: "binv n k S b"
  obtain key c where kc: "b_timers b ! i = (key, c)" by fastforce
  let ?ts = "take i (b_timers b) @ drop (Suc i) (b_timers b)"
  have sub: "set ?ts \<subseteq> set (b_timers b)" using set_take_subset set_drop_subset by (fastforce)
  have "(key, c) \<in> set (b_timers b)" using True kc nth_mem by metis
  then have "c \<notin> S" using b by (force simp: binv_def orphan_def)
  moreover have "binv n k S (b\<lparr>b_handlers := (b_handlers b)(key := None), b_timers := ?ts\<rparr>)"
    using b sub by (rule inv_drop_timers)
  ultimately show ?thesis using True kc by (simp add: fire_timer_def inv_send_ack)
qed (simp add: fire_timer_def)


section \<open>The operations on nodes and the table\<close>

lemma Sign_returns: "crypto_laws C \<Longrightarrow> Sign C priv h \<noteq> None"
  using crypto_laws.SignCompact_Recover [of C priv h] by (fastforce simp: Sign_def Let_def split: option.splits)

lemma encodePacket_returns: "crypto_laws C \<Longrightarrow> encodePacket C F priv code m \<noteq> None"
  using Sign_returns [of C priv] by (auto simp: encodePacket_def Let_def liftC_def bindP_def split: option.splits sum.splits)

lemma tot_pureP: "x \<noteq> None \<Longrightarrow> tot n k S (pureP x)"
  by (auto simp: total_def pureP_def)

lemma tot_sendPacket:
  assumes "crypto_laws (env_C env)" and "a < n" shows "tot n k S (sendPacket env a code msg)"
  unfolding sendPacket_def
  by (intro total_rules tot_deref tot_pureP encodePacket_returns assms) simp

lemma getPeer_bound:
  assumes "binv n k S b" and "map_of (b_nodes b) i = Some a"
  shows "a < length (b_heap b)" "peer_ID (b_heap b ! a) = i"
  using assms map_of_SomeD [OF assms(2)] by (auto simp: binv_def backend_ok_def nodes_ok_def)

text \<open>What a lookup in the node map finds exists, although it need not be one of the first \<open>n\<close> peers.\<close>

lemma tot_getPeer:
  assumes "tot n k S (f None)" and "\<And>a m. n \<le> m \<Longrightarrow> a < m \<Longrightarrow> tot m k S (f (Some a))"
  shows "tot n k S (bindS (getPeer i) f)"
proof (rule totalI)
  fix b assume b: "binv n k S b"
  show "\<exists>b' r. bindS (getPeer i) f b = Some (b', r) \<and> binv n k S b'"
  proof (cases "map_of (b_nodes b) i")
    case None
    then show ?thesis using totalD [OF assms(1) b] by (simp add: getPeer_def)
  next
    case (Some a)
    let ?m = "length (b_heap b)"
    have "n \<le> ?m" and "a < ?m" using invD(2) [OF b] getPeer_bound [OF b Some] by auto
    moreover from b have "binv ?m k S b" by (simp add: binv_def)
    ultimately obtain b' r where "f (Some a) b = Some (b', r)" "binv ?m k S b'" using totalD [OF assms(2)] by blast
    then show ?thesis using Some inv_mono [of ?m k S b' n k] \<open>n \<le> ?m\<close> by (simp add: getPeer_def)
  qed
qed

lemma tot_Backend_hasExpired:
  assumes "a < n" shows "tot n k S (Backend_hasExpired a)"
  unfolding Backend_hasExpired_def
proof (rule tot_deref [OF assms])
  fix p
  have known: "tot n k S (bindS (getPeer (peer_ID p)) (\<lambda>q. case q of None \<Rightarrow> ret True
      | Some q \<Rightarrow> bindS (deref q) (\<lambda>p. ret (Peer_hasExpired p t bondExpiration))))" for t
    by (rule tot_getPeer) (auto intro!: total_rules tot_deref)
  show "tot n k S (case peer_Last p of None \<Rightarrow> ret True | Some t \<Rightarrow> bindS (getPeer (peer_ID p)) (\<lambda>q. case q of None \<Rightarrow> ret True
      | Some q \<Rightarrow> bindS (deref q) (\<lambda>p. ret (Peer_hasExpired p t bondExpiration))))"
    by (cases "peer_Last p") (simp_all add: total_simple known)
qed

text \<open>The table may get ahead of the node map by the peer that is being added.\<close>

lemma updatePeer_step:
  assumes "binv n k S b" and "a < length (b_heap b)"
  shows "\<exists>b' r. updatePeer a b = Some (b', r) \<and> binv n k S b'"
proof -
  define p where "p = b_heap b ! a"
  define i where "i = peer_ID p"
  define nodes where "nodes = (if i \<in> dom (map_of (b_nodes b)) then b_nodes b else b_nodes b @ [(i, a)])"
  have cov: "table_ok (b_table b)" "peers_of (b_table b) \<subseteq> dom (map_of nodes)" "i \<in> dom (map_of nodes)"
    using assms(1) by (auto simp: nodes_def binv_def backend_ok_defs)
  obtain rt r where upd: "Update (b_table b) i = Some (rt, r)" "table_ok rt" "peers_of rt \<subseteq> dom (map_of nodes)"
    by (rule kad.upd_covered [OF cov])
  let ?b = "b\<lparr>b_table := rt, b_nodes := nodes\<rparr>"
  have new: "i \<notin> fst ` set (b_nodes b)" if "i \<notin> dom (map_of (b_nodes b))" using that by (simp add: dom_map_of_conv_image_fst)
  have "nodes_ok ?b" using assms new by (auto simp: binv_def backend_ok_def nodes_ok_def nodes_def i_def p_def)
  then have b: "binv n k S ?b" using assms(1) upd(2,3) by (simp add: binv_def backend_ok_defs orphan_def)
  show ?thesis
  proof (cases "map_of (b_nodes b) i")
    case None
    then have "nodes = b_nodes b @ [(i, a)]" by (simp add: nodes_def domIff)
    then show ?thesis using assms(2) upd(1) b None
      by (simp add: updatePeer_def bindS_def deref_def table_Update_def getPeer_def flip: p_def i_def)
  next
    case (Some q)
    then have nodes: "nodes = b_nodes b" by (auto simp: nodes_def)
    from b have rt: "binv n k S (b\<lparr>b_table := rt\<rparr>)" by (simp add: nodes)
    have "tot n k S (bindS (assign q (\<lambda>x. x\<lparr>peer_TCP := peer_TCP p\<rparr>)) (\<lambda>_. case peer_Last p of None \<Rightarrow> ret ()
        | Some t \<Rightarrow> assign q (\<lambda>x. x\<lparr>peer_Last := Some t\<rparr>)))"
      by (intro total_rules tot_assign) (auto split: option.split intro!: total_rules tot_assign)
    moreover have "updatePeer a b = bindS (assign q (\<lambda>x. x\<lparr>peer_TCP := peer_TCP p\<rparr>)) (\<lambda>_. case peer_Last p of None \<Rightarrow> ret ()
        | Some t \<Rightarrow> assign q (\<lambda>x. x\<lparr>peer_Last := Some t\<rparr>)) (b\<lparr>b_table := rt\<rparr>)"
      using assms(2) upd(1) Some
      by (simp add: updatePeer_def bindS_eval deref_def table_Update_def getPeer_def flip: p_def i_def)
    ultimately show ?thesis using totalD rt by metis
  qed
qed

lemma tot_updatePeer: "a < n \<Longrightarrow> tot n k S (updatePeer a)"
  by (rule totalI, rule updatePeer_step, assumption) (erule less_le_trans, erule invD)

text \<open>Every answer of the table is resolved.\<close>

lemma resolve_known:
  "set ps \<subseteq> dom (map_of (b_nodes b)) \<Longrightarrow> resolve ps b = Some (b, Inr (map (\<lambda>p. the (map_of (b_nodes b) p)) ps))"
proof (induction ps)
  case (Cons p ps)
  then obtain a where "map_of (b_nodes b) p = Some a" by auto
  with Cons show ?case by (simp add: getPeer_def bindS_def)
qed simp

lemma NearestPeersFromTarget_known:
  assumes "backend_ok b"
  obtains ps where "NearestPeersFromTarget target b = Some (b, Inr (map (\<lambda>p. the (map_of (b_nodes b) p)) ps))"
    "NearestPeers (b_table b) (EncodeToHex target) bucketSize = Some ps"
    "distinct ps" "set ps \<subseteq> dom (map_of (b_nodes b))" "length ps \<le> 16"
proof -
  have cov: "table_ok (b_table b)" "peers_of (b_table b) \<subseteq> dom (map_of (b_nodes b))" "0 \<le> bucketSize"
    using assms by (auto simp: backend_ok_defs bucketSize_def)
  obtain ps where ps: "NearestPeers (b_table b) (EncodeToHex target) bucketSize = Some ps" "distinct ps"
    "set ps \<subseteq> dom (map_of (b_nodes b))" "int (length ps) \<le> bucketSize" by (rule kad.near_resolves [OF cov])
  then have "NearestPeersFromTarget target b = Some (b, Inr (map (\<lambda>p. the (map_of (b_nodes b) p)) ps))"
    by (simp add: NearestPeersFromTarget_def resolve_known)
  then show ?thesis using ps by (intro that [of ps]) (simp_all add: bucketSize_def)
qed

lemma tot_NearestPeersFromTarget: "tot n k S (NearestPeersFromTarget target)"
proof (rule totalI)
  fix b assume b: "binv n k S b"
  obtain ps where "NearestPeersFromTarget target b = Some (b, Inr (map (\<lambda>p. the (map_of (b_nodes b) p)) ps))"
    by (rule NearestPeersFromTarget_known [OF invD(1) [OF b]])
  then show "\<exists>b' r. NearestPeersFromTarget target b = Some (b', r) \<and> binv n k S b'" using b by simp
qed


section \<open>Incoming packets\<close>

lemma tot_pureO: "x \<noteq> None \<Longrightarrow> tot n k S (pureO x)"
  by (auto simp: total_def pureO_def)

lemma tot_send_neighbors:
  assumes "crypto_laws (env_C env)" and "a < n" shows "tot n k S (send_neighbors env a nodes)"
proof (induction nodes rule: length_induct)
  case (1 nodes)
  have "tot n k S (send_neighbors env a (drop maxNeighbors nodes))" if "nodes \<noteq> []"
    using 1 that by (simp add: maxNeighbors_def)
  then show ?case
    by (subst send_neighbors.simps) (intro total_rules tot_sendPacket assms)
qed

lemma tot_ping_reply:
  assumes "crypto_laws (env_C env)" and "a < n"
  shows "tot n k S (bindS (deref a) (\<lambda>p.
     bindS (attempt (sendPacket env a pongPacket (m p)) :: (disc_error + unit) disc) (\<lambda>_.
     bindS (Backend_hasExpired a) (\<lambda>expired. if expired then sendTask a else updatePeer a))))"
  by (intro tot_deref total_rules tot_sendPacket tot_Backend_hasExpired tot_sendTask tot_updatePeer assms)

lemma tot_handlePingPacket:
  assumes "crypto_laws (env_C env)" and "a < n"
    and "decode_or_panic env (pingRequest_UnmarshalRLP (env_F env)) data \<noteq> None"
  shows "tot n k S (handlePingPacket env now now' data mac a)"
  unfolding handlePingPacket_def by (intro total_rules tot_pureO tot_ping_reply assms)

lemma kept_handlePingPacket:
  assumes "crypto_laws (env_C env)" and "a < n" shows "kept n k S (handlePingPacket env now now' data mac a)"
  unfolding handlePingPacket_def by (intro keeps_rules total_keeps [OF tot_ping_reply] assms)

lemma tot_handleFindNodePacket:
  assumes "crypto_laws (env_C env)" and "a < n"
    and "decode_or_panic env (findNodeRequest_UnmarshalRLP (env_F env)) data \<noteq> None"
  shows "tot n k S (handleFindNodePacket env data a)"
  unfolding handleFindNodePacket_def
  by (intro total_rules tot_pureO tot_Backend_hasExpired tot_NearestPeersFromTarget tot_send_neighbors assms)

lemma kept_handleFindNodePacket:
  assumes "crypto_laws (env_C env)" and "a < n" shows "kept n k S (handleFindNodePacket env data a)"
  unfolding handleFindNodePacket_def
  by (intro keeps_rules total_keeps [OF tot_Backend_hasExpired] total_keeps [OF tot_NearestPeersFromTarget]
      total_keeps [OF tot_send_neighbors] assms)

lemma kept_alloc:
  assumes "peer_ok p" and "\<And>a. n \<le> a \<Longrightarrow> kept (Suc a) k S (f a)"
  shows "kept n k S (bindS (alloc p) f)"
proof (rule keepsI)
  fix b b' r assume b: "binv n k S b" and run: "bindS (alloc p) f b = Some (b', r)"
  let ?b = "b\<lparr>b_heap := b_heap b @ [p]\<rparr>" and ?a = "length (b_heap b)"
  have "binv (Suc ?a) k S ?b" using inv_heap_append [OF _ b, of "[p]"] assms(1) by simp
  moreover have "n \<le> ?a" using b by (rule invD)
  ultimately have "binv (Suc ?a) k S b'" using keepsD [OF assms(2)] run by (simp add: bindS_def alloc_def)
  then show "binv n k S b'" using \<open>n \<le> ?a\<close> by (elim inv_mono) simp_all
qed

lemma packet_peer_ok: "packet_peer packet pubkey = Inr p \<Longrightarrow> peer_ok p"
  using newPeer_ok by (fastforce simp: packet_peer_def bindR_eq_Inr peer_ok_def split: net_Addr.splits)

lemma tot_callback:
  "tot n k S (case callback of None \<Rightarrow> ret () | Some c \<Rightarrow> modify (send_ack c m))" if "\<forall>c. callback = Some c \<longrightarrow> c \<notin> S"
  using that by (cases callback) (auto intro!: total_rules inv_send_ack)

lemma callback_fresh: "binv n k S b \<Longrightarrow> \<forall>c. b_handlers b key = Some c \<longrightarrow> c \<notin> S"
  by (auto simp: binv_def orphan_def)

lemma tot_getCallback:
  assumes "\<And>cb. \<forall>c. cb = Some c \<longrightarrow> c \<notin> S \<Longrightarrow> tot n k S (f cb)" shows "tot n k S (bindS (getCallback i code) f)"
proof (rule totalI)
  fix b assume b: "binv n k S b"
  from totalD [OF assms [OF callback_fresh [OF b]] b]
  show "\<exists>b' r. bindS (getCallback i code) f b = Some (b', r) \<and> binv n k S b'" by (simp add: getCallback_def)
qed

lemma kept_getCallback:
  assumes "\<And>cb. \<forall>c. cb = Some c \<longrightarrow> c \<notin> S \<Longrightarrow> kept n k S (f cb)" shows "kept n k S (bindS (getCallback i code) f)"
proof (rule keepsI)
  fix b b' r assume b: "binv n k S b" and "bindS (getCallback i code) f b = Some (b', r)"
  then show "binv n k S b'" using keepsD [OF assms [OF callback_fresh [OF b]] b] by (simp add: getCallback_def)
qed

text \<open>A message that its handler can decode.\<close>

definition decodable :: "('k, 'v) disc_env \<Rightarrow> bytes \<Rightarrow> bool" where
  "decodable env sigdata \<longleftrightarrow>
     (hd sigdata = pingPacket \<longrightarrow> decode_or_panic env (pingRequest_UnmarshalRLP (env_F env)) (tl sigdata) \<noteq> None) \<and>
     (hd sigdata = findnodePacket \<longrightarrow> decode_or_panic env (findNodeRequest_UnmarshalRLP (env_F env)) (tl sigdata) \<noteq> None)"

text \<open>The handler of a packet without its first steps.\<close>

definition dispatch :: "('k, 'v) disc_env \<Rightarrow> time \<Rightarrow> time \<Rightarrow> Packet \<Rightarrow> bytes \<Rightarrow> bytes \<Rightarrow> Peer \<Rightarrow> nat \<Rightarrow> nat option \<Rightarrow> unit disc" where
  "dispatch env now now' packet mac sigdata p peer callback =
     bindS (case callback of
              None \<Rightarrow> ret ()
            | Some ch \<Rightarrow> modify (send_ack ch \<lparr>Complete = True, Payload = tl sigdata, Timestamp = Some (pkt_Timestamp packet)\<rparr>)) (\<lambda>_.
     if callback \<noteq> None \<and> hd sigdata \<noteq> pingPacket then ret ()
     else if hd sigdata = pingPacket then handlePingPacket env now now' (tl sigdata) mac peer
     else if hd sigdata = findnodePacket then handleFindNodePacket env (tl sigdata) peer
     else if hd sigdata = neighborsPacket then fail NeighborsNotExpected
     else if hd sigdata = pongPacket then fail (PongNotExpected (peer_UDPAddr p) (peer_ID p) (peer_Bytes p))
     else fail (CodeNotFound (hd sigdata)))"

lemma HandlePacket_accepted:
  assumes "decodePacket (env_C env) (pkt_Buf packet) = Some (Inr (mac, sigdata, pubkey))" and "packet_peer packet pubkey = Inr p"
  shows "HandlePacket env now now' packet =
    bindS (alloc p) (\<lambda>peer. bindS (getCallback (peer_ID p) (hd sigdata)) (dispatch env now now' packet mac sigdata p peer))"
proof -
  have "sigdata \<noteq> []" using assms(1) by (rule decodePacket_cases)
  then obtain code data where sigdata: "sigdata = code # data" by (cases sigdata) auto
  have ix: "index (code # data) 0 = Some code" "drop 1 (code # data) = data" by simp_all
  show ?thesis
    unfolding HandlePacket_def assms(1) bindS_pure prod.case assms(2) sigdata ix Let_def dispatch_def list.sel ..
qed

lemma HandlePacket_rejected:
  "decodePacket (env_C env) (pkt_Buf packet) = Some (Inl e) \<Longrightarrow> HandlePacket env now now' packet b = Some (b, Inl e)"
  "decodePacket (env_C env) (pkt_Buf packet) = Some (Inr (mac, sigdata, pubkey)) \<Longrightarrow> packet_peer packet pubkey = Inl e \<Longrightarrow>
    HandlePacket env now now' packet b = Some (b, Inl e)"
  by (simp_all add: HandlePacket_def)

lemma HandlePacket_cases:
  obtains (rejected) e where "\<And>b. HandlePacket env now now' packet b = Some (b, Inl e)"
  | (accepted) mac sigdata pubkey p where "decodePacket (env_C env) (pkt_Buf packet) = Some (Inr (mac, sigdata, pubkey))"
      "packet_peer packet pubkey = Inr p"
proof -
  obtain r where r: "decodePacket (env_C env) (pkt_Buf packet) = Some r" using decodePacket_returns by blast
  show ?thesis
  proof (cases r)
    case (Inl e)
    then show ?thesis using r HandlePacket_rejected(1) rejected by metis
  next
    case (Inr x)
    then obtain mac sigdata pubkey where x: "r = Inr (mac, sigdata, pubkey)" by (cases x) auto
    show ?thesis
    proof (cases "packet_peer packet pubkey")
      case (Inl e)
      then show ?thesis using r x HandlePacket_rejected(2) rejected by metis
    qed (use r x accepted in metis)
  qed
qed

lemma tot_HandlePacket:
  assumes "crypto_laws (env_C env)"
    and "\<And>mac sigdata pubkey. decodePacket (env_C env) (pkt_Buf packet) = Some (Inr (mac, sigdata, pubkey)) \<Longrightarrow> decodable env sigdata"
  shows "tot n k S (HandlePacket env now now' packet)"
proof (cases rule: HandlePacket_cases [of env now now' packet])
  case (accepted mac sigdata pubkey p)
  note ok = assms(2) [OF accepted(1), unfolded decodable_def]
  show ?thesis unfolding HandlePacket_accepted [OF accepted] dispatch_def
    by (intro tot_alloc tot_getCallback total_rules tot_callback tot_handlePingPacket
        tot_handleFindNodePacket packet_peer_ok [OF accepted(2)] assms(1)) (use ok in auto)
qed (simp add: total_def)

lemma kept_HandlePacket:
  assumes "crypto_laws (env_C env)" shows "kept n k S (HandlePacket env now now' packet)"
proof (cases rule: HandlePacket_cases [of env now now' packet])
  case (accepted mac sigdata pubkey p)
  show ?thesis unfolding HandlePacket_accepted [OF accepted] dispatch_def
    by (intro kept_alloc kept_getCallback keeps_rules total_keeps [OF tot_callback] kept_handlePingPacket
        kept_handleFindNodePacket packet_peer_ok [OF accepted(2)] assms(1)) auto
qed (simp add: keeps_def)


section \<open>Outgoing requests\<close>

text \<open>What an operation relies on while it waits: the others keep the invariant, and leave the channels
  that only this goroutine knows alone.\<close>

definition rely :: "receive \<Rightarrow> bool" where
  "rely rx \<longleftrightarrow> (\<forall>n k S c ch c' m. rx c ch = Some (c', m) \<longrightarrow> ch \<notin> S \<longrightarrow> binv n k S c \<longrightarrow> binv n k S c')"

lemma orphan_park: "orphan c b \<Longrightarrow> c \<noteq> d \<Longrightarrow> orphan c (b\<lparr>b_chans := (b_chans b)[d := x]\<rparr>)"
  by (simp add: orphan_def)

lemma inv_park: "binv n k S b \<Longrightarrow> c \<notin> S \<Longrightarrow> binv n k S (b\<lparr>b_chans := (b_chans b)[c := x]\<rparr>)"
  by (auto simp: binv_def backend_ok_defs intro!: orphan_park)

lemma kept_receive_ack: "rely rx \<Longrightarrow> c \<notin> S \<Longrightarrow> kept n k S (receive_ack rx c)"
proof (rule keepsI)
  fix b b' r assume rx: "rely rx" "c \<notin> S" and b: "binv n k S b" and run: "receive_ack rx c b = Some (b', r)"
  from run obtain m where "rx (b\<lparr>b_chans := (b_chans b)[c := Waiting]\<rparr>) c = Some (b', m)"
    by (auto simp: receive_ack_def split: option.splits)
  then show "binv n k S b'" using rx inv_park [OF b rx(2)] unfolding rely_def by blast
qed

lemma kept_deref:
  assumes "a < n" and "\<And>p. peer_ok p \<Longrightarrow> keeps (binv n k S) (f p) Q" shows "keeps (binv n k S) (bindS (deref a) f) Q"
proof (rule keepsI)
  fix b b' r assume b: "binv n k S b" and run: "bindS (deref a) f b = Some (b', r)"
  then have "a < length (b_heap b)" "peer_ok (b_heap b ! a)" using assms(1) by (auto simp: binv_def backend_ok_defs)
  then show "Q r b'" using keepsD [OF assms(2) b] run by (simp add: bindS_def deref_def)
qed

lemma kept_probeNode:
  assumes "crypto_laws (env_C env)" and "rely rx" and "a < n" shows "kept n k S (probeNode env rx now a)"
  unfolding probeNode_def
  by (intro kept_make_chan kept_deref keeps_rules total_keeps [OF tot_setHandler] total_keeps [OF tot_sendPacket]
      kept_receive_ack total_keeps [OF tot_assign] total_keeps [OF tot_updatePeer] total_keeps [OF tot_deliver] assms) simp_all

lemma kept_bond:
  assumes "crypto_laws (env_C env)" and "rely rx" and "a < n" shows "kept n k S (bond env rx now a)"
  unfolding bond_def
  by (intro kept_make_chan kept_deref keeps_rules total_keeps [OF tot_Backend_hasExpired] kept_probeNode
      total_keeps [OF tot_setHandler] kept_receive_ack assms) simp_all

text \<open>Addresses that are valid in a state.\<close>

definition valid_addrs :: "Backend \<Rightarrow> nat list \<Rightarrow> bool" where
  "valid_addrs b as \<longleftrightarrow> (\<forall>a \<in> set as. a < length (b_heap b))"

lemma inv_length: "binv n k S b \<longleftrightarrow> n \<le> length (b_heap b) \<and> binv (length (b_heap b)) k S b"
  by (auto simp: binv_def)

lemma kept_tasks:
  assumes "binv n k S b" and "valid_addrs b as" and "sendTasks as b = Some (b', r)"
  shows "binv n k S b' \<and> valid_addrs b' as"
proof -
  let ?n = "length (b_heap b)"
  have n: "n \<le> ?n" "binv ?n k S b" using assms(1) by (simp_all add: binv_def)
  have "\<forall>a \<in> set as. a < ?n" using assms(2) by (simp add: valid_addrs_def)
  from keepsD [OF total_keeps [OF tot_sendTasks [OF this]] n(2) assms(3)] have b': "binv ?n k S b'" .
  show ?thesis using inv_mono [OF b' n(1) order_refl] invD(2) [OF b'] assms(2) by (fastforce simp: valid_addrs_def)
qed

lemma toPeers_ok: "toPeers ns = Inr ps \<Longrightarrow> \<forall>p \<in> set ps. peer_ok p"
  using newPeer_ok by (induction ns arbitrary: ps) (auto simp: bindR_eq_Inr toPeer_def)

text \<open>A step that keeps the invariant for every \<open>n\<close> keeps addresses valid.\<close>

lemma kept_valid_addrs:
  assumes "\<And>n. kept n k S m" and "binv n k S b" and "m b = Some (b', r)" and "valid_addrs b as"
  shows "binv n k S b' \<and> valid_addrs b' as"
proof -
  have "binv (length (b_heap b)) k S b" using assms(2) by (simp add: binv_def)
  from keepsD [OF assms(1) this assms(3)] have "length (b_heap b) \<le> length (b_heap b')" by (rule invD)
  then show ?thesis using keepsD [OF assms(1,2,3)] assms(4) by (fastforce simp: valid_addrs_def)
qed

definition found_ok :: "nat \<Rightarrow> nat \<Rightarrow> nat set \<Rightarrow> Backend \<times> (disc_error + nat list \<times> bool) \<Rightarrow> bool" where
  "found_ok n k S br \<longleftrightarrow> (case br of (b, r) \<Rightarrow> binv n k S b \<and> (\<forall>ps x. r = Inr (ps, x) \<longrightarrow> valid_addrs b ps))"

lemma find_loop_alloc:
  assumes "binv n k S b" and "valid_addrs b peers" and "\<forall>p \<in> set ps. peer_ok p" and "alloc_all ps b = Some (b', q)"
  obtains new where "q = Inr new" "binv n k S b'" "valid_addrs b' (peers @ new)"
proof -
  let ?b = "b\<lparr>b_heap := b_heap b @ ps\<rparr>"
  have q: "b' = ?b" "q = Inr [length (b_heap b)..<length (b_heap b) + length ps]"
    using assms(4) by (simp_all add: alloc_all_def)
  have "binv n k S ?b" using inv_mono [OF inv_heap_append [OF assms(3,1)]] invD(2) [OF assms(1)] by simp
  moreover have "valid_addrs ?b (peers @ [length (b_heap b)..<length (b_heap b) + length ps])"
    using assms(2) by (fastforce simp: valid_addrs_def)
  ultimately show ?thesis using q by (intro that [of "[length (b_heap b)..<length (b_heap b) + length ps]"]) simp_all
qed

lemma kept_find_loop:
  assumes "rely rx" and "ack \<notin> S" and "find_loop env rx ack peers one b = Some y" and "binv n k S b" and "valid_addrs b peers"
  shows "found_ok n k S y"
proof -
  have "rx = rx \<longrightarrow> ack = ack \<longrightarrow> binv n k S b \<longrightarrow> valid_addrs b peers \<longrightarrow> found_ok n k S y"
  proof (rule find_loop.raw_induct [where P = "\<lambda>_ rx' ack' peers _ b y.
      rx' = rx \<longrightarrow> ack' = ack \<longrightarrow> binv n k S b \<longrightarrow> valid_addrs b peers \<longrightarrow> found_ok n k S y", OF _ assms(3)], intro impI, goal_cases)
    case (1 loop env rx' ack' peers one b y)
    then obtain b1 r where ack: "receive_ack rx ack b = Some (b1, r)" by (auto simp: bind_eq_Some_conv)
    have b1: "binv n k S b1" "valid_addrs b1 peers"
      using kept_valid_addrs [OF kept_receive_ack [OF assms(1,2)] 1(5) ack 1(6)] by simp_all
    show ?case
    proof (cases r)
      case (Inl e)
      then show ?thesis using 1(2-4) ack b1 by (auto simp: found_ok_def)
    next
      case (Inr resp)
      show ?thesis
      proof (cases "Complete resp")
        case True
        then obtain nb where nb: "decode_or_panic env (neighborsResponse_UnmarshalRLP (env_F env)) (Payload resp) = Some nb"
          using 1(2-4) ack Inr by (auto simp: bind_eq_Some_conv)
        show ?thesis
        proof (cases "toPeers (nb_Nodes nb)")
          case (Inl e)
          then show ?thesis using 1(2-4) ack b1 Inr True nb by (auto simp: found_ok_def)
        next
          case peers: (Inr ps)
          obtain b2 q where al: "alloc_all ps b1 = Some (b2, q)" by (simp add: alloc_all_def)
          obtain new where new: "q = Inr new" "binv n k S b2" "valid_addrs b2 (peers @ new)"
            by (rule find_loop_alloc [OF b1 toPeers_ok [OF peers] al])
          show ?thesis using 1 ack Inr True nb peers al new by (auto simp: found_ok_def split: if_splits)
        qed
      qed (use 1(2-4) ack b1 Inr in \<open>auto simp: found_ok_def\<close>)
    qed
  qed
  then show ?thesis using assms(4,5) by simp
qed


text \<open>The addresses that a request returns are valid when it returns.\<close>

definition addrs_post :: "nat \<Rightarrow> nat \<Rightarrow> nat set \<Rightarrow> disc_error + nat list \<Rightarrow> Backend \<Rightarrow> bool" where
  "addrs_post n k S r b \<longleftrightarrow> binv n k S b \<and> (\<forall>as. r = Inr as \<longrightarrow> valid_addrs b as)"

lemma keeps_find_tail:
  assumes "rely rx" and "ack \<notin> S" and "j \<le> k"
  shows "keeps (binv n k S) (bindS (find_loop env rx ack [] False) (\<lambda>(peers, one).
    if \<not> one then fail FailedToGetPeers else bindS (sendTasks peers) (\<lambda>_. ret peers))) (addrs_post n j S)"
proof (rule keeps_bindS [where R = "\<lambda>x b. binv n k S b \<and> valid_addrs b (fst x)"])
  show "keeps (binv n k S) (find_loop env rx ack [] False)
      (\<lambda>r s. case r of Inl e \<Rightarrow> addrs_post n j S (Inl e) s | Inr x \<Rightarrow> binv n k S s \<and> valid_addrs s (fst x))"
  proof (rule keepsI)
    fix b b' r assume "binv n k S b" and run: "find_loop env rx ack [] False b = Some (b', r)"
    then have "found_ok n k S (b', r)" by (intro kept_find_loop [OF assms(1,2) run]) (simp_all add: valid_addrs_def)
    then show "case r of Inl e \<Rightarrow> addrs_post n j S (Inl e) b' | Inr x \<Rightarrow> binv n k S b' \<and> valid_addrs b' (fst x)"
      using assms(3) inv_mono [of n k S b' n j] by (auto simp: found_ok_def addrs_post_def split: sum.splits)
  qed
  fix x :: "nat list \<times> bool"
  obtain ps one where x: "x = (ps, one)" by fastforce
  show "keeps (\<lambda>b. binv n k S b \<and> valid_addrs b (fst x)) (case x of (peers, one) \<Rightarrow>
      if \<not> one then fail FailedToGetPeers else bindS (sendTasks peers) (\<lambda>_. ret peers)) (addrs_post n j S)"
  proof (rule keepsI)
    fix b b' r assume b: "binv n k S b \<and> valid_addrs b (fst x)"
      and run: "(case x of (peers, one) \<Rightarrow> if \<not> one then fail FailedToGetPeers else bindS (sendTasks peers) (\<lambda>_. ret peers)) b = Some (b', r)"
    have "binv n k S b' \<and> (\<forall>as. r = Inr as \<longrightarrow> valid_addrs b' as)"
    proof (cases one)
      case True
      then obtain q where q: "sendTasks ps b = Some (b', q)" "\<forall>as. r = Inr as \<longrightarrow> as = ps"
        using run x by (auto simp: bindS_def split: option.splits sum.splits)
      then show ?thesis using kept_tasks [of n k S b ps b' q] b x by auto
    qed (use run b x in auto)
    then show "addrs_post n j S r b'" using assms(3) inv_mono [of n k S b' n j] by (simp add: addrs_post_def)
  qed
qed

lemma addrs_post_Inl: "binv n k S b \<Longrightarrow> addrs_post n k S (Inl e) b"
  by (simp add: addrs_post_def)

lemma keeps_findNodes:
  assumes "crypto_laws (env_C env)" and "rely rx" and "a < n"
  shows "keeps (binv n k S) (findNodes env rx now a target) (addrs_post n k S)"
proof -
  have weaken: "binv n c S b \<Longrightarrow> k \<le> c \<Longrightarrow> addrs_post n k S (Inl e) b" for c b e
    using inv_mono [of n c S b n k] by (simp add: addrs_post_def)
  show ?thesis unfolding findNodes_def
    by (intro keeps_bindS_post [OF kept_bond [OF assms]] keeps_make_chan kept_deref [OF assms(3)]
        keeps_bindS_post [OF total_keeps [OF tot_setHandler]] keeps_bindS_post [OF keeps_simple(4)]
        keeps_bindS_post [OF keeps_attempt [OF total_keeps [OF tot_sendPacket [OF assms(1,3)]]]]
        keeps_find_tail [OF assms(2)]) (auto intro: weaken addrs_post_Inl)
qed


section \<open>Lookups\<close>

text \<open>At most \<open>alpha\<close> requests are pending; when none is, no peer is left in the queue; no identifier is
  visited twice.\<close>

definition lookup_ok :: "lookup \<Rightarrow> bool" where
  "lookup_ok L \<longleftrightarrow> length (lk_pending L) \<le> alpha \<and> (lk_pending L = [] \<longrightarrow> lk_queue L = []) \<and> distinct (lk_visited L)"

definition lookup_addrs :: "lookup \<Rightarrow> nat set" where
  "lookup_addrs L = set (lk_queue L) \<union> set (lk_pending L)"

lemma lookup_ask_simps:
  "lk_queue L \<noteq> [] \<Longrightarrow> lookup_addrs (lookup_ask L) = lookup_addrs L"
  "lk_visited (lookup_ask L) = lk_visited L" "lk_pending (lookup_ask L) = lk_pending L @ [hd (lk_queue L)]"
  "lk_queue (lookup_ask L) = tl (lk_queue L)"
proof -
  show "lookup_addrs (lookup_ask L) = lookup_addrs L" if "lk_queue L \<noteq> []"
    using that by (cases "lk_queue L") (auto simp: lookup_addrs_def lookup_ask_def)
qed (simp_all add: lookup_ask_def)

lemma lookup_seed_ok:
  "length (lk_pending L) = i \<Longrightarrow> i \<le> alpha \<Longrightarrow> distinct (lk_visited L) \<Longrightarrow> (0 < i \<or> lk_pending L = []) \<Longrightarrow>
    lookup_ok (lookup_seed i L) \<and> lookup_addrs (lookup_seed i L) = lookup_addrs L"
proof (induction i L rule: lookup_seed.induct)
  case (1 i L)
  show ?case
  proof (cases "i < min (length (lk_queue L)) alpha")
    case True
    then have q: "lk_queue L \<noteq> []" by auto
    show ?thesis using 1 True by (subst (1 2) lookup_seed.simps) (simp add: lookup_ask_simps q)
  next
    case False
    have "lk_pending L = [] \<longrightarrow> lk_queue L = []" using False 1(2) by (auto simp: alpha_def)
    then show ?thesis using 1 False by (subst (1 2) lookup_seed.simps) (auto simp: lookup_ok_def)
  qed
qed

lemma lookup_fill_ok:
  "length (lk_pending L) \<le> alpha \<Longrightarrow> distinct (lk_visited L) \<Longrightarrow>
    lookup_ok (lookup_fill L) \<and> lookup_addrs (lookup_fill L) = lookup_addrs L \<and>
    (lk_queue (lookup_fill L) = [] \<or> length (lk_pending (lookup_fill L)) = alpha)"
proof (induction L rule: lookup_fill.induct)
  case (1 L)
  show ?case
  proof (cases "length (lk_pending L) < alpha \<and> lk_queue L \<noteq> []")
    case True
    then show ?thesis using 1 by (subst (1 2 3 4) lookup_fill.simps) (simp add: lookup_ask_simps)
  next
    case False
    then show ?thesis using 1 by (subst (1 2 3 4) lookup_fill.simps) (auto simp: lookup_ok_def alpha_def)
  qed
qed

lemma lookup_visit_ok:
  "distinct (lk_visited L) \<Longrightarrow> distinct (lk_visited (lookup_visit nodes L)) \<and>
    lk_pending (lookup_visit nodes L) = lk_pending L \<and>
    lookup_addrs (lookup_visit nodes L) \<subseteq> lookup_addrs L \<union> snd ` set nodes \<and>
    set (lk_visited (lookup_visit nodes L)) = set (lk_visited L) \<union> fst ` set nodes"
proof (induction nodes L rule: lookup_visit.induct)
  case (2 i p nodes L)
  then show ?case by (auto simp: lookup_addrs_def)
qed simp

lemma lookup_reply_ok:
  assumes "lookup_ok L" and "j < length (lk_pending L)"
  shows "lookup_ok (lookup_reply j nodes L) \<and>
    lookup_addrs (lookup_reply j nodes L) \<subseteq> lookup_addrs L \<union> snd ` set nodes"
proof -
  let ?L = "L\<lparr>lk_pending := take j (lk_pending L) @ drop (Suc j) (lk_pending L)\<rparr>"
  have L: "distinct (lk_visited ?L)" "length (lk_pending ?L) \<le> alpha" "lookup_addrs ?L \<subseteq> lookup_addrs L"
    using assms set_take_subset [of j "lk_pending L"] set_drop_subset [of "Suc j" "lk_pending L"]
    by (auto simp: lookup_ok_def lookup_addrs_def)
  note v = lookup_visit_ok [OF L(1), of nodes]
  show ?thesis using lookup_fill_ok [of "lookup_visit nodes ?L"] v L by (auto simp: lookup_reply_def)
qed

lemma kept_lookup_loop:
  assumes "crypto_laws (env_C env)" and "rely rx" and "lookup_loop env rx sel now target L b = Some y"
    and "binv n k S b" and "lookup_ok L" and "\<forall>a \<in> lookup_addrs L. a < length (b_heap b)"
  shows "binv n k S (fst y)"
proof -
  let ?P = "\<lambda>env' rx' L b y. env' = env \<longrightarrow> rx' = rx \<longrightarrow> binv n k S b \<longrightarrow> lookup_ok L \<longrightarrow>
    (\<forall>a \<in> lookup_addrs L. a < length (b_heap b)) \<longrightarrow> binv n k S (fst y)"
  have "?P env rx L b y"
  proof (rule lookup_loop.raw_induct [where P = "\<lambda>env' rx' _ _ _ L b y. ?P env' rx' L b y", OF _ assms(3)], intro impI, goal_cases)
    case (1 loop env' rx' sel now target L b y)
    show ?case
    proof (cases "lk_pending L = [] \<or> sel b (lk_pending L) = None")
      case True
      then show ?thesis using 1(2,5) by (auto split: if_splits)
    next
      case False
      then obtain j where j: "sel b (lk_pending L) = Some j" by auto
      with False 1(2) obtain p where p: "index (lk_pending L) j = Some p" "j < length (lk_pending L)"
        by (auto simp: bind_eq_Some_conv index_def split: if_splits)
      with False 1(2-4) j obtain b1 r where fn: "findNodes env rx now p target b = Some (b1, r)"
        by (auto simp: bind_eq_Some_conv)
      let ?n = "length (b_heap b)"
      have "p \<in> lookup_addrs L" using p by (auto simp: lookup_addrs_def index_def)
      then have "p < ?n" using 1(7) by blast
      moreover have n: "binv ?n k S b" "n \<le> ?n" using 1(5) by (simp_all add: binv_def)
      ultimately have post: "addrs_post ?n k S r b1" using keepsD [OF keeps_findNodes [OF assms(1,2)] n(1) fn] by blast
      define nodes where "nodes = map (\<lambda>a. (peer_ID (b_heap b1 ! a), a)) (case r of Inl e \<Rightarrow> [] | Inr as \<Rightarrow> as)"
      have "binv ?n k S b1" and nodes: "\<forall>a \<in> snd ` set nodes. a < length (b_heap b1)"
        using post by (auto simp: addrs_post_def nodes_def valid_addrs_def split: sum.splits)
      then have b1: "binv n k S b1" "?n \<le> length (b_heap b1)" using n(2) inv_mono [of ?n k S b1 n k] invD(2) by auto
      note L = lookup_reply_ok [OF 1(6) p(2), of nodes]
      have "\<forall>a \<in> lookup_addrs (lookup_reply j nodes L). a < length (b_heap b1)"
        using L nodes 1(7) b1(2) by (meson UnE less_le_trans subsetD)
      then show ?thesis using 1(1) [of env rx sel now target "lookup_reply j nodes L" b1 y] 1(2-4) L b1(1) False j p fn
        by (simp add: nodes_def)
    qed
  qed
  then show ?thesis using assms(4-6) by simp
qed

lemma kept_discovered: "kept n k S (discovered ids)"
proof (induction ids)
  case Nil
  then show ?case unfolding discovered.simps by (intro keeps_rules)
next
  case (Cons i ids)
  have "kept n k S (case x of None \<Rightarrow> fail NotDiscovered | Some p \<Rightarrow> bindS (discovered ids) (\<lambda>ps. ret (p # ps)))" for x
    by (cases x) (simp_all only: option.case keeps_simple keeps_inv_bindS Cons)
  then show ?case unfolding discovered.simps getPeer_def by (intro keeps_rules)
qed

lemma kept_LookupTarget:
  assumes "crypto_laws (env_C env)" and "rely rx" shows "kept n k S (LookupTarget env rx sel now target)"
proof -
  let ?start = "\<lambda>queue. lookup_seed 0 \<lparr>lk_queue = queue, lk_visited = [], lk_pending = []\<rparr>"
  have run: "kept n k S (lookup_run env rx sel now target)"
  proof (rule keepsI)
    fix b b' r assume b: "binv n k S b" and run: "lookup_run env rx sel now target b = Some (b', r)"
    obtain ps where ps: "NearestPeersFromTarget target b = Some (b, Inr (map (\<lambda>p. the (map_of (b_nodes b) p)) ps))"
      "set ps \<subseteq> dom (map_of (b_nodes b))" by (rule NearestPeersFromTarget_known [OF invD(1) [OF b]])
    let ?q = "map (\<lambda>p. the (map_of (b_nodes b) p)) ps"
    have "lookup_ok (?start ?q)" "lookup_addrs (?start ?q) = set ?q"
      using lookup_seed_ok [of "\<lparr>lk_queue = ?q, lk_visited = [], lk_pending = []\<rparr>" 0] by (simp_all add: lookup_addrs_def)
    moreover have "\<forall>a \<in> set ?q. a < length (b_heap b)" using ps(2) getPeer_bound [OF b] by fastforce
    ultimately have loop: "binv n k S (fst y)" if "lookup_loop env rx sel now target (?start ?q) b = Some y" for y
      using kept_lookup_loop [OF assms that b] by simp
    show "binv n k S b'"
    proof (cases "b_active b")
      case True
      then obtain b1 v where v: "lookup_loop env rx sel now target (?start ?q) b = Some (b1, v)"
        "(case v of None \<Rightarrow> ret [] | Some ids \<Rightarrow> discovered ids) b1 = Some (b', r)"
        using run ps(1) by (auto simp: lookup_run_def bindS_def split: option.splits)
      then show ?thesis using loop [OF v(1)] keepsD [OF kept_discovered [of n k S]]
        by (cases v) auto
    qed (use run b in \<open>simp add: lookup_run_def\<close>)
  qed
  then show ?thesis unfolding LookupTarget_def by (intro keeps_rules) simp_all
qed

end
