(* ===== verification/Discv4Run.thy ===== *)
theory Discv4Run
  imports Discv4Inv
begin

text \<open>
  The goroutines of the discovery backend together: \<open>disc_run env b b'\<close> says that the state \<open>b'\<close> can
  follow \<open>b\<close>. A step is a packet that \<open>listen\<close> hands to \<open>HandlePacket\<close>, a timer, a task of \<open>probeTask\<close>, a
  tick of \<open>schedule\<close> (a lookup or the validation of a peer), or one of the calls from outside. While a
  step waits on a channel any run may happen, after which the message that was handed over is taken.
\<close>

section \<open>Runs\<close>

inductive disc_run :: "('k, 'v) disc_env \<Rightarrow> Backend \<Rightarrow> Backend \<Rightarrow> bool" for env :: "('k, 'v) disc_env" where
  idle: "disc_run env b b"
| packet: "disc_run env b b1 \<Longrightarrow> HandlePacket env now now' p b1 = Some (b2, r) \<Longrightarrow> disc_run env b b2"
| timer: "disc_run env b b1 \<Longrightarrow> disc_run env b (fire_timer i b1)"
| task: "disc_run env b b1 \<Longrightarrow>
    (\<And>c ch c' m. rx c ch = Some (c', m) \<Longrightarrow> \<exists>d. disc_run env c d \<and> ch < length (b_chans d) \<and>
       b_chans d ! ch = Delivered m \<and> c' = d\<lparr>b_chans := (b_chans d)[ch := Idle]\<rparr>) \<Longrightarrow>
    probeTask env rx now b1 = Some (b2, q) \<Longrightarrow> disc_run env b b2"
| lookup: "disc_run env b b1 \<Longrightarrow>
    (\<And>c ch c' m. rx c ch = Some (c', m) \<Longrightarrow> \<exists>d. disc_run env c d \<and> ch < length (b_chans d) \<and>
       b_chans d ! ch = Delivered m \<and> c' = d\<lparr>b_chans := (b_chans d)[ch := Idle]\<rparr>) \<Longrightarrow>
    LookupTarget env rx sel now target b1 = Some (b2, s) \<Longrightarrow> disc_run env b b2"
| revalidate: "disc_run env b b1 \<Longrightarrow>
    (\<And>c ch c' m. rx c ch = Some (c', m) \<Longrightarrow> \<exists>d. disc_run env c d \<and> ch < length (b_chans d) \<and>
       b_chans d ! ch = Delivered m \<and> c' = d\<lparr>b_chans := (b_chans d)[ch := Idle]\<rparr>) \<Longrightarrow>
    revalidatePeer env rx perm now b1 = Some (b2, r) \<Longrightarrow> disc_run env b b2"
| bootnodes: "disc_run env b b1 \<Longrightarrow> disc_run env b (SetBootnodes ns b1)"
| active: "disc_run env b b1 \<Longrightarrow> disc_run env b (b1\<lparr>b_active := True\<rparr>)"
| event: "disc_run env b b1 \<Longrightarrow> disc_run env b (b1\<lparr>b_eventCh := tl (b_eventCh b1)\<rparr>)"
| close: "disc_run env b b1 \<Longrightarrow> Backend_Close b1 = Some b2 \<Longrightarrow> disc_run env b b2"

lemma kept_probeTask:
  assumes "crypto_laws (env_C env)" and "rely rx" shows "kept n k S (probeTask env rx now)"
proof (rule keepsI)
  fix b b' r assume b: "binv n k S b" and run: "probeTask env rx now b = Some (b', r)"
  show "binv n k S b'"
  proof (cases "b_tasks b")
    case (Cons a rest)
    let ?b = "b\<lparr>b_tasks := rest\<rparr>" and ?n = "length (b_heap b)"
    have "a < ?n" "binv ?n k S ?b" using b Cons by (auto simp: binv_def backend_ok_defs orphan_def)
    moreover have "probeNode env rx now a ?b = Some (b', r)" using run Cons by (simp add: probeTask_def)
    ultimately have "binv ?n k S b'" using keepsD [OF kept_probeNode [OF assms]] by blast
    then show ?thesis using invD(2) [OF b] inv_mono [of ?n k S b' n k] by simp
  qed (use run b in \<open>simp add: probeTask_def\<close>)
qed

lemma kept_revalidatePeer:
  assumes "crypto_laws (env_C env)" and "rely rx" shows "kept n k S (revalidatePeer env rx perm now)"
proof (rule keepsI)
  fix b b' r assume b: "binv n k S b" and run: "revalidatePeer env rx perm now b = Some (b', r)"
  show "binv n k S b'"
  proof (cases "map_of (b_nodes b) (pick_peer (b_table b) perm)")
    case (Some a)
    let ?n = "length (b_heap b)"
    have "a < ?n" "binv ?n k S b" using b getPeer_bound [OF b Some] by (auto simp: binv_def)
    moreover obtain q where "probeNode env rx now a b = Some (b', q)"
      using run Some by (auto simp: revalidatePeer_def getPeer_def bindS_def split: option.splits sum.splits)
    ultimately have "binv ?n k S b'" using keepsD [OF kept_probeNode [OF assms]] by blast
    then show ?thesis using invD(2) [OF b] inv_mono [of ?n k S b' n k] by simp
  qed (use run b in \<open>simp add: revalidatePeer_def getPeer_def\<close>)
qed

lemma rely_run:
  assumes "\<And>c ch c' m. rx c ch = Some (c', m) \<Longrightarrow> \<exists>d. (disc_run env c d \<and> (\<forall>n k S. binv n k S c \<longrightarrow> binv n k S d)) \<and>
     ch < length (b_chans d) \<and> b_chans d ! ch = Delivered m \<and> c' = d\<lparr>b_chans := (b_chans d)[ch := Idle]\<rparr>"
  shows "rely rx"
  unfolding rely_def
proof (intro allI impI)
  fix n k S c ch c' m assume "rx c ch = Some (c', m)" and ch: "ch \<notin> S" and c: "binv n k S c"
  from assms [OF this(1)] obtain d where "\<forall>n k S. binv n k S c \<longrightarrow> binv n k S d" "c' = d\<lparr>b_chans := (b_chans d)[ch := Idle]\<rparr>"
    by blast
  then show "binv n k S c'" using c ch by (auto intro: inv_park)
qed

lemma inv_event: "binv n k S b \<Longrightarrow> binv n k S (b\<lparr>b_eventCh := tl (b_eventCh b)\<rparr>)"
  by (auto simp: binv_def backend_ok_defs orphan_def)

lemma kept_step:
  assumes "\<forall>n k S. binv n k S b \<longrightarrow> binv n k S b1" and "\<And>n k S. kept n k S m" and "m b1 = Some (b2, r)"
  shows "\<forall>n k S. binv n k S b \<longrightarrow> binv n k S b2"
  using assms keepsD [OF assms(2) _ assms(3)] by blast

lemma disc_run_keeps:
  assumes "disc_run env b b'" and "crypto_laws (env_C env)" shows "\<forall>n k S. binv n k S b \<longrightarrow> binv n k S b'"
  using assms(1)
proof induction
  case (packet b b1 now now' p b2 r)
  show ?case using packet.IH kept_HandlePacket [OF assms(2)] packet.hyps(2) by (rule kept_step)
next
  case (timer b b1 i)
  then show ?case using inv_fire_timer by blast
next
  case (task b b1 rx now b2 q)
  have rx: "rely rx" using task.IH(2) by (rule rely_run)
  show ?case using task.IH(1) kept_probeTask [OF assms(2) rx] task.hyps(2) by (rule kept_step)
next
  case (lookup b b1 rx sel now target b2 s)
  have rx: "rely rx" using lookup.IH(2) by (rule rely_run)
  show ?case using lookup.IH(1) kept_LookupTarget [OF assms(2) rx] lookup.hyps(2) by (rule kept_step)
next
  case (revalidate b b1 rx perm now b2 r)
  have rx: "rely rx" using revalidate.IH(2) by (rule rely_run)
  show ?case using revalidate.IH(1) kept_revalidatePeer [OF assms(2) rx] revalidate.hyps(2) by (rule kept_step)
next
  case (event b b1)
  then show ?case using inv_event by blast
next
  case (close b b1 b2)
  then show ?case by (auto simp: Backend_Close_def split: if_splits)
qed (simp_all add: SetBootnodes_def)

lemma NewBackend_ok:
  assumes "crypto_laws (env_C env)" and "NewBackend env addr = Inr b" shows "backend_ok b"
proof -
  obtain p where p: "newPeer (EncodeToHex (drop 1 (elliptic_Marshal (PublicKey (env_C env) (env_key env))))) addr 0 = Inr p"
    using assms(2) by (auto simp: NewBackend_def Let_def bindR_eq_Inr)
  have "table_ok (b_table b)" "peers_of (b_table b) = {}"
    using NewRoutingTable_ok(1,2) [of bucketSize "LegacyKeccak256 (env_C env)" "Some (LegacyKeccak256 (env_C env))" 32]
      assms p crypto_laws.length_Keccak [OF assms(1)] by (auto simp: NewBackend_def Let_def bucketSize_def)
  then show ?thesis using assms(2) p newPeer_ok [OF p] by (auto simp: NewBackend_def Let_def backend_ok_defs)
qed

lemma NewBackend_returns: "\<exists>b. NewBackend env addr = Inr b"
  by (simp add: NewBackend_def Let_def newPeer_hex)

lemma reachable_ok:
  assumes "crypto_laws (env_C env)" and "NewBackend env addr = Inr b0" and "disc_run env b0 b" shows "backend_ok b"
proof -
  have "binv 0 0 {} b0" using NewBackend_ok [OF assms(1,2)] by (simp add: binv_def)
  then show ?thesis using disc_run_keeps [OF assms(3,1)] invD(1) by blast
qed


section \<open>Replies\<close>

function chunks :: "'a list \<Rightarrow> 'a list list" where
  "chunks xs = (if xs = [] then [] else take maxNeighbors xs # chunks (drop maxNeighbors xs))"
  by pat_completeness auto
termination
  by (relation "measure length") (auto simp: maxNeighbors_def)

declare chunks.simps [simp del]

lemma chunks_spec:
  "concat (chunks xs) = xs \<and> (\<forall>c \<in> set (chunks xs). c \<noteq> [] \<and> length c \<le> maxNeighbors) \<and>
   length (chunks xs) = (length xs + 5) div 6"
proof (induction xs rule: chunks.induct)
  case (1 xs)
  show ?case
  proof (cases "xs = []")
    case False
    have "length (chunks (drop maxNeighbors xs)) = (length (drop maxNeighbors xs) + 5) div 6"
      "concat (chunks (drop maxNeighbors xs)) = drop maxNeighbors xs" using 1 False by simp_all
    moreover have "Suc ((length xs - 6 + 5) div 6) = (length xs + 5) div 6"
      using False by (cases "length xs < 6") (auto simp: Suc_le_eq not_less div_if)
    ultimately show ?thesis using 1 False by (subst (1 2 3) chunks.simps) (simp add: maxNeighbors_def)
  qed (simp add: chunks.simps)
qed

lemma sendPacket_ok:
  assumes "a < length (b_heap b)" and "encodePacket (env_C env) (env_F env) (env_key env) code m = Some (Inr data)"
    and "env_WriteTo env (b_sent b) data (Peer_addr (b_heap b ! a))"
  shows "sendPacket env a code m b = Some (b\<lparr>b_sent := b_sent b @ [(data, Peer_addr (b_heap b ! a))]\<rparr>, Inr ())"
  using assms by (simp add: sendPacket_def bindS_def deref_def)

lemma send_neighbors_sent:
  assumes "\<And>ns. encodePacket (env_C env) (env_F env) (env_key env) neighborsPacket (NeighborsResponse \<lparr>nb_Nodes = ns, nb_Expiration = 0\<rparr>) = Some (Inr (pk ns))"
    and "\<And>l d w. env_WriteTo env l d w"
  shows "a < length (b_heap b) \<Longrightarrow> send_neighbors env a nodes b =
    Some (b\<lparr>b_sent := b_sent b @ map (\<lambda>ns. (pk ns, Peer_addr (b_heap b ! a))) (chunks nodes)\<rparr>, Inr ())"
proof (induction nodes arbitrary: b rule: chunks.induct)
  case (1 nodes)
  show ?case
  proof (cases "nodes = []")
    case True
    then show ?thesis by (simp add: send_neighbors.simps chunks.simps)
  next
    case False
    let ?b = "b\<lparr>b_sent := b_sent b @ [(pk (take maxNeighbors nodes), Peer_addr (b_heap b ! a))]\<rparr>"
    have "send_neighbors env a nodes b = send_neighbors env a (drop maxNeighbors nodes) ?b"
      using False sendPacket_ok [OF 1(2) assms(1) [of "take maxNeighbors nodes"] assms(2)]
      by (subst send_neighbors.simps) (simp add: bindS_eval)
    also have "\<dots> = Some (?b\<lparr>b_sent := b_sent ?b @ map (\<lambda>ns. (pk ns, Peer_addr (b_heap ?b ! a))) (chunks (drop maxNeighbors nodes))\<rparr>, Inr ())"
      by (rule 1(1)) (use False 1(2) in simp_all)
    finally show ?thesis using False by (simp add: chunks.simps [of nodes])
  qed
qed

text \<open>\<open>sendTask\<close> and \<open>updatePeer\<close> send nothing.\<close>

lemma silent_ops:
  "sendTask a b = Some (b', r) \<Longrightarrow> b_sent b' = b_sent b"
  "updatePeer a b = Some (b', r) \<Longrightarrow> b_sent b' = b_sent b"
  "Backend_hasExpired a b = Some (b', x) \<Longrightarrow> b' = b"
  by (auto simp: sendTask_def updatePeer_def Backend_hasExpired_def bindS_def deref_def getPeer_def table_Update_def assign_def
      split: option.splits sum.splits if_splits prod.splits)

section \<open>Keys of handlers\<close>

lemma handler_key_inject:
  assumes "length i = length j" shows "handler_key i c = handler_key j d \<longleftrightarrow> i = j \<and> c = d"
proof -
  have "c = d" if "dec_string (unat c) = dec_string (unat d)"
  proof -
    have "ParseUint 8 (dec_string (unat x)) = Inr (unat x)" for x :: byte
      by (rule ParseUint_dec_string) simp
    from this [of c] this [of d] have "unat c = unat d" unfolding that by simp
    then show ?thesis by (simp add: word_unat_eq_iff)
  qed
  then show ?thesis using assms by (auto simp: handler_key_def)
qed


section \<open>A concrete backend\<close>

definition demo_env :: "(bool, rlp) disc_env" where
  "demo_env = \<lparr>env_C = demo_lib, env_F = rlp_ref, env_key = True, env_WriteTo = (\<lambda>_ _ _. True)\<rparr>"

definition demo_addr :: UDPAddr where
  "demo_addr = \<lparr>addr_IP = [127, 0, 0, 1], addr_Port = 30303, addr_Zone = ''''\<rparr>"

text \<open>A peer that was heard of at time 0, known to the node map and the table's only candidate.\<close>

definition demo_peer :: Peer where
  "demo_peer = \<lparr>peer_ID = hex_EncodeToString (drop 1 (elliptic_Marshal (demo_point False))),
     peer_Bytes = drop 1 (elliptic_Marshal (demo_point False)), peer_UDPAddr = demo_addr, peer_Last = Some 0, peer_TCP = 0\<rparr>"

definition demo_start :: Backend where
  "demo_start = projr (NewBackend demo_env demo_addr)"

definition demo_backend :: Backend where
  "demo_backend = demo_start\<lparr>b_heap := [demo_peer], b_nodes := [(peer_ID demo_peer, 0)]\<rparr>"

lemma demo_laws: "crypto_laws (env_C demo_env)"
  by (simp add: demo_env_def demo.crypto_laws_axioms)

lemma demo_start: "NewBackend demo_env demo_addr = Inr demo_start"
  using NewBackend_returns [of demo_env demo_addr] by (auto simp: demo_start_def)

lemma NewBackend_fields:
  assumes "NewBackend env addr = Inr b"
  shows "b_heap b = [] \<and> b_nodes b = [] \<and> b_handlers b = (\<lambda>_. None) \<and> b_timers b = [] \<and>
    b_chans b = [] \<and> b_tasks b = [] \<and> b_eventCh b = [] \<and> b_sent b = []"
  using assms by (cases b) (auto simp: NewBackend_def Let_def bindR_eq_Inr)

lemmas demo_start_fields = NewBackend_fields [OF demo_start]

lemma demo_peer_ok: "peer_ok demo_peer"
  by (simp add: peer_ok_def demo_peer_def)

lemma demo_backend_ok: "backend_ok demo_backend"
  using NewBackend_ok [OF demo_laws demo_start] demo_peer_ok demo_start_fields
  by (auto simp: demo_backend_def backend_ok_defs)

lemma demo_not_expired: "Backend_hasExpired 0 demo_backend = Some (demo_backend, Inr False)"
  by (simp add: Backend_hasExpired_def bindS_def deref_def getPeer_def demo_backend_def demo_peer_def Peer_hasExpired_def
      bondExpiration_def Second_def)

lemma demo_encodes: "\<exists>d. encodePacket demo_lib rlp_ref True code m = Some (Inr d)"
proof -
  have "SignCompact demo_lib True h = Some (28 # replicate 64 0)" for h by (simp add: demo_lib_def)
  then obtain sig where "Sign demo_lib True (Keccak256 demo_lib [code # MarshalTo rlp_ref (rlpMessage_value rlp_ref m)]) = Some (Inr sig)"
    "length sig = 65" using demo.Sign_Recover by (metis nth_Cons_0)
  from encodePacket_layout [OF demo.crypto_laws_axioms this] show ?thesis by (simp add: Let_def)
qed

section \<open>Properties\<close>







text \<open>Property C16. A ping that cannot be decoded, in a packet with a valid digest and signature, makes \<open>HandlePacket\<close>
  panic: any node that knows the address can stop the process.\<close>

theorem HandlePacket_panics:
  assumes "decodePacket (env_C env) (pkt_Buf packet) = Some (Inr (mac, pingPacket # data, pubkey))"
    and "packet_peer packet pubkey = Inr p"
    and "decode_or_panic env (pingRequest_UnmarshalRLP (env_F env)) data = None"
  shows "HandlePacket env now now' packet b = None"
  using assms(3) unfolding HandlePacket_accepted [OF assms(1,2)]
  by (simp add: bindS_def alloc_def getCallback_def dispatch_def handlePingPacket_def split: option.split)

theorem HandlePacket_panics_witness:
  "HandlePacket demo_env 0 0 \<lparr>pkt_Buf = pingPacket # replicate 31 0 @ pingPacket # replicate 64 0 @ [pingPacket],
     pkt_From = AddrUDP demo_addr, pkt_Timestamp = 0\<rparr> demo_backend = None"
proof (rule HandlePacket_panics)
  let ?mac = "pingPacket # replicate 31 0 :: bytes" and ?sig = "pingPacket # replicate 64 0 :: bytes"
  let ?p = "\<lparr>pkt_Buf = ?mac @ ?sig @ [pingPacket], pkt_From = AddrUDP demo_addr, pkt_Timestamp = 0\<rparr>"
  have "decodePacket demo_lib (?mac @ ?sig @ [pingPacket]) = Some (Inr (?mac, [pingPacket], elliptic_Marshal (demo_point False)))"
    by (subst decodePacket_layout) (simp_all add: demo_lib_def Keccak256_def RecoverPubkey_def MarshallPublicKey_def liftC_def Let_def)
  then show "decodePacket (env_C demo_env) (pkt_Buf \<lparr>pkt_Buf = pingPacket # replicate 31 0 @ pingPacket # replicate 64 0 @ [pingPacket],
      pkt_From = AddrUDP demo_addr, pkt_Timestamp = 0\<rparr>) = Some (Inr (?mac, [pingPacket], elliptic_Marshal (demo_point False)))"
    by (simp add: demo_env_def)
  show "packet_peer \<lparr>pkt_Buf = pingPacket # replicate 31 0 @ pingPacket # replicate 64 0 @ [pingPacket],
      pkt_From = AddrUDP demo_addr, pkt_Timestamp = 0\<rparr> (elliptic_Marshal (demo_point False)) = Inr demo_peer"
    by (simp add: packet_peer_def newPeer_hex demo_peer_def)
  show "decode_or_panic demo_env (pingRequest_UnmarshalRLP (env_F demo_env)) [] = None"
    by (simp add: decode_or_panic_def demo_env_def rlp_ref_def rlp_parse_def)
qed


text \<open>Property C17. A response reaches the request that waits for it, and only that one: a packet with a code other than
  ping, from the peer and with the code that a handler was set for, hands its payload and time to the
  receiver parked on the handler's channel and changes nothing else; the handlers of other peers and
  codes have other keys.\<close>

theorem response_delivered:
  assumes "decodePacket (env_C env) (pkt_Buf packet) = Some (Inr (mac, code # data, pubkey))"
    and "packet_peer packet pubkey = Inr p" and "code \<noteq> pingPacket"
    and "b_handlers b (handler_key (peer_ID p) code) = Some ch" and "ch < length (b_chans b)" and "b_chans b ! ch = Waiting"
  shows "HandlePacket env now now' packet b =
      Some (b\<lparr>b_heap := b_heap b @ [p],
              b_chans := (b_chans b)[ch := Delivered \<lparr>Complete = True, Payload = data, Timestamp = Some (pkt_Timestamp packet)\<rparr>]\<rparr>, Inr ()) \<and>
    (\<forall>i c. length i = 128 \<longrightarrow> handler_key i c = handler_key (peer_ID p) code \<longrightarrow> i = peer_ID p \<and> c = code)"
proof
  show "\<forall>i c. length i = 128 \<longrightarrow> handler_key i c = handler_key (peer_ID p) code \<longrightarrow> i = peer_ID p \<and> c = code"
    using packet_peer_ok [OF assms(2)] handler_key_inject by (auto simp: peer_ok_def)
qed (use assms(3-6) in \<open>simp add: HandlePacket_accepted [OF assms(1,2)] bindS_def alloc_def getCallback_def dispatch_def send_ack_def\<close>)

theorem response_delivered_witness:
  "let b = demo_start\<lparr>b_chans := [Waiting], b_handlers := [handler_key (peer_ID demo_peer) 2 \<mapsto> 0]\<rparr>
   in HandlePacket demo_env 0 0 \<lparr>pkt_Buf = (2 # replicate 31 0) @ (2 # replicate 64 0) @ [2],
        pkt_From = AddrUDP demo_addr, pkt_Timestamp = 0\<rparr> b =
      Some (b\<lparr>b_heap := [demo_peer], b_chans := [Delivered \<lparr>Complete = True, Payload = [], Timestamp = Some 0\<rparr>]\<rparr>, Inr ())"
proof -
  let ?mac = "2 # replicate 31 0 :: bytes" and ?sig = "2 # replicate 64 0 :: bytes"
  let ?p = "\<lparr>pkt_Buf = ?mac @ ?sig @ [2], pkt_From = AddrUDP demo_addr, pkt_Timestamp = 0\<rparr>"
  let ?b = "demo_start\<lparr>b_chans := [Waiting], b_handlers := [handler_key (peer_ID demo_peer) 2 \<mapsto> 0]\<rparr>"
  have "decodePacket demo_lib (?mac @ ?sig @ [2]) = Some (Inr (?mac, [2], elliptic_Marshal (demo_point False)))"
    by (subst decodePacket_layout) (simp_all add: demo_lib_def Keccak256_def RecoverPubkey_def MarshallPublicKey_def liftC_def Let_def)
  then have "decodePacket (env_C demo_env) (pkt_Buf ?p) = Some (Inr (?mac, [2], elliptic_Marshal (demo_point False)))"
    by (simp add: demo_env_def)
  moreover have "packet_peer ?p (elliptic_Marshal (demo_point False)) = Inr demo_peer"
    by (simp add: packet_peer_def newPeer_hex demo_peer_def)
  ultimately show ?thesis
    using response_delivered [of demo_env ?p ?mac 2 "[]" "elliptic_Marshal (demo_point False)" demo_peer ?b 0 0 0] demo_start_fields
    by (simp add: pingPacket_def)
qed

text \<open>Property C18. The answer to a ping: when the ping has not expired, one packet is sent, a pong to the sender's address
  that carries the digest of the ping and expires 20 seconds later.\<close>

theorem ping_answered:
  assumes "crypto_laws (env_C env)" and "backend_ok b" and "a < length (b_heap b)"
    and "decode_or_panic env (pingRequest_UnmarshalRLP (env_F env)) data = Some req" and "\<not> hasExpired (ping_Expiration req) now"
    and "encodePacket (env_C env) (env_F env) (env_key env) pongPacket (PongResponse \<lparr>pong_To = toRPCEndpoint (b_heap b ! a),
           pong_ReplyTok = mac, pong_Expiration = Time_Unix (now' + 20 * Second)\<rparr>) = Some (Inr pk)"
  shows "\<exists>b' r. handlePingPacket env now now' data mac a b = Some (b', r) \<and> backend_ok b' \<and>
    b_sent b' = b_sent b @ [(pk, Peer_addr (b_heap b ! a))]"
proof -
  let ?n = "length (b_heap b)"
  have b: "binv ?n 0 {} b" using assms(2) by (simp add: binv_def)
  have "tot ?n 0 {} (handlePingPacket env now now' data mac a)" using assms(1,3,4) by (intro tot_handlePingPacket) simp_all
  from totalD [OF this b] obtain b' r where run: "handlePingPacket env now now' data mac a b = Some (b', r)" "binv ?n 0 {} b'"
    by blast
  let ?b = "b\<lparr>b_sent := b_sent b @ [(pk, Peer_addr (b_heap b ! a))]\<rparr>"
  have at: "(attempt (sendPacket env a pongPacket (PongResponse \<lparr>pong_To = toRPCEndpoint (b_heap b ! a),
      pong_ReplyTok = mac, pong_Expiration = Time_Unix (now' + 20 * Second)\<rparr>)) :: (disc_error + unit) disc) b =
      Some (?b, Inr (if env_WriteTo env (b_sent b) pk (Peer_addr (b_heap b ! a)) then Inr () else Inl WriteFailed))"
    using assms(3,6) by (simp add: attempt_def sendPacket_def bindS_def deref_def)
  have "handlePingPacket env now now' data mac a b =
      bindS (Backend_hasExpired a) (\<lambda>expired. if expired then sendTask a else updatePeer a) ?b"
    using assms(3-5) at by (simp add: handlePingPacket_def bindS_eval deref_def)
  with run(1) have "bindS (Backend_hasExpired a) (\<lambda>expired. if expired then sendTask a else updatePeer a) ?b = Some (b', r)"
    by simp
  then have "b_sent b' = b_sent ?b"
    by (cases rule: bindS_Some_cases) (auto dest!: silent_ops split: if_splits)
  then show ?thesis using run by (simp add: binv_def)
qed

theorem ping_answered_witness:
  "\<exists>b' r pk. handlePingPacket demo_env 0 0 (MarshalRLP rlp_ref (PingRequest sample_ping) []) [9] 0 demo_backend = Some (b', r) \<and>
    b_sent b' = [(pk, Peer_addr demo_peer)]"
proof -
  have fields: "b_heap demo_backend = [demo_peer]" "b_sent demo_backend = []"
    by (simp_all add: demo_backend_def demo_start_fields)
  have dec: "decode_or_panic demo_env (pingRequest_UnmarshalRLP (env_F demo_env)) (MarshalRLP rlp_ref (PingRequest sample_ping) []) = Some sample_ping"
    using discv4_ping_sample by (auto simp: decode_or_panic_def demo_env_def)
  obtain pk where pk: "encodePacket (env_C demo_env) (env_F demo_env) (env_key demo_env) pongPacket (PongResponse
      \<lparr>pong_To = toRPCEndpoint (b_heap demo_backend ! 0), pong_ReplyTok = [9], pong_Expiration = Time_Unix (0 + 20 * Second)\<rparr>) = Some (Inr pk)"
    using demo_encodes by (auto simp: demo_env_def)
  have "\<not> hasExpired (ping_Expiration sample_ping) 0"
    by (simp add: hasExpired_def time_Unix_def sample_ping_def unixToInternal_def Second_def)
  from ping_answered [OF demo_laws demo_backend_ok _ dec this pk] show ?thesis using fields by auto
qed






lemma lookup_seed_pending:
  "length (lk_pending (lookup_seed i L)) =
     (if i < 3 then length (lk_pending L) + min (3 - i) ((length (lk_queue L) - i + 1) div 2) else length (lk_pending L))"
proof (induction i L rule: lookup_seed.induct)
  case (1 i L)
  show ?case
  proof (cases "i < min (length (lk_queue L)) alpha")
    case True
    then have "length (lk_queue (lookup_ask L)) = length (lk_queue L) - 1" "lk_queue L \<noteq> []" "i < 3"
      by (auto simp: lookup_ask_simps alpha_def)
    moreover have "Suc (min (2 - i) (Suc (n - Suc (Suc i)) div 2)) = min (3 - i) (Suc (n - i) div 2)" if "i < n" "i < 3" for n
    proof -
      obtain d where n: "n = i + Suc d" using \<open>i < n\<close> less_iff_Suc_add by auto
      have "Suc (d - 1) div 2 = d div 2" by (cases d) simp_all
      moreover have "3 - i = Suc (2 - i)" using \<open>i < 3\<close> by simp
      ultimately show ?thesis by (simp add: n)
    qed
    ultimately show ?thesis using 1 True by (subst lookup_seed.simps) (auto simp: lookup_ask_simps)
  next
    case False
    then show ?thesis by (subst lookup_seed.simps) (auto simp: alpha_def)
  qed
qed



end
