(* ===== verification/GoStd.thy ===== *)
theory GoStd
  imports Prelude
begin

text \<open>
  The parts of the Go library that several components call: \<open>encoding/binary\<close> in big-endian
  order, \<open>sort.Search\<close> and \<open>hash/crc32\<close> with the IEEE polynomial, each written as the library
  documents it, with the facts that its callers need.
\<close>

section \<open>Big-endian integers\<close>

definition PutUint64 :: "uint64 \<Rightarrow> bytes" where
  "PutUint64 v = map (\<lambda>i. ucast (drop_bit (56 - 8 * i) v)) [0..<8]"

definition PutUint32 :: "uint32 \<Rightarrow> bytes" where
  "PutUint32 v = map (\<lambda>i. ucast (drop_bit (24 - 8 * i) v)) [0..<4]"

lemma length_PutUint [simp]: "length (PutUint64 v) = 8" "length (PutUint32 w) = 4"
  by (simp_all add: PutUint64_def PutUint32_def)

lemma PutUint64_inj: "PutUint64 v = PutUint64 w \<longleftrightarrow> v = w"
proof
  assume eq: "PutUint64 v = PutUint64 w"
  show "v = w"
  proof (rule bit_word_eqI)
    fix n assume n: "n < LENGTH(64)"
    define i where "i = 7 - n div 8"
    have i: "i < 8" "56 - 8 * i + n mod 8 = n" "n mod 8 < 8" using n by (simp_all add: i_def) presburger
    have "PutUint64 v ! i = PutUint64 w ! i" using eq by simp
    then have "bit (ucast (drop_bit (56 - 8 * i) v) :: byte) (n mod 8)
      = bit (ucast (drop_bit (56 - 8 * i) w) :: byte) (n mod 8)"
      using i(1) by (simp add: PutUint64_def)
    then show "bit v n = bit w n" using i n by (simp add: bit_ucast_iff bit_drop_bit_eq)
  qed
qed simp

section \<open>\<open>sort.Search\<close>\<close>

text \<open>Binary search for the least index in \<open>[i, j)\<close> at which \<open>f\<close> holds.\<close>

function Search_loop :: "(nat \<Rightarrow> bool) \<Rightarrow> nat \<Rightarrow> nat \<Rightarrow> nat" where
  "Search_loop f i j =
     (if i < j then
        (let h = (i + j) div 2 in if \<not> f h then Search_loop f (h + 1) j else Search_loop f i h)
      else i)"
  by pat_completeness auto

termination
  by (relation "measure (\<lambda>(f, i, j). j - i)") auto

definition Search :: "nat \<Rightarrow> (nat \<Rightarrow> bool) \<Rightarrow> nat" where
  "Search n f = Search_loop f 0 n"

declare Search_loop.simps [simp del]

lemma Search_loop_spec:
  assumes "\<And>a b. a \<le> b \<Longrightarrow> b < j \<Longrightarrow> f a \<Longrightarrow> f b" and "i \<le> j"
  shows "i \<le> Search_loop f i j \<and> Search_loop f i j \<le> j \<and>
    (\<forall>k. i \<le> k \<longrightarrow> k < Search_loop f i j \<longrightarrow> \<not> f k) \<and>
    (Search_loop f i j < j \<longrightarrow> f (Search_loop f i j))"
  using assms
proof (induction f i j rule: Search_loop.induct)
  case (1 f i j)
  define h where "h = (i + j) div 2"
  show ?case
  proof (cases "i < j")
    case True
    then have h: "i \<le> h" "h < j" by (simp_all add: h_def)
    show ?thesis
    proof (cases "f h")
      case True
      have "Search_loop f i j = Search_loop f i h"
        using \<open>i < j\<close> True by (subst Search_loop.simps) (simp add: h_def)
      moreover have "i \<le> Search_loop f i h \<and> Search_loop f i h \<le> h \<and>
          (\<forall>k. i \<le> k \<longrightarrow> k < Search_loop f i h \<longrightarrow> \<not> f k) \<and>
          (Search_loop f i h < h \<longrightarrow> f (Search_loop f i h))"
        using 1(2) [of h] \<open>i < j\<close> True h 1(3) by (simp add: h_def)
      ultimately show ?thesis using True h by (cases "Search_loop f i h = h") auto
    next
      case False
      have step: "Search_loop f i j = Search_loop f (h + 1) j"
        using \<open>i < j\<close> False by (subst Search_loop.simps) (simp add: h_def)
      have IH: "h + 1 \<le> Search_loop f (h + 1) j \<and> Search_loop f (h + 1) j \<le> j \<and>
          (\<forall>k. h + 1 \<le> k \<longrightarrow> k < Search_loop f (h + 1) j \<longrightarrow> \<not> f k) \<and>
          (Search_loop f (h + 1) j < j \<longrightarrow> f (Search_loop f (h + 1) j))"
        using 1(1) [of h] \<open>i < j\<close> False h 1(3) by (simp add: h_def)
      have "\<not> f k" if "k \<le> h" for k using 1(3) [OF that h(2)] False by blast
      then have "\<not> f k" if "k < Search_loop f (h + 1) j" for k
        using IH that by (cases "k \<le> h") auto
      then show ?thesis using IH h step by simp
    qed
  next
    case False
    then have "Search_loop f i j = i" by (subst Search_loop.simps) simp
    then show ?thesis using 1(4) False by simp
  qed
qed

text \<open>On a predicate that stays true once it is true, \<open>Search\<close> finds where it becomes true.\<close>

lemma Search_eqI:
  assumes mono: "\<And>a b. a \<le> b \<Longrightarrow> b < n \<Longrightarrow> f a \<Longrightarrow> f b"
    and "k \<le> n" and below: "\<And>i. i < k \<Longrightarrow> \<not> f i" and at: "k < n \<Longrightarrow> f k"
  shows "Search n f = k"
proof -
  let ?s = "Search_loop f 0 n"
  have s: "?s \<le> n" "\<And>i. i < ?s \<Longrightarrow> \<not> f i" "?s < n \<Longrightarrow> f ?s"
    using Search_loop_spec [of n f 0] mono by blast+
  have "\<not> ?s < k" using below [of ?s] s(3) \<open>k \<le> n\<close> by auto
  moreover have "\<not> k < ?s" using s(1) s(2) [of k] at by auto
  ultimately show ?thesis by (simp add: Search_def)
qed

section \<open>CRC-32\<close>

text \<open>An entry of \<open>crc32.IEEETable\<close>, and \<open>crc32.Update\<close> with that table.\<close>

definition crc_shift :: "uint32 \<Rightarrow> uint32" where
  "crc_shift c = (if bit c 0 then drop_bit 1 c XOR 0xedb88320 else drop_bit 1 c)"

definition IEEETable :: "byte \<Rightarrow> uint32" where
  "IEEETable b = (crc_shift ^^ 8) (ucast b)"

definition crc_step :: "uint32 \<Rightarrow> byte \<Rightarrow> uint32" where
  "crc_step c b = IEEETable (ucast c XOR b) XOR drop_bit 8 c"

definition crc32_Update :: "uint32 \<Rightarrow> bytes \<Rightarrow> uint32" where
  "crc32_Update crc p = NOT (foldl crc_step (NOT crc) p)"

definition ChecksumIEEE :: "bytes \<Rightarrow> uint32" where
  "ChecksumIEEE p = crc32_Update 0 p"

text \<open>Updating a checksum is the checksum of the longer input.\<close>

lemma crc32_Update_append: "crc32_Update (crc32_Update c p) q = crc32_Update c (p @ q)"
  by (simp add: crc32_Update_def)

lemma ChecksumIEEE_append: "crc32_Update (ChecksumIEEE p) q = ChecksumIEEE (p @ q)"
  by (simp add: ChecksumIEEE_def crc32_Update_append)

end
