(* ===== verification/Forkid.thy ===== *)
theory Forkid
  imports GoStd Fastrlp RlpRef
begin

text \<open>
  Fork identifiers, \<open>forkid/forkid.go\<close>: the list of checksums of a chain configuration, the
  identifier at a block, and the validation of a remote identifier. The checksums are
  CRC-32 values kept as their four bytes.
\<close>

section \<open>Definitions\<close>

record fork_ID =
  id_Hash :: bytes
  id_Next :: uint64

definition ID_Equal :: "fork_ID \<Rightarrow> fork_ID \<Rightarrow> bool" where
  "ID_Equal i ii \<longleftrightarrow> id_Next i \<noteq> id_Next ii \<or> id_Hash i = id_Hash ii"

definition ID_UnmarshalRLPWith :: "'v fastrlp \<Rightarrow> 'v \<Rightarrow> rlp_error + fork_ID" where
  "ID_UnmarshalRLPWith F v =
     bindR (of_option RlpError (GetElems F v)) (\<lambda>elems.
     if length elems \<noteq> 2 then Inl (BadLength (length elems)) else
     bindR (of_option RlpError (GetBytes F (elems ! 0) (Some 4))) (\<lambda>hash.
     bindR (of_option RlpError (GetUint64 F (elems ! 1))) (\<lambda>nxt.
     Inr \<lparr>id_Hash = hash, id_Next = nxt\<rparr>)))"

definition ID_MarshalRLPWith :: "'v fastrlp \<Rightarrow> fork_ID \<Rightarrow> 'v" where
  "ID_MarshalRLPWith F i = NewArray F [NewBytes F (id_Hash i), NewUint F (id_Next i)]"

record checksum =
  Number :: uint64
  Checksum :: bytes

definition checksums_add :: "checksum list \<Rightarrow> uint64 \<Rightarrow> bytes \<Rightarrow> checksum list" where
  "checksums_add c fork hash = c @ [\<lparr>Number = fork, Checksum = hash\<rparr>]"

type_synonym crc32Checksum = uint32

definition newCRC32 :: "bytes \<Rightarrow> crc32Checksum" where
  "newCRC32 genesis = ChecksumIEEE genesis"

definition crc_Add :: "crc32Checksum \<Rightarrow> uint64 \<Rightarrow> crc32Checksum" where
  "crc_Add c fork = crc32_Update c (PutUint64 fork)"

definition crc_Hash :: "crc32Checksum \<Rightarrow> bytes" where
  "crc_Hash c = PutUint32 c"

text \<open>
  The loop that drops repeated items writes into the slice it reads. \<open>forks[0:j]\<close> with
  \<open>j = 1\<close> on an empty slice reaches into the spare capacity of the caller's array, which is the
  argument \<open>spare\<close>; without spare capacity it panics.
\<close>

definition dedup_step :: "nat \<times> uint64 list \<Rightarrow> nat \<Rightarrow> nat \<times> uint64 list" where
  "dedup_step jf i = (let (j, forks) = jf in
     if forks ! i \<noteq> forks ! (i - 1) then (j + 1, forks[j := forks ! i]) else (j, forks))"

definition dedup_loop :: "uint64 list \<Rightarrow> nat \<times> uint64 list" where
  "dedup_loop forks = foldl dedup_step (1, forks) [1..<length forks]"

fun skip_genesis :: "uint64 list \<Rightarrow> uint64 list" where
  "skip_genesis [] = []"
| "skip_genesis (f # fs) = (if f \<noteq> 0 then f # fs else skip_genesis fs)"

definition cleanForks :: "uint64 list \<Rightarrow> uint64 list \<Rightarrow> uint64 list option" where
  "cleanForks forks spare =
     (let (j, forks) = dedup_loop (sort forks) in
      if j \<le> length (forks @ spare) then Some (skip_genesis (take j (forks @ spare))) else None)"

record ForkID =
  checksums :: "checksum list"

definition MaxUint64 :: uint64 where
  "MaxUint64 = 0xffffffffffffffff"

definition add_fork :: "crc32Checksum \<times> checksum list \<Rightarrow> uint64 \<Rightarrow> crc32Checksum \<times> checksum list" where
  "add_fork bs fork = (let (builder, sums) = bs; builder = crc_Add builder fork
                       in (builder, checksums_add sums fork (crc_Hash builder)))"

definition NewForkID :: "bytes \<Rightarrow> uint64 list \<Rightarrow> uint64 list \<Rightarrow> ForkID option" where
  "NewForkID genesis forks spare = do {
     forks \<leftarrow> cleanForks forks spare;
     let builder = newCRC32 genesis;
     let sums = checksums_add [] 0 (crc_Hash builder);
     let (builder, sums) = foldl add_fork (builder, sums) forks;
     let (builder, sums) = add_fork (builder, sums) MaxUint64;
     Some \<lparr>checksums = sums\<rparr>
   }"

definition findForkAt :: "ForkID \<Rightarrow> uint64 \<Rightarrow> int" where
  "findForkAt f block =
     int (Search (length (checksums f)) (\<lambda>i. block < Number (checksums f ! i))) - 1"

definition At :: "ForkID \<Rightarrow> uint64 \<Rightarrow> fork_ID option" where
  "At f block = do {
     let indx = findForkAt f block;
     c \<leftarrow> index_int (checksums f) indx;
     d \<leftarrow> index_int (checksums f) (indx + 1);
     Some \<lparr>id_Hash = Checksum c, id_Next = Number d\<rparr>
   }"

datatype forkid_error = ErrRemoteStale | ErrLocalIncompatibleOrStale

text \<open>The two searching loops of \<open>Validate\<close>, from index \<open>i\<close> on: the first index below \<open>n\<close> whose
  checksum is \<open>remoteID\<close>.\<close>

fun find_checksum :: "checksum list \<Rightarrow> bytes \<Rightarrow> nat list \<Rightarrow> nat option" where
  "find_checksum sums remoteID [] = None"
| "find_checksum sums remoteID (i # is) =
     (if Checksum (sums ! i) = remoteID then Some i else find_checksum sums remoteID is)"

definition Validate :: "ForkID \<Rightarrow> uint64 \<Rightarrow> bytes \<Rightarrow> uint64 \<Rightarrow> (forkid_error + unit) option" where
  "Validate f localHead remoteID remoteNext = do {
     let indx = findForkAt f localHead;
     localFork \<leftarrow> index_int (checksums f) indx;
     if Checksum localFork = remoteID then
       Some (if 0 < remoteNext \<and> remoteNext \<le> localHead then Inl ErrLocalIncompatibleOrStale else Inr ())
     else
       (case find_checksum (checksums f) remoteID [0..<nat indx] of
          Some i \<Rightarrow> do {
            d \<leftarrow> index (checksums f) (i + 1);
            Some (if remoteNext \<noteq> Number d then Inl ErrRemoteStale else Inr ())
          }
        | None \<Rightarrow>
          (case find_checksum (checksums f) remoteID [nat indx..<length (checksums f)] of
             Some i \<Rightarrow> Some (Inr ())
           | None \<Rightarrow> Some (Inl ErrLocalIncompatibleOrStale)))
   }"

section \<open>Cleaning the forks\<close>

lemma remdups_adj_snoc:
  "xs \<noteq> [] \<Longrightarrow> remdups_adj (xs @ [y]) = (if last xs = y then remdups_adj xs else remdups_adj xs @ [y])"
  by (induction xs rule: remdups_adj.induct) auto

lemma dedup_loop_inv:
  assumes "forks \<noteq> []" and "n \<le> length forks" and "0 < n"
  shows "case foldl dedup_step (1, forks) [1..<n] of (j, fs) \<Rightarrow>
    length fs = length forks \<and> 0 < j \<and> j \<le> n \<and> take j fs = remdups_adj (take n forks) \<and>
    fs ! (n - 1) = forks ! (n - 1) \<and> drop n fs = drop n forks"
  using assms(2,3)
proof (induction n)
  case (Suc n)
  show ?case
  proof (cases "n = 0")
    case True
    then show ?thesis using assms(1) by (cases forks) simp_all
  next
    case False
    obtain j fs where jf: "foldl dedup_step (1, forks) [1..<n] = (j, fs)" by (cases "foldl dedup_step (1, forks) [1..<n]")
    from Suc False jf have inv: "length fs = length forks" "0 < j" "j \<le> n"
      "take j fs = remdups_adj (take n forks)" "fs ! (n - 1) = forks ! (n - 1)" "drop n fs = drop n forks"
      by simp_all
    have n: "n < length forks" using Suc.prems by simp
    have fn: "fs ! n = forks ! n" using inv(1,6) n by (metis hd_drop_conv_nth)
    have rest: "drop (Suc n) fs = drop (Suc n) forks" using inv(6) by (metis drop_Suc tl_drop)
    have ne: "take n forks \<noteq> []" using False n by auto
    then have last: "last (take n forks) = forks ! (n - 1)"
      using False n by (simp add: last_conv_nth [OF ne])
    have adj: "remdups_adj (take (Suc n) forks) =
        (if forks ! (n - 1) = forks ! n then remdups_adj (take n forks) else remdups_adj (take n forks) @ [forks ! n])"
      using n last remdups_adj_snoc [OF ne, of "forks ! n"] by (simp add: take_Suc_conv_app_nth)
    have upt: "[1..<Suc n] = [1..<n] @ [n]" using False by simp
    show ?thesis
    proof (cases "forks ! (n - 1) = forks ! n")
      case True
      then have "foldl dedup_step (1, forks) [1..<Suc n] = (j, fs)"
        using fn inv(5) unfolding upt foldl_append jf by (simp add: dedup_step_def)
      then show ?thesis using inv fn rest True adj by simp
    next
      case False
      then have step: "foldl dedup_step (1, forks) [1..<Suc n] = (Suc j, fs[j := forks ! n])"
        using fn inv(5) unfolding upt foldl_append jf by (simp add: dedup_step_def)
      have "take (Suc j) (fs[j := forks ! n]) = take j fs @ [forks ! n]"
        using inv(1,3) n by (simp add: take_Suc_conv_app_nth)
      then show ?thesis
        unfolding step using inv fn rest n False adj by (simp add: nth_list_update drop_update_cancel)
    qed
  qed
qed simp

lemma sorted_remdups_adj_set:
  "sorted xs \<Longrightarrow> remdups_adj xs = sorted_list_of_set (set (xs :: 'a :: linorder list))"
proof (rule sorted_distinct_set_unique)
  show "distinct (remdups_adj xs)" if "sorted xs"
    using that by (induction xs rule: remdups_adj.induct) (auto dest: order_antisym)
qed simp_all

lemma skip_genesis_sorted: "sorted fs \<Longrightarrow> skip_genesis fs = filter (\<lambda>f. f \<noteq> 0) fs"
proof (induction fs)
  case (Cons f fs)
  show ?case
  proof (cases "f = 0")
    case False
    have "0 < g" if "g \<in> set fs" for g
      using Cons.prems that False by (metis list.set_intros(2) order_less_le_trans set_ConsD sorted_simps(2) word_gt_0)
    then have "filter (\<lambda>f. f \<noteq> 0) fs = fs" by (auto simp: filter_id_conv)
    then show ?thesis using False by simp
  qed (use Cons in simp)
qed simp

lemma cleanForks_eq:
  assumes "forks \<noteq> []"
  shows "cleanForks forks spare = Some (sorted_list_of_set (set forks - {0}))"
proof -
  obtain j fs where jf: "dedup_loop (sort forks) = (j, fs)" by (cases "dedup_loop (sort forks)")
  have ne: "sort forks \<noteq> []" using assms by (metis set_empty set_sort)
  have inv: "j \<le> length fs" "take j fs = remdups_adj (sort forks)"
    using dedup_loop_inv [OF ne, of "length (sort forks)"] jf assms
    by (simp_all add: dedup_loop_def)
  have set: "remdups_adj (sort forks) = sorted_list_of_set (set forks)"
    using sorted_remdups_adj_set [of "sort forks"] by simp
  have "cleanForks forks spare = Some (skip_genesis (take j fs))"
    using jf inv(1) by (simp add: cleanForks_def)
  also have "\<dots> = Some (filter (\<lambda>f. f \<noteq> 0) (sorted_list_of_set (set forks)))"
    using inv(2) set by (simp add: skip_genesis_sorted)
  also have "filter (\<lambda>f. f \<noteq> 0) (sorted_list_of_set (set forks)) = sorted_list_of_set (set forks - {0})"
    by (rule sorted_distinct_set_unique) (auto simp: sorted_wrt_filter)
  finally show ?thesis .
qed

lemma cleanForks_empty: "cleanForks [] [] = None"
  by (simp add: cleanForks_def dedup_loop_def)

section \<open>The checksums of a chain\<close>

text \<open>The checksum of a genesis and the forks passed, as the specification of fork identifiers has it:
  the CRC-32 of the genesis hash followed by the fork block numbers as big-endian 64-bit integers.\<close>

definition fork_hash :: "bytes \<Rightarrow> uint64 list \<Rightarrow> bytes" where
  "fork_hash genesis passed = PutUint32 (ChecksumIEEE (genesis @ concat (map PutUint64 passed)))"

definition chain_sums :: "bytes \<Rightarrow> uint64 list \<Rightarrow> checksum list" where
  "chain_sums genesis forks = \<lparr>Number = 0, Checksum = fork_hash genesis []\<rparr> #
     map (\<lambda>k. \<lparr>Number = forks ! k, Checksum = fork_hash genesis (take (Suc k) forks)\<rparr>) [0..<length forks]"

lemma foldl_add_fork:
  "foldl add_fork (ChecksumIEEE (genesis @ concat (map PutUint64 passed)), sums) forks =
    (ChecksumIEEE (genesis @ concat (map PutUint64 (passed @ forks))),
     sums @ map (\<lambda>k. \<lparr>Number = forks ! k, Checksum = fork_hash genesis (passed @ take (Suc k) forks)\<rparr>)
       [0..<length forks])"
proof (induction forks arbitrary: passed sums)
  case (Cons f forks)
  have step: "add_fork (ChecksumIEEE (genesis @ concat (map PutUint64 passed)), sums) f =
      (ChecksumIEEE (genesis @ concat (map PutUint64 (passed @ [f]))),
       sums @ [\<lparr>Number = f, Checksum = fork_hash genesis (passed @ [f])\<rparr>])"
    by (simp add: add_fork_def Let_def crc_Add_def crc_Hash_def checksums_add_def fork_hash_def ChecksumIEEE_append)
  have upt: "[0..<length (f # forks)] = 0 # map Suc [0..<length forks]"
    by (simp add: map_Suc_upt upt_conv_Cons del: upt_Suc)
  show ?case
    using Cons [of "passed @ [f]" "sums @ [\<lparr>Number = f, Checksum = fork_hash genesis (passed @ [f])\<rparr>]"]
    unfolding upt by (simp add: step comp_def)
qed simp

lemma NewForkID_eq:
  assumes "cleanForks forks spare = Some fs"
  shows "NewForkID genesis forks spare = Some \<lparr>checksums = chain_sums genesis (fs @ [MaxUint64])\<rparr>"
proof -
  have "foldl add_fork (newCRC32 genesis, checksums_add [] 0 (crc_Hash (newCRC32 genesis))) (fs @ [MaxUint64]) =
      (ChecksumIEEE (genesis @ concat (map PutUint64 (fs @ [MaxUint64]))), chain_sums genesis (fs @ [MaxUint64]))"
    using foldl_add_fork [of genesis "[]" "checksums_add [] 0 (crc_Hash (newCRC32 genesis))" "fs @ [MaxUint64]"]
    by (simp add: newCRC32_def chain_sums_def checksums_add_def crc_Hash_def fork_hash_def)
  then show ?thesis
    using assms by (simp add: NewForkID_def Let_def split: prod.splits)
qed

lemma length_chain_sums [simp]: "length (chain_sums genesis forks) = Suc (length forks)"
  by (simp add: chain_sums_def)

lemma chain_sums_nth:
  "m \<le> length forks \<Longrightarrow>
   chain_sums genesis forks ! m = \<lparr>Number = (0 # forks) ! m, Checksum = fork_hash genesis (take m forks)\<rparr>"
  by (cases m) (simp_all add: chain_sums_def)

lemma map_Number_chain_sums: "map Number (chain_sums genesis forks) = 0 # forks"
  by (rule nth_equalityI) (simp_all add: chain_sums_nth)

section \<open>Finding the fork of a block\<close>

text \<open>The tables that \<open>NewForkID\<close> builds: numbers in order, starting at zero.\<close>

definition fork_table :: "ForkID \<Rightarrow> bool" where
  "fork_table f \<longleftrightarrow> checksums f \<noteq> [] \<and> Number (hd (checksums f)) = 0 \<and> sorted (map Number (checksums f))"

definition fork_index :: "ForkID \<Rightarrow> uint64 \<Rightarrow> nat" where
  "fork_index f block = length (takeWhile (\<lambda>c. Number c \<le> block) (checksums f)) - 1"

lemma fork_index:
  assumes "fork_table f"
  shows "fork_index f block < length (checksums f)"
    and "findForkAt f block = int (fork_index f block)"
    and "i \<le> fork_index f block \<Longrightarrow> Number (checksums f ! i) \<le> block"
    and "fork_index f block < i \<Longrightarrow> i < length (checksums f) \<Longrightarrow> block < Number (checksums f ! i)"
proof -
  let ?sums = "checksums f"
  define k where "k = length (takeWhile (\<lambda>c. Number c \<le> block) ?sums)"
  have mono: "Number (?sums ! a) \<le> Number (?sums ! b)" if "a \<le> b" "b < length ?sums" for a b
    using assms that sorted_nth_mono [of "map Number ?sums" a b] by (simp add: fork_table_def)
  have le: "k \<le> length ?sums" unfolding k_def by (rule length_takeWhile_le)
  have pos: "0 < k" using assms by (cases ?sums) (simp_all add: k_def fork_table_def)
  then have index: "fork_index f block = k - 1" by (simp add: fork_index_def k_def)
  have below: "Number (?sums ! i) \<le> block" if "i < k" for i
    using that nth_mem [of i "takeWhile (\<lambda>c. Number c \<le> block) ?sums"]
    unfolding k_def by (auto simp: takeWhile_nth dest: set_takeWhileD)
  have at: "block < Number (?sums ! k)" if "k < length ?sums"
    using nth_length_takeWhile [of "\<lambda>c. Number c \<le> block" ?sums] that by (simp add: k_def not_le)
  have above: "block < Number (?sums ! i)" if "k \<le> i" "i < length ?sums" for i
    using mono [OF that] at that by (meson le_less_trans less_le_trans)
  show "fork_index f block < length ?sums" using index pos le by linarith
  have "Search (length ?sums) (\<lambda>i. block < Number (?sums ! i)) = k"
  proof (rule Search_eqI [OF _ le])
    show "block < Number (?sums ! b)" if "a \<le> b" "b < length ?sums" "block < Number (?sums ! a)" for a b
      using mono [OF that(1,2)] that(3) by simp
    show "\<not> block < Number (?sums ! i)" if "i < k" for i using below [OF that] by simp
    show "block < Number (?sums ! k)" if "k < length ?sums" using at [OF that] .
  qed
  then show "findForkAt f block = int (fork_index f block)"
    using index pos by (simp add: findForkAt_def)
  show "Number (?sums ! i) \<le> block" if "i \<le> fork_index f block" using below [of i] that index pos by simp
  show "block < Number (?sums ! i)" if "fork_index f block < i" "i < length ?sums"
    using above [of i] that index pos by simp
qed

lemma find_checksum_None: "find_checksum sums r is = None \<longleftrightarrow> (\<forall>i \<in> set is. Checksum (sums ! i) \<noteq> r)"
  by (induction "is") auto

lemma find_checksum_Some: "find_checksum sums r is = Some i \<Longrightarrow> i \<in> set is \<and> Checksum (sums ! i) = r"
  by (induction "is") (auto split: if_splits)

lemma NewForkID_table:
  assumes "NewForkID genesis forks spare = Some f" and "forks \<noteq> []"
  shows "checksums f = chain_sums genesis (sorted_list_of_set (set forks - {0}) @ [MaxUint64])"
    and "fork_table f" and "Number (last (checksums f)) = MaxUint64"
proof -
  let ?fs = "sorted_list_of_set (set forks - {0})"
  show sums: "checksums f = chain_sums genesis (?fs @ [MaxUint64])"
    using assms(1) NewForkID_eq [OF cleanForks_eq [OF assms(2)], of genesis spare] by auto
  have "x \<le> MaxUint64" for x
    using unsigned_less [of x, where 'a = nat] by (simp add: MaxUint64_def word_le_nat_alt)
  then have "sorted (0 # ?fs @ [MaxUint64])" by (simp add: sorted_append)
  then show "fork_table f"
    using sums by (simp add: fork_table_def map_Number_chain_sums) (simp add: chain_sums_def)
  have "checksums f \<noteq> []" using sums by (simp add: chain_sums_def)
  then have "Number (last (checksums f)) = last (map Number (checksums f))" by (simp add: last_map)
  then show "Number (last (checksums f)) = MaxUint64" by (simp add: sums map_Number_chain_sums)
qed

lemma sorted_filter_le_takeWhile:
  "sorted xs \<Longrightarrow> filter (\<lambda>x. x \<le> b) xs = takeWhile (\<lambda>x. x \<le> (b :: 'a :: linorder)) xs"
proof (induction xs)
  case (Cons x xs)
  show ?case
  proof (cases "x \<le> b")
    case False
    then have "\<not> y \<le> b" if "y \<in> set xs" for y using Cons.prems that by auto
    then show ?thesis using False by (simp add: filter_empty_conv)
  qed (use Cons in simp)
qed simp

lemma sorted_filter_gt_dropWhile:
  "sorted xs \<Longrightarrow> filter (\<lambda>x. (b :: 'a :: linorder) < x) xs = dropWhile (\<lambda>x. x \<le> b) xs"
proof (induction xs)
  case (Cons x xs)
  show ?case
  proof (cases "x \<le> b")
    case False
    then have "b < y" if "y \<in> set xs" for y using Cons.prems that by auto
    then have "filter (\<lambda>y. b < y) xs = xs" by (simp add: filter_id_conv)
    then show ?thesis using False by simp
  qed (use Cons in simp)
qed simp

lemma takeWhile_snoc: "\<not> P y \<Longrightarrow> takeWhile P (xs @ [y]) = takeWhile P xs"
  by (induction xs) simp_all

lemma nth_length_takeWhile_snoc:
  "(xs @ [y]) ! length (takeWhile P xs) = (case dropWhile P xs of [] \<Rightarrow> y | x # _ \<Rightarrow> x)"
  by (induction xs) simp_all

lemma At_fork_index:
  assumes "fork_table f" and "Suc (fork_index f block) < length (checksums f)"
  shows "At f block = Some \<lparr>id_Hash = Checksum (checksums f ! fork_index f block),
    id_Next = Number (checksums f ! Suc (fork_index f block))\<rparr>"
  using assms(2) fork_index(1,2) [OF assms(1), of block] by (simp add: At_def Let_def)

lemma fork_index_Suc:
  assumes "fork_table f" and "Number (last (checksums f)) = MaxUint64" and "block < MaxUint64"
  shows "Suc (fork_index f block) < length (checksums f)"
proof (rule ccontr)
  assume "\<not> ?thesis"
  then have "fork_index f block = length (checksums f) - 1"
    using fork_index(1) [OF assms(1), of block] by linarith
  then have "Number (last (checksums f)) \<le> block"
    using fork_index(3) [OF assms(1), of "fork_index f block" block] assms(1)
    by (simp add: last_conv_nth fork_table_def)
  then show False using assms(2,3) by simp
qed

lemma unique_checksum:
  assumes "distinct (map Checksum s)" and "i < length s" and "Checksum (s ! i) = r"
  shows "(\<exists>k < length s. Checksum (s ! k) = r \<and> P k) \<longleftrightarrow> P i"
    and "n \<le> length s \<Longrightarrow> (\<exists>k < n. Checksum (s ! k) = r \<and> P k) \<longleftrightarrow> i < n \<and> P i"
proof -
  have inj: "k = i" if "k < length s" "Checksum (s ! k) = r" for k
    using that assms nth_eq_iff_index_eq [OF assms(1), of k i] by simp
  show "(\<exists>k < length s. Checksum (s ! k) = r \<and> P k) \<longleftrightarrow> P i" using inj assms(2,3) by blast
  assume "n \<le> length s"
  then show "(\<exists>k < n. Checksum (s ! k) = r \<and> P k) \<longleftrightarrow> i < n \<and> P i"
    using inj assms(3) by (metis order_less_le_trans)
qed

text \<open>Where the loops of \<open>Validate\<close> can find the remote checksum.\<close>

lemma Validate_cases:
  assumes l: "fork_index f head < length (checksums f)"
  obtains (same) "Checksum (checksums f ! fork_index f head) = remoteID"
  | (behind) i where "i < fork_index f head" "Checksum (checksums f ! i) = remoteID"
      "find_checksum (checksums f) remoteID [0..<fork_index f head] = Some i"
  | (ahead) i where "fork_index f head < i" "i < length (checksums f)" "Checksum (checksums f ! i) = remoteID"
      "find_checksum (checksums f) remoteID [0..<fork_index f head] = None"
      "find_checksum (checksums f) remoteID [fork_index f head..<length (checksums f)] = Some i"
  | (unknown) "\<forall>i < length (checksums f). Checksum (checksums f ! i) \<noteq> remoteID"
      "find_checksum (checksums f) remoteID [0..<fork_index f head] = None"
      "find_checksum (checksums f) remoteID [fork_index f head..<length (checksums f)] = None"
proof -
  let ?s = "checksums f" and ?l = "fork_index f head"
  show ?thesis
  proof (cases "Checksum (?s ! ?l) = remoteID")
    case False
    show ?thesis
    proof (cases "find_checksum ?s remoteID [0..<?l]")
      case (Some i)
      with find_checksum_Some [OF Some] show ?thesis by (intro behind) auto
    next
      case lower: None
      show ?thesis
      proof (cases "find_checksum ?s remoteID [?l..<length ?s]")
        case (Some i)
        with find_checksum_Some [OF Some] False have "?l \<noteq> i" "?l \<le> i" "i < length ?s" "Checksum (?s ! i) = remoteID"
          by auto
        with lower Some show ?thesis by (intro ahead [of i]) auto
      next
        case None
        have "Checksum (?s ! i) \<noteq> remoteID" if "i < length ?s" for i
          using lower None that l unfolding find_checksum_None by (cases "i < ?l") auto
        with lower None show ?thesis by (intro unknown) auto
      qed
    qed
  qed (rule same)
qed

lemma Validate_char:
  assumes "fork_table f" and "distinct (map Checksum (checksums f))"
  shows "\<exists>r. Validate f head remoteID remoteNext = Some r \<and>
    (r = Inr () \<longleftrightarrow> (\<exists>k < length (checksums f). Checksum (checksums f ! k) = remoteID \<and>
       (k = fork_index f head \<longrightarrow> remoteNext = 0 \<or> head < remoteNext) \<and>
       (k < fork_index f head \<longrightarrow> remoteNext = Number (checksums f ! Suc k)))) \<and>
    (r = Inl ErrRemoteStale \<longleftrightarrow> (\<exists>k < fork_index f head. Checksum (checksums f ! k) = remoteID \<and>
       remoteNext \<noteq> Number (checksums f ! Suc k)))"
proof -
  let ?s = "checksums f" and ?l = "fork_index f head"
  note l = fork_index(1,2) [OF assms(1), of head]
  have val: "Validate f head remoteID remoteNext =
    (if Checksum (?s ! ?l) = remoteID
     then Some (if 0 < remoteNext \<and> remoteNext \<le> head then Inl ErrLocalIncompatibleOrStale else Inr ())
     else case find_checksum ?s remoteID [0..<?l] of
         Some i \<Rightarrow> do { d \<leftarrow> index ?s (i + 1); Some (if remoteNext \<noteq> Number d then Inl ErrRemoteStale else Inr ()) }
       | None \<Rightarrow> (case find_checksum ?s remoteID [?l..<length ?s] of
           Some i \<Rightarrow> Some (Inr ()) | None \<Rightarrow> Some (Inl ErrLocalIncompatibleOrStale)))"
    using l by (simp add: Validate_def cong: option.case_cong)
  consider (same) "Checksum (?s ! ?l) = remoteID"
    | (behind) i where "i < ?l" "Checksum (?s ! i) = remoteID" "find_checksum ?s remoteID [0..<?l] = Some i"
    | (ahead) i where "?l < i" "i < length ?s" "Checksum (?s ! i) = remoteID"
        "find_checksum ?s remoteID [0..<?l] = None" "find_checksum ?s remoteID [?l..<length ?s] = Some i"
    | (unknown) "\<forall>i < length ?s. Checksum (?s ! i) \<noteq> remoteID"
        "find_checksum ?s remoteID [0..<?l] = None" "find_checksum ?s remoteID [?l..<length ?s] = None"
    by (rule Validate_cases [of f head remoteID, OF l(1)])
  then show ?thesis
  proof cases
    case same
    note ex = unique_checksum [OF assms(2) l(1) same]
    have "0 < remoteNext \<and> remoteNext \<le> head \<longleftrightarrow> \<not> (remoteNext = 0 \<or> head < remoteNext)"
      by (auto simp: word_gt_0 not_le)
    with same show ?thesis by (simp add: val ex ex(2) [OF less_imp_le [OF l(1)]])
  next
    case (behind i)
    then have i: "i < length ?s" using l(1) by simp
    note ex = unique_checksum [OF assms(2) i behind(2)]
    have "Checksum (?s ! ?l) \<noteq> remoteID" using ex(1) [of "\<lambda>k. k = ?l"] behind(1) l(1) by auto
    with behind l(1) show ?thesis by (simp add: val ex(1) ex(2) [OF less_imp_le [OF l(1)]])
  next
    case (ahead i)
    note ex = unique_checksum [OF assms(2) ahead(2,3)]
    have "Checksum (?s ! ?l) \<noteq> remoteID" using ex(1) [of "\<lambda>k. k = ?l"] ahead(1) l(1) by auto
    with ahead show ?thesis by (simp add: val ex(1) ex(2) [OF less_imp_le [OF l(1)]])
  next
    case unknown
    have "\<forall>i < ?l. Checksum (?s ! i) \<noteq> remoteID" using unknown(1) l(1) by (metis order_less_trans)
    moreover have "Checksum (?s ! ?l) \<noteq> remoteID" using unknown(1) l(1) by blast
    ultimately show ?thesis using unknown by (auto simp: val)
  qed
qed

section \<open>Properties\<close>



text \<open>Property C8. On a table of checksums in order with pairwise different checksums, \<open>Validate\<close>
  always returns, and it accepts a remote identifier exactly when its checksum is in the table and,
  if the remote is at the local fork, the fork it announces is not already due at the local head,
  and, if the remote is behind, the fork it announces is the one that the local chain took next.
  It reports \<open>ErrRemoteStale\<close> exactly for a remote behind that announces another fork.\<close>

theorem Validate_spec:
  assumes "fork_table f" and "distinct (map Checksum (checksums f))"
  shows "\<exists>r. Validate f head remoteID remoteNext = Some r \<and>
    (r = Inr () \<longleftrightarrow> (\<exists>k < length (checksums f). Checksum (checksums f ! k) = remoteID \<and>
       (k = fork_index f head \<longrightarrow> remoteNext = 0 \<or> head < remoteNext) \<and>
       (k < fork_index f head \<longrightarrow> remoteNext = Number (checksums f ! Suc k)))) \<and>
    (r = Inl ErrRemoteStale \<longleftrightarrow> (\<exists>k < fork_index f head. Checksum (checksums f ! k) = remoteID \<and>
       remoteNext \<noteq> Number (checksums f ! Suc k)))"
  using assms by (rule Validate_char)

definition sample_forks :: ForkID where
  "sample_forks = \<lparr>checksums = [\<lparr>Number = 0, Checksum = [1, 0, 0, 0]\<rparr>,
     \<lparr>Number = 5, Checksum = [2, 0, 0, 0]\<rparr>, \<lparr>Number = MaxUint64, Checksum = [3, 0, 0, 0]\<rparr>]\<rparr>"

lemma sample_forks:
  "fork_table sample_forks" "distinct (map Checksum (checksums sample_forks))"
  "Number (last (checksums sample_forks)) = MaxUint64"
  by (simp_all add: sample_forks_def fork_table_def MaxUint64_def)

theorem Validate_spec_witness:
  "Validate sample_forks 7 [1, 0, 0, 0] 6 = Some (Inl ErrRemoteStale) \<and>
   Validate sample_forks 7 [1, 0, 0, 0] 5 = Some (Inr ())"
proof -
  have l: "fork_index sample_forks 7 = 1"
    by (simp add: fork_index_def sample_forks_def MaxUint64_def)
  have "\<exists>k < fork_index sample_forks 7. Checksum (checksums sample_forks ! k) = [1, 0, 0, 0] \<and>
      (6 :: uint64) \<noteq> Number (checksums sample_forks ! Suc k)"
    unfolding l by (intro exI [of _ 0]) (simp add: sample_forks_def)
  moreover have "\<exists>k < length (checksums sample_forks). Checksum (checksums sample_forks ! k) = [1, 0, 0, 0] \<and>
      (k = fork_index sample_forks 7 \<longrightarrow> (5 :: uint64) = 0 \<or> (7 :: uint64) < 5) \<and>
      (k < fork_index sample_forks 7 \<longrightarrow> 5 = Number (checksums sample_forks ! Suc k))"
    unfolding l by (intro exI [of _ 0]) (simp add: sample_forks_def)
  ultimately show ?thesis
    using Validate_spec [OF sample_forks(1,2), of 7 "[1, 0, 0, 0]" 6]
      Validate_spec [OF sample_forks(1,2), of 7 "[1, 0, 0, 0]" 5] by blast
qed

text \<open>Property C9. Two nodes of the same chain accept each other: whatever the local head and whatever
  the remote head below the largest number, the identifier that \<open>At\<close> gives at the remote head
  passes \<open>Validate\<close> at the local head.\<close>

theorem Validate_same_chain:
  assumes "fork_table f" and "distinct (map Checksum (checksums f))"
    and "Number (last (checksums f)) = MaxUint64" and "remote < MaxUint64"
  shows "\<exists>i. At f remote = Some i \<and> Validate f head (id_Hash i) (id_Next i) = Some (Inr ())"
proof -
  let ?s = "checksums f" and ?r = "fork_index f remote" and ?l = "fork_index f head"
  have r: "Suc ?r < length ?s" by (rule fork_index_Suc [OF assms(1,3,4)])
  let ?i = "\<lparr>id_Hash = Checksum (?s ! ?r), id_Next = Number (?s ! Suc ?r)\<rparr>"
  have "head < Number (?s ! Suc ?r)" if "?r = ?l" using fork_index(4) [OF assms(1), of head "Suc ?r"] r that by simp
  then have "\<exists>k < length ?s. Checksum (?s ! k) = Checksum (?s ! ?r) \<and>
      (k = ?l \<longrightarrow> Number (?s ! Suc ?r) = 0 \<or> head < Number (?s ! Suc ?r)) \<and>
      (k < ?l \<longrightarrow> Number (?s ! Suc ?r) = Number (?s ! Suc k))"
    using r by (intro exI [of _ ?r]) simp
  then have "Validate f head (Checksum (?s ! ?r)) (Number (?s ! Suc ?r)) = Some (Inr ())"
    using Validate_char [OF assms(1,2), of head "Checksum (?s ! ?r)" "Number (?s ! Suc ?r)"] by blast
  then show ?thesis using At_fork_index [OF assms(1) r] by simp
qed

theorem Validate_same_chain_witness:
  "\<exists>i. At sample_forks 3 = Some i \<and> Validate sample_forks 9 (id_Hash i) (id_Next i) = Some (Inr ())"
  by (rule Validate_same_chain [OF sample_forks]) (simp add: MaxUint64_def)

section \<open>The wire format of an identifier\<close>

context fastrlp_laws
begin

lemma fork_ID_message:
  "rlp_message F view (ID_MarshalRLPWith F) (ID_UnmarshalRLPWith F) Inr (\<lambda>i. length (id_Hash i) = 4)"
proof unfold_locales
  fix i v assume i: "length (id_Hash i) = 4" and v: "view v = view (ID_MarshalRLPWith F i)"
  obtain ws where ws: "GetElems F v = Some ws" "length ws = 2"
    "view (ws ! 0) = view (NewBytes F (id_Hash i))" "view (ws ! 1) = view (NewUint F (id_Next i))"
    by (rule GetElems_list [OF v [unfolded ID_MarshalRLPWith_def]]) force
  show "ID_UnmarshalRLPWith F v = Inr i"
    using i ws(1,2) GetBytes_NewBytes [OF ws(3)] GetUint64_NewUint [OF ws(4)]
    by (simp add: ID_UnmarshalRLPWith_def)
qed simp

end

interpretation fork_ID_ref: rlp_message rlp_ref "\<lambda>v. v" "ID_MarshalRLPWith rlp_ref"
  "ID_UnmarshalRLPWith rlp_ref" Inr "\<lambda>i. length (id_Hash i) = 4"
  by (rule rlp_ref.fork_ID_message)

end
