(* ===== verification/GoUrl.thy ===== *)
theory GoUrl
  imports GoNet
begin

text \<open>
  What the program uses of \<open>net/url\<close> and of the parsers of \<open>net\<close> in the Go library (version 1.18): \<open>url.Parse\<close>
  with the user, host and query of the result, \<open>net.SplitHostPort\<close> and \<open>net.ParseIP\<close>. The errors are not
  told apart, since the callers only pass them on.
\<close>

section \<open>Strings\<close>

definition is_lower :: "char \<Rightarrow> bool" where "is_lower c \<longleftrightarrow> 97 \<le> (of_char c :: nat) \<and> (of_char c :: nat) \<le> 122"
definition is_upper :: "char \<Rightarrow> bool" where "is_upper c \<longleftrightarrow> 65 \<le> (of_char c :: nat) \<and> (of_char c :: nat) \<le> 90"
definition is_digit :: "char \<Rightarrow> bool" where "is_digit c \<longleftrightarrow> 48 \<le> (of_char c :: nat) \<and> (of_char c :: nat) \<le> 57"
definition is_alnum :: "char \<Rightarrow> bool" where "is_alnum c \<longleftrightarrow> is_lower c \<or> is_upper c \<or> is_digit c"

definition ToLower :: "string \<Rightarrow> string" where
  "ToLower s = map (\<lambda>c. if is_upper c then char_of (of_char c + 32 :: nat) else c) s"

text \<open>\<open>strings.Cut\<close> at a character: what is before the first occurrence and what is after it.\<close>

definition Cut :: "string \<Rightarrow> char \<Rightarrow> string \<times> string" where
  "Cut s c = (takeWhile (\<lambda>x. x \<noteq> c) s, drop 1 (dropWhile (\<lambda>x. x \<noteq> c) s))"

text \<open>The same at the last occurrence, if there is one.\<close>

definition CutLast :: "string \<Rightarrow> char \<Rightarrow> (string \<times> string) option" where
  "CutLast s c =
     (if c \<in> set s then Some (rev (drop 1 (dropWhile (\<lambda>x. x \<noteq> c) (rev s))), rev (takeWhile (\<lambda>x. x \<noteq> c) (rev s))) else None)"

text \<open>\<open>strings.Index\<close> of a string.\<close>

fun IndexStr :: "string \<Rightarrow> string \<Rightarrow> nat option" where
  "IndexStr [] p = (if p = [] then Some 0 else None)"
| "IndexStr (c # s) p = (if HasPrefix (c # s) p then Some 0 else map_option Suc (IndexStr s p))"

section \<open>Escapes\<close>

datatype encoding = encodePath | encodeUserPassword | encodeHost | encodeZone | encodeQueryComponent | encodeFragment

definition shouldEscape :: "char \<Rightarrow> encoding \<Rightarrow> bool" where
  "shouldEscape c mode =
     (if is_alnum c then False
      else if mode \<in> {encodeHost, encodeZone} \<and> c \<in> set ''!$&'' \<union> {CHR 0x27} \<union> set ''()*+,;=:[]<>'' \<union> {CHR 0x22} then False
      else if c \<in> set ''-_.~'' then False
      else if c \<in> set ''$&+,/:;=?@'' \<and> mode = encodePath then c = CHR ''?''
      else if c \<in> set ''$&+,/:;=?@'' \<and> mode = encodeUserPassword then c \<in> set ''@/?:''
      else if c \<in> set ''$&+,/:;=?@'' \<and> mode = encodeQueryComponent then True
      else if c \<in> set ''$&+,/:;=?@'' \<and> mode = encodeFragment then False
      else if mode = encodeFragment \<and> c \<in> set ''!()*'' then False
      else True)"

fun unescape :: "string \<Rightarrow> encoding \<Rightarrow> string option" where
  "unescape [] mode = Some []"
| "unescape (c # s) mode =
     (if c = CHR ''%'' then
        (case s of
           a # b # r \<Rightarrow>
             (case (reverseHex a, reverseHex b) of
                (Some x, Some y) \<Rightarrow>
                  (let v = char_of (16 * x + y) in
                   if mode = encodeHost \<and> x < 8 \<and> \<not> (a = CHR ''2'' \<and> b = CHR ''5'') then None
                   else if mode = encodeZone \<and> \<not> (a = CHR ''2'' \<and> b = CHR ''5'') \<and> v \<noteq> CHR '' '' \<and> shouldEscape v encodeHost then None
                   else map_option (\<lambda>t. v # t) (unescape r mode))
              | _ \<Rightarrow> None)
         | _ \<Rightarrow> None)
      else if c = CHR ''+'' \<and> mode = encodeQueryComponent then map_option (\<lambda>t. CHR '' '' # t) (unescape s mode)
      else if mode \<in> {encodeHost, encodeZone} \<and> of_char c < (128 :: nat) \<and> shouldEscape c mode then None
      else map_option (\<lambda>t. c # t) (unescape s mode))"

definition upper_hex :: "nat \<Rightarrow> char" where
  "upper_hex n = (if n < 10 then char_of (48 + n) else char_of (55 + n))"

definition escape :: "string \<Rightarrow> encoding \<Rightarrow> string" where
  "escape s mode = concat (map (\<lambda>c.
     if c = CHR '' '' \<and> mode = encodeQueryComponent then ''+''
     else if shouldEscape c mode then [CHR ''%'', upper_hex (of_char c div 16), upper_hex (of_char c mod 16)] else [c]) s)"

section \<open>URLs\<close>

record Userinfo =
  ui_username :: string
  ui_password :: string
  ui_passwordSet :: bool

definition Userinfo_String :: "Userinfo \<Rightarrow> string" where
  "Userinfo_String u =
     (if ui_username u \<noteq> [] \<or> ui_passwordSet u
      then escape (ui_username u) encodeUserPassword @ (if ui_passwordSet u then '':'' @ escape (ui_password u) encodeUserPassword else [])
      else [])"

record URL =
  url_Scheme :: string
  url_User :: "Userinfo option"
  url_Host :: string
  url_RawQuery :: string

fun getScheme_loop :: "string \<Rightarrow> string \<Rightarrow> string \<Rightarrow> (string \<times> string) option" where
  "getScheme_loop raw done [] = Some ([], raw)"
| "getScheme_loop raw done (c # s) =
     (if is_lower c \<or> is_upper c then getScheme_loop raw (done @ [c]) s
      else if is_digit c \<or> c \<in> set ''+-.'' then (if done = [] then Some ([], raw) else getScheme_loop raw (done @ [c]) s)
      else if c = CHR '':'' then (if done = [] then None else Some (done, s))
      else Some ([], raw))"

definition getScheme :: "string \<Rightarrow> (string \<times> string) option" where
  "getScheme raw = getScheme_loop raw [] raw"

definition validOptionalPort :: "string \<Rightarrow> bool" where
  "validOptionalPort port = (case port of [] \<Rightarrow> True | c # ds \<Rightarrow> c = CHR '':'' \<and> list_all is_digit ds)"

definition validUserinfo :: "string \<Rightarrow> bool" where
  "validUserinfo s = list_all (\<lambda>c. is_alnum c \<or> c \<in> set ''-._:~!$&'' \<union> {CHR 0x27} \<union> set ''()*+,;=%@'') s"

definition parseHost :: "string \<Rightarrow> string option" where
  "parseHost host =
     (if HasPrefix host ''['' then
        (case CutLast host (CHR '']'') of
           None \<Rightarrow> None
         | Some (before, colonPort) \<Rightarrow>
           (if \<not> validOptionalPort colonPort then None
            else case IndexStr before ''%25'' of
              Some zone \<Rightarrow>
                do { host1 \<leftarrow> unescape (take zone host) encodeHost;
                     host2 \<leftarrow> unescape (drop zone before) encodeZone;
                     host3 \<leftarrow> unescape ('']'' @ colonPort) encodeHost;
                     Some (host1 @ host2 @ host3) }
            | None \<Rightarrow> unescape host encodeHost))
      else case CutLast host (CHR '':'') of
        Some (before, port) \<Rightarrow> if \<not> validOptionalPort ('':'' @ port) then None else unescape host encodeHost
      | None \<Rightarrow> unescape host encodeHost)"

definition parse_user :: "string \<Rightarrow> Userinfo option" where
  "parse_user userinfo =
     (if \<not> validUserinfo userinfo then None
      else if CHR '':'' \<notin> set userinfo then
        map_option (\<lambda>u. \<lparr>ui_username = u, ui_password = [], ui_passwordSet = False\<rparr>) (unescape userinfo encodeUserPassword)
      else let (username, password) = Cut userinfo (CHR '':'') in
        do { username \<leftarrow> unescape username encodeUserPassword;
             password \<leftarrow> unescape password encodeUserPassword;
             Some \<lparr>ui_username = username, ui_password = password, ui_passwordSet = True\<rparr> })"

definition parseAuthority :: "string \<Rightarrow> (Userinfo option \<times> string) option" where
  "parseAuthority authority =
     (case CutLast authority (CHR ''@'') of
        None \<Rightarrow> map_option (\<lambda>host. (None, host)) (parseHost authority)
      | Some (userinfo, rest) \<Rightarrow>
        do { host \<leftarrow> parseHost rest; user \<leftarrow> parse_user userinfo; Some (Some user, host) })"

definition containsCTLByte :: "string \<Rightarrow> bool" where
  "containsCTLByte s = list_ex (\<lambda>c. (of_char c :: nat) < 32 \<or> (of_char c :: nat) = 127) s"

text \<open>The query is cut off at the first question mark, also when it is empty.\<close>

definition parse_rest :: "string \<Rightarrow> string \<Rightarrow> string \<Rightarrow> URL option" where
  "parse_rest scheme rest query =
     (let url = \<lparr>url_Scheme = scheme, url_User = None, url_Host = [], url_RawQuery = query\<rparr> in
      if \<not> HasPrefix rest ''/'' \<and> scheme \<noteq> [] then Some url
      else if \<not> HasPrefix rest ''/'' \<and> CHR '':'' \<in> set (fst (Cut rest (CHR ''/''))) then None
      else if (scheme \<noteq> [] \<or> \<not> HasPrefix rest ''///'') \<and> HasPrefix rest ''//'' then
        (let authority = drop 2 rest; path = dropWhile (\<lambda>c. c \<noteq> CHR ''/'') authority in
         do { (user, host) \<leftarrow> parseAuthority (takeWhile (\<lambda>c. c \<noteq> CHR ''/'') authority);
              _ \<leftarrow> unescape path encodePath;
              Some (url\<lparr>url_User := user, url_Host := host\<rparr>) })
      else do { _ \<leftarrow> unescape rest encodePath; Some url })"

definition url_parse :: "string \<Rightarrow> URL option" where
  "url_parse raw =
     (if containsCTLByte raw then None
      else if raw = ''*'' then Some \<lparr>url_Scheme = [], url_User = None, url_Host = [], url_RawQuery = []\<rparr>
      else do { (scheme, rest) \<leftarrow> getScheme raw;
                let (rest, query) = Cut rest (CHR ''?'');
                parse_rest (ToLower scheme) rest query })"

definition url_Parse :: "string \<Rightarrow> URL option" where
  "url_Parse raw =
     (let (u, frag) = Cut raw (CHR ''#'') in
      do { url \<leftarrow> url_parse u; _ \<leftarrow> unescape frag encodeFragment; Some url })"

text \<open>\<open>u.Query().Get(key)\<close>: the first value of the key among the well-formed fields.\<close>

definition query_field :: "string \<Rightarrow> (string \<times> string) option" where
  "query_field f =
     (if CHR '';'' \<in> set f \<or> f = [] then None
      else let (key, val) = Cut f (CHR ''='') in
        do { key \<leftarrow> unescape key encodeQueryComponent; val \<leftarrow> unescape val encodeQueryComponent; Some (key, val) })"

lemma Cut_shorter: "(f, rest) = Cut s c \<Longrightarrow> s \<noteq> [] \<Longrightarrow> length rest < length s"
  using length_dropWhile_le [of "\<lambda>x. x \<noteq> c" s] by (cases s) (auto simp: Cut_def)

function query_fields :: "string \<Rightarrow> (string \<times> string) list" where
  "query_fields query =
     (if query = [] then []
      else let (f, rest) = Cut query (CHR ''&'') in
        (case query_field f of None \<Rightarrow> query_fields rest | Some kv \<Rightarrow> kv # query_fields rest))"
  by pat_completeness auto
termination
  by (relation "measure length") (simp_all add: Cut_shorter)

definition query_Get :: "string \<Rightarrow> string \<Rightarrow> string" where
  "query_Get query key = (case map_of (query_fields query) key of None \<Rightarrow> [] | Some v \<Rightarrow> v)"

section \<open>Hosts, ports and IP addresses\<close>

definition SplitHostPort :: "string \<Rightarrow> (string \<times> string) option" where
  "SplitHostPort hostport =
     (case CutLast hostport (CHR '':'') of
        None \<Rightarrow> None
      | Some (before, port) \<Rightarrow>
        (if HasPrefix hostport ''['' then
           (if CHR '']'' \<notin> set hostport then None
            else let end' = length (takeWhile (\<lambda>c. c \<noteq> CHR '']'') hostport) in
              if Suc end' \<noteq> length before then None
              else if CHR ''['' \<in> set (drop 1 hostport) \<or> CHR '']'' \<in> set (drop (Suc end') hostport) then None
              else Some (drop 1 (take end' hostport), port))
         else if CHR '':'' \<in> set before then None
         else if CHR ''['' \<in> set hostport \<or> CHR '']'' \<in> set hostport then None
         else Some (before, port)))"

text \<open>The number at the start of a string, and the number of its digits; none where a prefix of it reaches
  \<open>0xFFFFFF\<close>.\<close>

fun dtoi_loop :: "nat \<Rightarrow> nat \<Rightarrow> string \<Rightarrow> (nat \<times> nat) option" where
  "dtoi_loop n i [] = (if i = 0 then None else Some (n, i))"
| "dtoi_loop n i (c # s) =
     (case digit_value c of
        None \<Rightarrow> (if i = 0 then None else Some (n, i))
      | Some d \<Rightarrow> (if 0xFFFFFF \<le> n * 10 + d then None else dtoi_loop (n * 10 + d) (Suc i) s))"

definition dtoi :: "string \<Rightarrow> (nat \<times> nat) option" where "dtoi s = dtoi_loop 0 0 s"

fun xtoi_loop :: "nat \<Rightarrow> nat \<Rightarrow> string \<Rightarrow> (nat \<times> nat) option" where
  "xtoi_loop n i [] = (if i = 0 then None else Some (n, i))"
| "xtoi_loop n i (c # s) =
     (case reverseHex c of
        None \<Rightarrow> (if i = 0 then None else Some (n, i))
      | Some d \<Rightarrow> (if 0xFFFFFF \<le> n * 16 + d then None else xtoi_loop (n * 16 + d) (Suc i) s))"

definition xtoi :: "string \<Rightarrow> (nat \<times> nat) option" where "xtoi s = xtoi_loop 0 0 s"

text \<open>\<open>parseIPv4\<close> for the parts that are left to read; the result has the 16 bytes of \<open>IPv4\<close>.\<close>

fun parseIPv4_loop :: "nat \<Rightarrow> bytes \<Rightarrow> string \<Rightarrow> bytes option" where
  "parseIPv4_loop 0 p s = (if s = [] then Some p else None)"
| "parseIPv4_loop (Suc k) p s =
     (if s = [] then None
      else if p \<noteq> [] \<and> hd s \<noteq> CHR ''.'' then None
      else let s = (if p \<noteq> [] then tl s else s) in
        (case dtoi s of
           None \<Rightarrow> None
         | Some (n, c) \<Rightarrow>
           (if 0xFF < n then None
            else if 1 < c \<and> hd s = CHR ''0'' then None
            else parseIPv4_loop k (p @ [word_of_nat n]) (drop c s))))"

definition parseIPv4 :: "string \<Rightarrow> IP option" where
  "parseIPv4 s = map_option (\<lambda>p. v4InV6Prefix @ p) (parseIPv4_loop 4 [] s)"

text \<open>The loop of \<open>parseIPv6\<close>: the bytes so far, the position of the ellipsis, and the text left. It ends with the text
  that was not used.\<close>

function parseIPv6_loop :: "bytes \<Rightarrow> nat option \<Rightarrow> string \<Rightarrow> (bytes \<times> nat option \<times> string) option" where
  "parseIPv6_loop ip ellipsis s =
     (if 16 \<le> length ip then Some (ip, ellipsis, s)
      else case xtoi s of
        None \<Rightarrow> None
      | Some (n, c) \<Rightarrow>
        (if 0xFFFF < n then None
         else if c < length s \<and> s ! c = CHR ''.'' then
           (if ellipsis = None \<and> length ip \<noteq> 12 then None
            else if 16 < length ip + 4 then None
            else map_option (\<lambda>ip4. (ip @ drop 12 ip4, ellipsis, [])) (parseIPv4 s))
         else
           let ip = ip @ [word_of_nat (n div 256), word_of_nat n]; s = drop c s in
           if s = [] then Some (ip, ellipsis, [])
           else if hd s \<noteq> CHR '':'' \<or> length s = 1 then None
           else let s = tl s in
             if hd s = CHR '':'' then
               (if ellipsis \<noteq> None then None
                else let s = tl s in
                  if s = [] then Some (ip, Some (length ip), []) else parseIPv6_loop ip (Some (length ip)) s)
             else parseIPv6_loop ip ellipsis s))"
  by pat_completeness auto
termination
  by (relation "measure (\<lambda>(ip, ellipsis, s). 16 - length ip)") auto

definition expand_ellipsis :: "bytes \<times> nat option \<times> string \<Rightarrow> IP option" where
  "expand_ellipsis = (\<lambda>(ip, ellipsis, s).
     if s \<noteq> [] then None
     else if length ip < 16 then
       (case ellipsis of None \<Rightarrow> None | Some e \<Rightarrow> Some (take e ip @ replicate (16 - length ip) 0 @ drop e ip))
     else if ellipsis \<noteq> None then None
     else Some ip)"

definition parseIPv6 :: "string \<Rightarrow> IP option" where
  "parseIPv6 s =
     (if HasPrefix s ''::'' then
        (if length s = 2 then Some (replicate 16 0)
         else do { r \<leftarrow> parseIPv6_loop [] (Some 0) (drop 2 s); expand_ellipsis r })
      else do { r \<leftarrow> parseIPv6_loop [] None s; expand_ellipsis r })"

definition ParseIP :: "string \<Rightarrow> IP option" where
  "ParseIP s =
     (case dropWhile (\<lambda>c. c \<noteq> CHR ''.'' \<and> c \<noteq> CHR '':'') s of
        [] \<Rightarrow> None
      | c # _ \<Rightarrow> if c = CHR ''.'' then parseIPv4 s else parseIPv6 s)"

section \<open>Reading back what was printed\<close>

lemma while_not:
  "c \<notin> set s \<Longrightarrow> takeWhile (\<lambda>x. x \<noteq> c) (s @ c # t) = s" "c \<notin> set s \<Longrightarrow> dropWhile (\<lambda>x. x \<noteq> c) (s @ c # t) = c # t"
  "c \<notin> set s \<Longrightarrow> takeWhile (\<lambda>x. x \<noteq> c) s = s" "c \<notin> set s \<Longrightarrow> dropWhile (\<lambda>x. x \<noteq> c) s = []"
  by (induction s) auto

lemma CutLast_append: "c \<notin> set t \<Longrightarrow> CutLast (s @ c # t) c = Some (s, t)"
  by (simp add: CutLast_def while_not)

lemma Cut_append: "c \<notin> set s \<Longrightarrow> Cut (s @ c # t) c = (s, t)"
  by (simp add: Cut_def while_not)

lemma Cut_none: "c \<notin> set s \<Longrightarrow> Cut s c = (s, [])"
  by (simp add: Cut_def while_not)

text \<open>Characters that stand for themselves everywhere in a URL.\<close>

lemma unescape_alnum: "list_all is_alnum s \<Longrightarrow> unescape s mode = Some s"
  by (induction s) (auto simp: shouldEscape_def is_alnum_def is_lower_def is_upper_def is_digit_def)

lemma escape_alnum: "list_all is_alnum s \<Longrightarrow> escape s mode = s"
  by (induction s) (auto simp: escape_def shouldEscape_def is_alnum_def is_lower_def is_upper_def is_digit_def)

subsection \<open>IPv4 addresses\<close>

text \<open>The digits of a number, followed by something that is no digit.\<close>

definition stops :: "string \<Rightarrow> bool" where
  "stops s \<longleftrightarrow> (case s of [] \<Rightarrow> True | c # _ \<Rightarrow> digit_value c = None)"

lemma dtoi_loop_append: "ParseUint_loop 8 n ds = Inr m \<Longrightarrow> dtoi_loop n i (ds @ s) = dtoi_loop m (i + length ds) s"
  by (induction ds arbitrary: n i) (auto split: option.splits if_splits)

lemma dtoi_dec_string:
  assumes "n < 256" and "stops s"
  shows "dtoi (dec_string n @ s) = Some (n, length (dec_string n))"
  using dtoi_loop_append [of 0 "dec_string n" n 0 s] ParseUint_loop_dec_string [of n 8] assms
  by (cases s) (simp_all add: dtoi_def stops_def)

lemma dec_string_hd0: "hd (dec_string n) = CHR ''0'' \<Longrightarrow> n = 0"
proof (induction n rule: dec_string.induct)
  case (1 n)
  show ?case
  proof (cases "n < 10")
    case True
    have "dec_digit n = CHR ''0'' \<Longrightarrow> n = 0" using digit_value_dec_digit [OF True] by (simp add: digit_value_def)
    then show ?thesis using 1(2) True by (subst (asm) dec_string.simps) simp
  next
    case False
    then show ?thesis using 1 by (subst (asm) (2) dec_string.simps) (simp add: hd_append)
  qed
qed

lemma dec_string_0: "dec_string 0 = ''0''"
  by (simp add: dec_string.simps dec_digit_def char_of_def bit_iff_odd)

lemma dec_string_no_leading: "\<not> (1 < length (dec_string n) \<and> hd (dec_string n @ s) = CHR ''0'')"
  using dec_string_hd0 [of n] dec_string_0 by auto

lemma byte_not_above [simp]: "\<not> 255 < unat (b :: byte)"
  using unat_byte_less [of b] by linarith

lemma parseIPv4_loop_first:
  assumes "stops s"
  shows "parseIPv4_loop (Suc k) [] (dec_string (unat b) @ s) = parseIPv4_loop k [b] s"
  using dtoi_dec_string [OF _ assms, of "unat b"] dec_string_no_leading [of "unat b" s]
  by (auto simp: Let_def)

lemma parseIPv4_loop_next:
  assumes "stops s" and "p \<noteq> []"
  shows "parseIPv4_loop (Suc k) p (CHR ''.'' # dec_string (unat b) @ s) = parseIPv4_loop k (p @ [b]) s"
  using dtoi_dec_string [OF _ assms(1), of "unat b"] dec_string_no_leading [of "unat b" s] assms(2)
  by (auto simp: Let_def)

lemma stops_dot: "stops (CHR ''.'' # s)" "stops []"
  by (simp_all add: stops_def digit_value_def)

lemma parseIPv4_String:
  assumes "length p = 4"
  shows "parseIPv4 (IPv4_String p) = Some (v4InV6Prefix @ p)"
proof -
  from assms obtain a b c d where p: "p = [a, b, c, d]" by (auto simp: length_Suc_conv numeral_eq_Suc)
  have "parseIPv4_loop 4 [] (IPv4_String p) = Some p"
    using parseIPv4_loop_next [of "[]" "[a, b, c]" 0 d]
    by (simp add: p IPv4_String_def numeral_eq_Suc parseIPv4_loop_first stops_dot parseIPv4_loop_next del: parseIPv4_loop.simps(2))
  then show ?thesis by (simp add: parseIPv4_def)
qed

lemma is_digit_dec: "list_all is_digit (dec_string n)"
proof -
  have "is_digit (dec_digit d)" if "d < 10" for d using that by (simp add: is_digit_def dec_digit_def)
  then show ?thesis using dec_string_digits [of _ n] by (fastforce simp: list_all_iff)
qed

lemma ParseIP_v4:
  assumes "length p = 4"
  shows "ParseIP (IPv4_String p) = Some (v4InV6Prefix @ p)"
proof -
  have "\<forall>c \<in> set (dec_string n). c \<noteq> CHR ''.'' \<and> c \<noteq> CHR '':''" for n
    using is_digit_dec [of n] by (auto simp: list_all_iff is_digit_def)
  then have "dropWhile (\<lambda>c. c \<noteq> CHR ''.'' \<and> c \<noteq> CHR '':'') (dec_string n @ CHR ''.'' # s) = CHR ''.'' # s" for n s
    by (subst dropWhile_append2) auto
  then show ?thesis using parseIPv4_String [OF assms] by (simp add: ParseIP_def IPv4_String_def)
qed

subsection \<open>URLs with a user and an IPv4 host\<close>

definition host_char :: "char \<Rightarrow> bool" where
  "host_char c \<longleftrightarrow> is_digit c \<or> c = CHR ''.''"

lemma alnum_not: "is_alnum c \<Longrightarrow> c \<notin> set ''#?/@:%[]'' \<and> \<not> (of_char c :: nat) < 32 \<and> (of_char c :: nat) \<noteq> 127"
  by (auto simp: is_alnum_def is_lower_def is_upper_def is_digit_def)

lemma host_char_not: "host_char c \<Longrightarrow> c \<notin> set ''#?/@:%[]'' \<and> \<not> (of_char c :: nat) < 32 \<and> (of_char c :: nat) \<noteq> 127"
  by (auto simp: host_char_def is_digit_def)

lemma unescape_plain:
  "c \<noteq> CHR ''%'' \<Longrightarrow> c \<noteq> CHR ''+'' \<Longrightarrow> \<not> shouldEscape c mode \<Longrightarrow> unescape (c # s) mode = map_option (\<lambda>t. c # t) (unescape s mode)"
  by simp

lemma host_char_plain:
  assumes "host_char c \<or> c = CHR '':''"
  shows "c \<noteq> CHR ''%'' \<and> c \<noteq> CHR ''+'' \<and> \<not> shouldEscape c encodeHost"
proof (cases "is_digit c")
  case True
  then show ?thesis by (auto simp: shouldEscape_def is_alnum_def is_digit_def)
next
  case False
  then have "c = CHR ''.'' \<or> c = CHR '':''" using assms by (simp add: host_char_def)
  then show ?thesis by (elim disjE) (simp_all add: shouldEscape_def)
qed

lemma unescape_host: "list_all (\<lambda>c. host_char c \<or> c = CHR '':'') s \<Longrightarrow> unescape s encodeHost = Some s"
proof (induction s)
  case (Cons c s)
  then show ?case using unescape_plain [of c encodeHost s] host_char_plain [of c] by (simp del: unescape.simps(2))
qed simp

lemma is_digit_alnum: "is_digit c \<Longrightarrow> is_alnum c" by (simp add: is_alnum_def)

lemma parseHost_v4:
  assumes "list_all host_char ip" and "ip \<noteq> []" and "list_all is_digit port"
  shows "parseHost (ip @ CHR '':'' # port) = Some (ip @ CHR '':'' # port)"
proof -
  have port: "CHR '':'' \<notin> set port" using assms(3) by (auto simp: list_all_iff is_digit_def)
  have "\<not> HasPrefix (ip @ CHR '':'' # port) ''[''"
    using assms(1,2) by (cases ip) (auto simp: HasPrefix_def host_char_def is_digit_def)
  moreover have "unescape (ip @ CHR '':'' # port) encodeHost = Some (ip @ CHR '':'' # port)"
    using assms by (intro unescape_host) (auto simp: list_all_iff host_char_def)
  ultimately show ?thesis using assms(3) by (simp add: parseHost_def CutLast_append [OF port] validOptionalPort_def)
qed

lemma parse_user_alnum:
  assumes "list_all is_alnum u"
  shows "parse_user u = Some \<lparr>ui_username = u, ui_password = [], ui_passwordSet = False\<rparr>"
proof -
  have "CHR '':'' \<notin> set u" using assms alnum_not by (fastforce simp: list_all_iff)
  moreover have "validUserinfo u" using assms by (simp add: validUserinfo_def list_all_iff)
  ultimately show ?thesis using unescape_alnum [OF assms] by (simp add: parse_user_def)
qed

lemma parseAuthority_v4:
  assumes "list_all is_alnum u" and "list_all host_char ip" and "ip \<noteq> []" and "list_all is_digit port"
  shows "parseAuthority (u @ CHR ''@'' # ip @ CHR '':'' # port) =
    Some (Some \<lparr>ui_username = u, ui_password = [], ui_passwordSet = False\<rparr>, ip @ CHR '':'' # port)"
proof -
  have "CHR ''@'' \<notin> set (ip @ CHR '':'' # port)"
    using assms(2,4) by (auto simp: list_all_iff host_char_def is_digit_def)
  then show ?thesis
    by (simp add: parseAuthority_def CutLast_append parseHost_v4 [OF assms(2-4)] parse_user_alnum [OF assms(1)])
qed

definition url_plain :: "char \<Rightarrow> bool" where
  "url_plain c \<longleftrightarrow> c \<notin> set ''#?/'' \<and> \<not> ((of_char c :: nat) < 32 \<or> (of_char c :: nat) = 127)"

lemma url_plain_chars:
  "is_alnum c \<Longrightarrow> url_plain c" "host_char c \<Longrightarrow> url_plain c" "is_digit c \<Longrightarrow> url_plain c"
  "url_plain (CHR ''@'')" "url_plain (CHR '':'')" "url_plain (CHR ''='')"
  using alnum_not [of c] host_char_not [of c] is_digit_alnum [of c] by (auto simp: url_plain_def)

lemma url_plain_all:
  "list_all is_alnum s \<Longrightarrow> list_all url_plain s" "list_all host_char s \<Longrightarrow> list_all url_plain s" "list_all is_digit s \<Longrightarrow> list_all url_plain s"
  "list_all (\<lambda>c. is_alnum c \<or> c = CHR ''='') s \<Longrightarrow> list_all url_plain s"
  by (induction s) (auto simp: url_plain_chars)

lemma url_plain_not: "list_all url_plain s \<Longrightarrow> CHR ''#'' \<notin> set s \<and> CHR ''?'' \<notin> set s \<and> CHR ''/'' \<notin> set s \<and> \<not> containsCTLByte s"
  by (induction s) (auto simp: url_plain_def containsCTLByte_def)

lemma containsCTLByte_append: "containsCTLByte (s @ t) \<longleftrightarrow> containsCTLByte s \<or> containsCTLByte t"
  by (simp add: containsCTLByte_def)

lemma parse_rest_authority:
  assumes "CHR ''/'' \<notin> set a" and "parseAuthority a = Some (user, host)"
  shows "parse_rest ''enode'' (''//'' @ a) query = Some \<lparr>url_Scheme = ''enode'', url_User = user, url_Host = host, url_RawQuery = query\<rparr>"
  using assms(2) by (simp add: parse_rest_def HasPrefix_def Let_def while_not(3,4) [OF assms(1)])

lemma url_Parse_nofrag: "CHR ''#'' \<notin> set raw \<Longrightarrow> url_parse raw = Some u \<Longrightarrow> url_Parse raw = Some u"
  by (simp add: url_Parse_def Cut_none)

lemma url_Parse_v4:
  assumes u: "list_all is_alnum u" and ip: "list_all host_char ip" "ip \<noteq> []" and port: "list_all is_digit port"
    and q: "list_all (\<lambda>c. is_alnum c \<or> c = CHR ''='') query"
  shows "url_Parse (''enode://'' @ u @ ''@'' @ ip @ '':'' @ port @ (if query = [] then [] else ''?'' @ query)) =
    Some \<lparr>url_Scheme = ''enode'', url_User = Some \<lparr>ui_username = u, ui_password = [], ui_passwordSet = False\<rparr>,
      url_Host = ip @ '':'' @ port, url_RawQuery = query\<rparr>"
proof -
  let ?a = "u @ CHR ''@'' # ip @ CHR '':'' # port" and ?q = "if query = [] then [] else CHR ''?'' # query"
  let ?raw = "''enode://'' @ ?a @ ?q"
  have "list_all url_plain ?a"
    using url_plain_all(1) [OF u] url_plain_all(2) [OF ip(1)] url_plain_all(3) [OF port] by (simp add: url_plain_chars)
  note a = url_plain_not [OF this]
  note qq = url_plain_not [OF url_plain_all(4) [OF q]]
  have nofrag: "CHR ''#'' \<notin> set ?raw" using a qq by simp
  have "\<not> containsCTLByte ''enode://''" by (simp add: containsCTLByte_def)
  moreover have "\<not> containsCTLByte ?q" using qq by (simp add: containsCTLByte_def)
  ultimately have noctl: "\<not> containsCTLByte ?raw"
    using a unfolding containsCTLByte_append by simp
  have scheme: "getScheme ?raw = Some (''enode'', ''//'' @ ?a @ ?q)"
    by (simp add: getScheme_def is_lower_def is_upper_def is_digit_def)
  have lower: "ToLower ''enode'' = ''enode''" by (simp add: ToLower_def is_upper_def)
  have query: "Cut (''//'' @ ?a @ ?q) (CHR ''?'') = (''//'' @ ?a, query)"
    using Cut_append [of "CHR ''?''" "''//'' @ ?a" query] Cut_none [of "CHR ''?''" "''//'' @ ?a"] a by simp
  have "parse_rest ''enode'' (''//'' @ ?a) query = Some \<lparr>url_Scheme = ''enode'',
      url_User = Some \<lparr>ui_username = u, ui_password = [], ui_passwordSet = False\<rparr>, url_Host = ip @ CHR '':'' # port, url_RawQuery = query\<rparr>"
    using parse_rest_authority [OF _ parseAuthority_v4 [OF u ip port]] a by simp
  then have "url_parse ?raw = Some \<lparr>url_Scheme = ''enode'',
      url_User = Some \<lparr>ui_username = u, ui_password = [], ui_passwordSet = False\<rparr>, url_Host = ip @ CHR '':'' # port, url_RawQuery = query\<rparr>"
    using noctl scheme query lower by (simp add: url_parse_def)
  from url_Parse_nofrag [OF nofrag this] show ?thesis by (cases "query = []") simp_all
qed

lemma SplitHostPort_v4:
  assumes "list_all host_char ip" and "ip \<noteq> []" and "list_all is_digit port"
  shows "SplitHostPort (ip @ '':'' @ port) = Some (ip, port)"
proof -
  have "CHR '':'' \<notin> set port" using assms(3) by (auto simp: list_all_iff is_digit_def)
  moreover have "\<not> HasPrefix (ip @ CHR '':'' # port) ''[''"
    using assms(1,2) by (cases ip) (auto simp: HasPrefix_def host_char_def is_digit_def)
  moreover have "c \<notin> set ip \<and> c \<notin> set port" if "c \<in> set '':[]''" for c
    using assms that by (auto simp: list_all_iff host_char_def is_digit_def)
  ultimately show ?thesis by (simp add: SplitHostPort_def CutLast_append)
qed

lemma query_Get_single:
  assumes "list_all is_alnum key" and "list_all is_alnum v" and "key \<noteq> []"
  shows "query_Get (key @ ''='' @ v) key = v"
proof -
  have k: "CHR ''='' \<notin> set key" and c: "CHR ''&'' \<notin> set (key @ CHR ''='' # v)" "CHR '';'' \<notin> set (key @ CHR ''='' # v)"
    using assms by (auto simp: list_all_iff is_alnum_def is_lower_def is_upper_def is_digit_def)
  have "query_field (key @ CHR ''='' # v) = Some (key, v)"
    using c(2) assms by (simp add: query_field_def Cut_append [OF k] unescape_alnum)
  then show ?thesis
    using Cut_none [OF c(1)] by (simp add: query_Get_def query_fields.simps)
qed

end
