(* ===== verification/Enode.thy ===== *)
theory Enode
  imports GoUrl Crypto
begin

text \<open>
  \<open>enode/enode.go\<close>: the identifier of a node, which is its public key without the format byte, and the URL
  form of its address.
\<close>

section \<open>Definitions\<close>

definition nodeIDBytes :: nat where "nodeIDBytes = 512 div 8"

record Enode =
  en_ID :: bytes
  en_TCP :: uint16
  en_UDP :: uint16
  en_IP :: IP

definition ID_String :: "bytes \<Rightarrow> string" where
  "ID_String i = hex_EncodeToString i"

datatype enode_error =
    BadURL | BadScheme | BadID hex_error | IDNotFound | BadHost | BadIPAddress string
  | BadTCPPort num_error | BadUDPPort num_error | ShortID nat | InvalidPoint

text \<open>\<open>u.User\<close> is nil where the URL has no user part, and \<open>String\<close> of a nil \<open>Userinfo\<close> panics.\<close>

definition ParseURL :: "string \<Rightarrow> (enode_error + Enode) option" where
  "ParseURL rawurl =
     bindP (Some (of_option BadURL (url_Parse rawurl))) (\<lambda>u.
     if url_Scheme u \<noteq> ''enode'' then Some (Inl BadScheme) else
     case url_User u of
       None \<Rightarrow> None
     | Some user \<Rightarrow>
       (case hex_DecodeString (Userinfo_String user) of
          Inl e \<Rightarrow> Some (Inl (BadID e))
        | Inr h \<Rightarrow>
          (if length h \<noteq> nodeIDBytes then Some (Inl IDNotFound)
           else case SplitHostPort (url_Host u) of
             None \<Rightarrow> Some (Inl BadHost)
           | Some (host, port) \<Rightarrow>
             (case ParseIP host of
                None \<Rightarrow> Some (Inl (BadIPAddress host))
              | Some ip \<Rightarrow>
                (case ParseUint 16 port of
                   Inl e \<Rightarrow> Some (Inl (BadTCPPort e))
                 | Inr tcpPort \<Rightarrow>
                   (let discPort = query_Get (url_RawQuery u) ''discport'' in
                    if discPort \<noteq> [] then
                      (case ParseUint 16 discPort of
                         Inl e \<Rightarrow> Some (Inl (BadUDPPort e))
                       | Inr udpPort \<Rightarrow>
                         Some (Inr \<lparr>en_ID = h, en_TCP = word_of_nat tcpPort, en_UDP = word_of_nat udpPort, en_IP = ip\<rparr>))
                    else Some (Inr \<lparr>en_ID = h, en_TCP = word_of_nat tcpPort, en_UDP = word_of_nat tcpPort, en_IP = ip\<rparr>)))))))"

definition Enode_TCPAddr :: "Enode \<Rightarrow> UDPAddr" where
  "Enode_TCPAddr n = \<lparr>addr_IP = en_IP n, addr_Port = uint (en_TCP n), addr_Zone = []\<rparr>"

definition Enode_String :: "Enode \<Rightarrow> string" where
  "Enode_String n =
     ''enode://'' @ ID_String (en_ID n) @ ''@'' @ UDPAddr_String (Enode_TCPAddr n) @
     (if en_TCP n \<noteq> en_UDP n then ''?discport='' @ Itoa (uint (en_UDP n)) else [])"

definition NodeIDToPubKey :: "'k crypto_lib \<Rightarrow> bytes \<Rightarrow> enode_error + point" where
  "NodeIDToPubKey C buf =
     (if length buf \<noteq> nodeIDBytes then Inl (ShortID (length buf))
      else let half = length buf div 2;
               p = \<lparr>pt_X = SetBytes (take half buf), pt_Y = SetBytes (drop half buf)\<rparr>
           in if \<not> IsOnCurve C p then Inl InvalidPoint else Inr p)"

definition Enode_PublicKey :: "'k crypto_lib \<Rightarrow> Enode \<Rightarrow> enode_error + point" where
  "Enode_PublicKey C n = NodeIDToPubKey C (en_ID n)"

definition PubkeyToEnode :: "point \<Rightarrow> bytes" where
  "PubkeyToEnode pub = drop 1 (MarshallPublicKey pub)"

section \<open>Identifiers and keys\<close>

lemma length_PubkeyToEnode [simp]: "length (PubkeyToEnode p) = 64"
  by (simp add: PubkeyToEnode_def MarshallPublicKey_def)

lemma PubkeyToEnode_parts: "PubkeyToEnode p = FillBytes 32 (pt_X p) @ FillBytes 32 (pt_Y p)"
  by (simp add: PubkeyToEnode_def MarshallPublicKey_def elliptic_Marshal_def)

lemma NodeIDToPubKey_PubkeyToEnode:
  assumes "crypto_laws C" and "on_curve C p"
  shows "NodeIDToPubKey C (PubkeyToEnode p) = Inr p"
  using assms(2) crypto_laws.coordinates_256 [OF assms]
  by (cases p) (simp add: NodeIDToPubKey_def nodeIDBytes_def PubkeyToEnode_parts SetBytes_FillBytes on_curve_def)

lemma PubkeyToEnode_NodeIDToPubKey:
  assumes "NodeIDToPubKey C buf = Inr p"
  shows "PubkeyToEnode p = buf"
proof -
  from assms have len: "length buf = 64" and p: "p = \<lparr>pt_X = SetBytes (take 32 buf), pt_Y = SetBytes (drop 32 buf)\<rparr>"
    by (auto simp: NodeIDToPubKey_def nodeIDBytes_def Let_def split: if_splits)
  have "FillBytes 32 (SetBytes (take 32 buf)) = take 32 buf" "FillBytes 32 (SetBytes (drop 32 buf)) = drop 32 buf"
    using FillBytes_SetBytes [of "take 32 buf"] FillBytes_SetBytes [of "drop 32 buf"] len by simp_all
  then show ?thesis by (simp add: p PubkeyToEnode_parts)
qed

section \<open>URLs\<close>

lemma alnum_hex: "list_all is_alnum (hex_EncodeToString bs)"
proof -
  have "list_all is_alnum ''0123456789abcdef''" by (simp add: is_alnum_def is_lower_def is_digit_def)
  then have "is_alnum (hex_digit n)" if "n < 16" for n
    using that by (simp add: hex_digit_def list_all_length)
  moreover have "unat b div 16 < 16" for b :: byte using unat_byte_less [of b] by (simp add: less_mult_imp_div_less)
  ultimately show ?thesis by (induction bs) simp_all
qed

lemma ParseURL_v4:
  assumes "length i = 64" and "length p = 4" and "tcp < 2 ^ 16" and "udp < 2 ^ 16"
  shows "ParseURL (''enode://'' @ ID_String i @ ''@'' @ IPv4_String p @ '':'' @ dec_string tcp @
      (if udp = tcp then [] else ''?discport='' @ dec_string udp)) =
    Some (Inr \<lparr>en_ID = i, en_TCP = word_of_nat tcp, en_UDP = word_of_nat udp, en_IP = v4InV6Prefix @ p\<rparr>)"
proof -
  let ?q = "if udp = tcp then [] else ''discport='' @ dec_string udp"
  let ?u = "hex_EncodeToString i" and ?ip = "IPv4_String p"
  have digits: "list_all is_digit (dec_string n)" "list_all is_alnum (dec_string n)" for n
    using is_digit_dec [of n] by (auto simp: list_all_iff is_alnum_def)
  have ip: "list_all host_char ?ip" "?ip \<noteq> []"
    using is_digit_dec by (auto simp: IPv4_String_def host_char_def list_all_iff)
  have disc: "list_all is_alnum ''discport''" by (simp add: is_alnum_def is_lower_def)
  have q: "list_all (\<lambda>c. is_alnum c \<or> c = CHR ''='') ?q"
    using digits(2) [of udp] disc by (auto simp: list_all_iff)
  have get: "query_Get ?q ''discport'' = (if udp = tcp then [] else dec_string udp)"
    using query_Get_single [OF disc digits(2), of udp] by (simp add: query_Get_def query_fields.simps)
  have user: "Userinfo_String \<lparr>ui_username = ?u, ui_password = [], ui_passwordSet = False\<rparr> = ?u"
    by (simp add: Userinfo_String_def escape_alnum [OF alnum_hex])
  have url: "url_Parse (''enode://'' @ ID_String i @ ''@'' @ ?ip @ '':'' @ dec_string tcp @
      (if udp = tcp then [] else ''?discport='' @ dec_string udp)) =
    Some \<lparr>url_Scheme = ''enode'', url_User = Some \<lparr>ui_username = ?u, ui_password = [], ui_passwordSet = False\<rparr>,
      url_Host = ?ip @ '':'' @ dec_string tcp, url_RawQuery = ?q\<rparr>"
    using url_Parse_v4 [OF alnum_hex ip digits(1) q] by (cases "udp = tcp") (simp_all add: ID_String_def)
  show ?thesis
    unfolding ParseURL_def url
    using assms SplitHostPort_v4 [OF ip digits(1), of tcp] ParseIP_v4 [OF assms(2)] get user
    by (simp add: nodeIDBytes_def)
qed

lemma Itoa_uint16: "Itoa (uint (w :: uint16)) = dec_string (unat w)"
  by (simp add: Itoa_def)

lemma IPv4_no_colon: "CHR '':'' \<notin> set (IPv4_String p)"
proof -
  have "CHR '':'' \<notin> set (dec_string n)" for n by (rule dec_string_no) code_simp
  then show ?thesis by (simp add: IPv4_String_def)
qed

lemma TCPAddr_v4:
  assumes "To4 (en_IP n) = Some p"
  shows "UDPAddr_String (Enode_TCPAddr n) = IPv4_String p @ '':'' @ dec_string (unat (en_TCP n))"
proof -
  have "en_IP n \<noteq> []" using assms by (auto simp: To4_def)
  then show ?thesis
    using assms IPv4_no_colon [of p]
    by (simp add: UDPAddr_String_def Enode_TCPAddr_def IP_String_def JoinHostPort_def Itoa_uint16)
qed

section \<open>Properties\<close>



text \<open>A URL without a user part makes \<open>ParseURL\<close> panic.\<close>

lemma ParseURL_panics: "ParseURL ''enode://127.0.0.1:30303'' = None"
proof -
  have "url_Parse ''enode://127.0.0.1:30303'' =
    Some \<lparr>url_Scheme = ''enode'', url_User = None, url_Host = ''127.0.0.1:30303'', url_RawQuery = []\<rparr>"
    by code_simp
  then show ?thesis by (simp add: ParseURL_def)
qed

end
