(* ===== verification/RlpxCommon.thy ===== *)
theory RlpxCommon
  imports Enode RlpRef GoMonad
begin

text \<open>
  \<open>rlpx/common.go\<close>: the reasons of a disconnect and the hello message of the base protocol, with its
  list of capabilities. An \<open>enode.ID\<close> is an array of 64 bytes.
\<close>

section \<open>Definitions\<close>

definition BaseProtocolVersion :: uint64 where "BaseProtocolVersion = 5"
definition BaseProtocolLength :: uint64 where "BaseProtocolLength = 16"
definition baseProtocolMaxMsgSize :: nat where "baseProtocolMaxMsgSize = 2 * 1024"
definition snappyProtocolVersion :: uint64 where "snappyProtocolVersion = 5"

type_synonym DiscReason = uint64

definition DiscRequested :: DiscReason where "DiscRequested = 0"
definition DiscNetworkError :: DiscReason where "DiscNetworkError = 1"
definition DiscProtocolError :: DiscReason where "DiscProtocolError = 2"
definition DiscUselessPeer :: DiscReason where "DiscUselessPeer = 3"
definition DiscTooManyPeers :: DiscReason where "DiscTooManyPeers = 4"
definition DiscAlreadyConnected :: DiscReason where "DiscAlreadyConnected = 5"
definition DiscIncompatibleVersion :: DiscReason where "DiscIncompatibleVersion = 6"
definition DiscInvalidIdentity :: DiscReason where "DiscInvalidIdentity = 7"
definition DiscQuitting :: DiscReason where "DiscQuitting = 8"
definition DiscUnexpectedIdentity :: DiscReason where "DiscUnexpectedIdentity = 9"
definition DiscSelf :: DiscReason where "DiscSelf = 10"
definition DiscReadTimeout :: DiscReason where "DiscReadTimeout = 11"
definition DiscSubprotocolError :: DiscReason where "DiscSubprotocolError = 0x10"
definition DiscUnknown :: DiscReason where "DiscUnknown = 0x100"

definition DiscReason_String :: "DiscReason \<Rightarrow> string" where
  "DiscReason_String d =
     (if d = DiscRequested then ''disconnect requested''
      else if d = DiscNetworkError then ''network error''
      else if d = DiscProtocolError then ''breach of protocol''
      else if d = DiscUselessPeer then ''useless peer''
      else if d = DiscTooManyPeers then ''too many peers''
      else if d = DiscAlreadyConnected then ''already connected''
      else if d = DiscIncompatibleVersion then ''incompatible p2p protocol version''
      else if d = DiscInvalidIdentity then ''invalid node identity''
      else if d = DiscQuitting then ''client quitting''
      else if d = DiscUnexpectedIdentity then ''unexpected identity''
      else if d = DiscSelf then ''connected to self''
      else if d = DiscReadTimeout then ''read timeout''
      else if d = DiscSubprotocolError then ''subprotocol error''
      else ''unknown disconnect reason: '' @ dec_string (unat d))"

text \<open>The errors of the package.\<close>

datatype rlpx_error =
    BadRlp rlp_error | BadIDType | BadIDLen nat | ReadFailed | WriteError
  | IncorrectHeaderMac | IncorrectPayloadMac | IncorrectLength | CodeTooBig | SnappyFailed | SizeOverflow
  | StreamClosed | Disc DiscReason | MessageTooBig | Disconnected DiscReason | ExpectedHandshake uint64
  | NodeIDMismatch | NoMatchingProtocols | HandshakeTimeout | SizeUnderflow nat | DecryptFailed | EncryptFailed
  | SharedFailed | RandFailed | CryptoErr crypto_error | EnodeErr enode_error | BadKeyLength nat | BadCipherKey
  | ExpectedHeader | WrongLength nat nat | NotImplemented | ReadTimeout

text \<open>\<open>decodeDiscMsg\<close> returns a reason also beside an error: \<open>DiscUnknown\<close>.\<close>

definition decodeDiscMsg :: "'v fastrlp \<Rightarrow> bytes \<Rightarrow> DiscReason \<times> rlpx_error option" where
  "decodeDiscMsg F buf =
     (case Parse F buf of
        None \<Rightarrow> (DiscUnknown, Some (BadRlp RlpError))
      | Some v \<Rightarrow>
        (case (case GetElems F v of
                 Some elems \<Rightarrow> (if length elems \<noteq> 1 then Inl (BadRlp (BadLength (length elems))) else Inr (elems ! 0))
               | None \<Rightarrow> Inr v) of
           Inl e \<Rightarrow> (DiscUnknown, Some e)
         | Inr elem \<Rightarrow>
           (case GetUint64 F elem of
              None \<Rightarrow> (DiscUnknown, Some (BadRlp RlpError))
            | Some num \<Rightarrow> (num, None))))"

definition handshakeMsg :: uint64 where "handshakeMsg = 0"
definition discMsg :: uint64 where "discMsg = 1"
definition pingMsg :: uint64 where "pingMsg = 2"
definition pongMsg :: uint64 where "pongMsg = 3"

record Cap =
  cap_Name :: string
  cap_Version :: uint64

definition Cap_unmarshalRLP :: "'v fastrlp \<Rightarrow> 'v \<Rightarrow> rlpx_error + Cap" where
  "Cap_unmarshalRLP F v =
     bindR (of_option (BadRlp RlpError) (GetElems F v)) (\<lambda>fields.
     if length fields \<noteq> 2 then Inl (BadRlp (BadLength (length fields))) else
     bindR (of_option (BadRlp RlpError) (GetString F (fields ! 0))) (\<lambda>name.
     bindR (of_option (BadRlp RlpError) (GetUint64 F (fields ! 1))) (\<lambda>version.
     Inr \<lparr>cap_Name = name, cap_Version = version\<rparr>)))"

text \<open>Strings are compared by their bytes.\<close>

definition Cap_less :: "Cap \<Rightarrow> Cap \<Rightarrow> bool" where
  "Cap_less c cc =
     (if cap_Name c \<noteq> cap_Name cc then bytes_of_string (cap_Name c) < bytes_of_string (cap_Name cc)
      else cap_Version c < cap_Version cc)"

record Info =
  info_Version :: uint64
  info_Name :: string
  info_Caps :: "Cap list"
  info_ListenPort :: uint64
  info_ID :: bytes

definition Cap_value :: "'v fastrlp \<Rightarrow> Cap \<Rightarrow> 'v" where
  "Cap_value F c = NewArray F [NewString F (cap_Name c), NewUint F (cap_Version c)]"

definition Info_value :: "'v fastrlp \<Rightarrow> Info \<Rightarrow> 'v" where
  "Info_value F i =
     NewArray F [NewUint F (info_Version i), NewString F (info_Name i),
       if info_Caps i = [] then NewNullArray F else NewArray F (map (Cap_value F) (info_Caps i)),
       NewUint F (info_ListenPort i), NewBytes F (info_ID i)]"

definition Info_MarshalRLP :: "'v fastrlp \<Rightarrow> Info \<Rightarrow> bytes \<Rightarrow> bytes" where
  "Info_MarshalRLP F i dst = dst @ MarshalTo F (Info_value F i)"

fun caps_unmarshalRLP :: "'v fastrlp \<Rightarrow> Cap list \<Rightarrow> 'v list \<Rightarrow> rlpx_error + Cap list" where
  "caps_unmarshalRLP F caps [] = Inr caps"
| "caps_unmarshalRLP F caps (e # es) = bindR (Cap_unmarshalRLP F e) (\<lambda>c. caps_unmarshalRLP F (caps @ [c]) es)"

text \<open>What \<open>UnmarshalRLP\<close> does with the parsed value.\<close>

definition Info_decode :: "'v fastrlp \<Rightarrow> 'v \<Rightarrow> rlpx_error + Info" where
  "Info_decode F v =
     bindR (of_option (BadRlp RlpError) (GetElems F v)) (\<lambda>elems.
     if length elems < 5 then Inl (BadRlp (BadLength (length elems))) else
     bindR (of_option (BadRlp RlpError) (GetUint64 F (elems ! 0))) (\<lambda>version.
     bindR (of_option (BadRlp RlpError) (GetString F (elems ! 1))) (\<lambda>name.
     bindR (of_option (BadRlp RlpError) (GetElems F (elems ! 2))) (\<lambda>es.
     bindR (caps_unmarshalRLP F [] es) (\<lambda>caps.
     bindR (of_option (BadRlp RlpError) (GetUint64 F (elems ! 3))) (\<lambda>port.
     if \<not> IsBytes F (elems ! 4) then Inl BadIDType
     else if length (Raw F (elems ! 4)) \<noteq> 64 then Inl (BadIDLen (length (Raw F (elems ! 4))))
     else Inr \<lparr>info_Version = version, info_Name = name, info_Caps = caps, info_ListenPort = port,
               info_ID = Raw F (elems ! 4)\<rparr>))))))"

definition Info_UnmarshalRLP :: "'v fastrlp \<Rightarrow> bytes \<Rightarrow> rlpx_error + Info" where
  "Info_UnmarshalRLP F b = bindR (of_option (BadRlp RlpError) (Parse F b)) (Info_decode F)"

section \<open>Reading back what was written\<close>

context fastrlp_laws
begin

lemma Cap_message: "rlp_message F view (Cap_value F) (Cap_unmarshalRLP F) Inr (\<lambda>_. True)"
proof unfold_locales
  fix c v assume v: "view v = view (Cap_value F c)"
  obtain ws where ws: "GetElems F v = Some ws" "length ws = 2"
    "view (ws ! 0) = view (NewString F (cap_Name c))" "view (ws ! 1) = view (NewUint F (cap_Version c))"
    by (rule GetElems_list [OF v [unfolded Cap_value_def]]) force
  show "Cap_unmarshalRLP F v = Inr c"
    using ws(1,2) GetString_NewString [OF ws(3)] GetUint64_NewUint [OF ws(4)] by (simp add: Cap_unmarshalRLP_def)
qed simp

lemma caps_unmarshalRLP_map:
  "map view vs = map view (map (Cap_value F) cs) \<Longrightarrow> caps_unmarshalRLP F ds vs = Inr (ds @ cs)"
proof (induction cs arbitrary: vs ds)
  case (Cons c cs)
  then obtain v vs' where vs: "vs = v # vs'" "view v = view (Cap_value F c)"
    "map view vs' = map view (map (Cap_value F) cs)" by (cases vs) auto
  then show ?case using Cons.IH [OF vs(3)] rlp_message.dec_enc [OF Cap_message TrueI vs(2)] by simp
qed simp

lemma Info_message: "rlp_message F view (Info_value F) (Info_decode F) Inr (\<lambda>i. length (info_ID i) = 64)"
proof unfold_locales
  fix i v assume len: "length (info_ID i) = 64" and v: "view v = view (Info_value F i)"
  obtain ws where ws: "GetElems F v = Some ws" "length ws = 5"
    "view (ws ! 0) = view (NewUint F (info_Version i))" "view (ws ! 1) = view (NewString F (info_Name i))"
    "view (ws ! 2) = view (if info_Caps i = [] then NewNullArray F else NewArray F (map (Cap_value F) (info_Caps i)))"
    "view (ws ! 3) = view (NewUint F (info_ListenPort i))" "view (ws ! 4) = view (NewBytes F (info_ID i))"
    by (rule GetElems_list [OF v [unfolded Info_value_def]]) force
  have "view (ws ! 2) = view (NewArray F (map (Cap_value F) (info_Caps i)))"
    using ws(5) NewNullArray_empty by (simp split: if_splits)
  from GetElems_NewArray [OF this] obtain es where es: "GetElems F (ws ! 2) = Some es"
    "map view es = map view (map (Cap_value F) (info_Caps i))" by blast
  show "Info_decode F v = Inr i"
    using len ws(1,2) GetUint64_NewUint [OF ws(3)] GetString_NewString [OF ws(4)] es(1) caps_unmarshalRLP_map [OF es(2), of "[]"]
      GetUint64_NewUint [OF ws(6)] Raw_NewBytes [OF ws(7)]
    by (simp add: Info_decode_def)
qed simp

end

interpretation Info_ref: rlp_message rlp_ref "\<lambda>v. v" "Info_value rlp_ref" "Info_decode rlp_ref" Inr "\<lambda>i. length (info_ID i) = 64"
  by (rule rlp_ref.Info_message)

lemma Info_wire:
  assumes "fastrlp_laws F view" and "length (info_ID i) = 64" and "length (Info_MarshalRLP F i []) < 2 ^ 63"
  shows "Info_UnmarshalRLP F (Info_MarshalRLP F i []) = Inr i"
  using rlp_message.wire_roundtrip [OF fastrlp_laws.Info_message [OF assms(1)], of i] assms(2,3)
  by (auto simp: Info_MarshalRLP_def Info_UnmarshalRLP_def)

text \<open>A disconnect message is a list with the reason.\<close>

lemma decodeDiscMsg_list:
  assumes "fastrlp_laws F view" and "length (MarshalTo F (NewArray F [NewUint F d])) < 2 ^ 63"
  shows "decodeDiscMsg F (MarshalTo F (NewArray F [NewUint F d])) = (d, None)"
proof -
  obtain v where v: "Parse F (MarshalTo F (NewArray F [NewUint F d])) = Some v" "view v = view (NewArray F [NewUint F d])"
    by (rule fastrlp_laws.Parse_marshalled [OF assms])
  obtain ws where ws: "GetElems F v = Some ws" "length ws = 1" "view (ws ! 0) = view (NewUint F d)"
    by (rule fastrlp_laws.GetElems_list [OF assms(1) v(2)]) force
  show ?thesis using v(1) ws(1,2) fastrlp_laws.GetUint64_NewUint [OF assms(1) ws(3)] by (simp add: decodeDiscMsg_def)
qed

text \<open>The order of capabilities is a strict linear order.\<close>

lemma Cap_less_linear:
  "\<not> Cap_less c c" "Cap_less a b \<Longrightarrow> Cap_less b c \<Longrightarrow> Cap_less a c"
  by (auto simp: Cap_less_def split: if_splits)

lemma Cap_less_total: "a \<noteq> b \<Longrightarrow> Cap_less a b \<or> Cap_less b a"
proof -
  assume "a \<noteq> b"
  then have "cap_Name a \<noteq> cap_Name b \<or> cap_Version a \<noteq> cap_Version b" by (cases a; cases b) simp
  then show ?thesis using inj_bytes_of_string [of "cap_Name a" "cap_Name b"]
    by (auto simp: Cap_less_def neq_iff)
qed

end
