(* ===== verification/EthMsg.thy ===== *)
theory EthMsg
  imports Forkid RlpxCommon
begin

text \<open>
  The messages of the eth wire protocol, \<open>wire/eth/messages.go\<close>: how they are written with and read from the RLP library, and the
  comparison of two statuses. A \<open>Marshaler\<close> is the value it marshals to, an \<open>Unmarshaler\<close> the function that
  reads a value. Hashes are lists of 32 bytes.
\<close>

section \<open>Definitions\<close>

datatype eth_error =
    EthRlp rlp_error | TwoItemsExpected | WrongItems nat | IncorrectProtocolVersion | IncorrectNetwork | IncorrectGenesis | IncorrectForkID
  | RequestNotFound | RequestTimeout | StreamFailed rlpx_error | DecoderFailed

abbreviation rlp_try :: "'a option \<Rightarrow> eth_error + 'a" where
  "rlp_try \<equiv> of_option (EthRlp RlpError)"

definition MarshalRLP :: "'v fastrlp \<Rightarrow> 'v \<Rightarrow> bytes" where
  "MarshalRLP F m = MarshalTo F m"

definition UnmarshalRLP :: "'v fastrlp \<Rightarrow> bytes \<Rightarrow> ('v \<Rightarrow> eth_error + 'm) \<Rightarrow> eth_error + 'm" where
  "UnmarshalRLP F buf m = bindR (rlp_try (Parse F buf)) m"

definition Request_MarshalRLPWith :: "'v fastrlp \<Rightarrow> uint64 \<Rightarrow> 'v \<Rightarrow> 'v" where
  "Request_MarshalRLPWith F requestId body = NewArray F [NewUint F requestId, body]"

text \<open>\<open>body\<close> reads the body; without one, the body is the value itself.\<close>

definition Response_UnmarshalRLPWith :: "'v fastrlp \<Rightarrow> ('v \<Rightarrow> eth_error + 'b) \<Rightarrow> 'v \<Rightarrow> eth_error + uint64 \<times> 'b" where
  "Response_UnmarshalRLPWith F body v =
     bindR (rlp_try (GetElems F v)) (\<lambda>elems.
     if length elems \<noteq> 2 then Inl TwoItemsExpected else
     bindR (rlp_try (GetUint64 F (elems ! 0))) (\<lambda>requestId.
     bindR (body (elems ! 1)) (\<lambda>b. Inr (requestId, b))))"

definition EmptyArray_MarshalRLPWith :: "'v fastrlp \<Rightarrow> 'v" where
  "EmptyArray_MarshalRLPWith F = NewNullArray F"

record BlockHeadersPacket =
  bh_Hash :: "bytes option"
  bh_Number :: uint64
  bh_Amount :: uint64
  bh_Skip :: uint64
  bh_Reverse :: bool

definition BlockHeadersPacket_MarshalRLPWith :: "'v fastrlp \<Rightarrow> BlockHeadersPacket \<Rightarrow> 'v" where
  "BlockHeadersPacket_MarshalRLPWith F g =
     NewArray F [case bh_Hash g of Some h \<Rightarrow> NewBytes F h | None \<Rightarrow> NewUint F (bh_Number g),
       NewUint F (bh_Amount g), NewUint F (bh_Skip g), NewBool F (bh_Reverse g)]"

text \<open>\<open>Bytes\<close> of the library is \<open>GetBytes\<close> without a length. The packet that is filled is a new one.\<close>

definition BlockHeadersPacket_UnmarshalRLPWith :: "'v fastrlp \<Rightarrow> 'v \<Rightarrow> eth_error + BlockHeadersPacket" where
  "BlockHeadersPacket_UnmarshalRLPWith F v =
     bindR (rlp_try (GetElems F v)) (\<lambda>elems.
     if length elems \<noteq> 4 then Inl (WrongItems (length elems)) else
     bindR (rlp_try (GetBytes F (elems ! 0) None)) (\<lambda>buf.
     bindR (if length buf = 32 then Inr (Some buf, 0) else bindR (rlp_try (GetUint64 F (elems ! 0))) (\<lambda>n. Inr (None, n))) (\<lambda>(hash, number).
     bindR (rlp_try (GetUint64 F (elems ! 1))) (\<lambda>amount.
     bindR (rlp_try (GetUint64 F (elems ! 2))) (\<lambda>skip.
     bindR (rlp_try (GetBool F (elems ! 3))) (\<lambda>rev.
     Inr \<lparr>bh_Hash = hash, bh_Number = number, bh_Amount = amount, bh_Skip = skip, bh_Reverse = rev\<rparr>))))))"

text \<open>The loops that append one element for each item.\<close>

fun append_each :: "('v \<Rightarrow> eth_error + 'a) \<Rightarrow> 'a list \<Rightarrow> 'v list \<Rightarrow> eth_error + 'a list" where
  "append_each f h [] = Inr h"
| "append_each f h (elem # elems) = bindR (f elem) (\<lambda>x. append_each f (h @ [x]) elems)"

definition HashList_UnmarshalRLPWith :: "'v fastrlp \<Rightarrow> 'v \<Rightarrow> eth_error + bytes list" where
  "HashList_UnmarshalRLPWith F v =
     bindR (rlp_try (GetElems F v)) (append_each (\<lambda>elem. rlp_try (GetHash F elem)) [])"

definition HashList_MarshalRLPWith :: "'v fastrlp \<Rightarrow> bytes list \<Rightarrow> 'v" where
  "HashList_MarshalRLPWith F h = NewArray F (map (NewBytes F) h)"

definition RlpList_UnmarshalRLPWith :: "'v fastrlp \<Rightarrow> 'v \<Rightarrow> eth_error + 'v list" where
  "RlpList_UnmarshalRLPWith F v = rlp_try (GetElems F v)"

record NewBlockHash =
  nb_Hash :: bytes
  nb_Number :: uint64

definition NewBlockHash_UnmarshalRLPWith :: "'v fastrlp \<Rightarrow> 'v \<Rightarrow> eth_error + NewBlockHash" where
  "NewBlockHash_UnmarshalRLPWith F v =
     bindR (rlp_try (GetElems F v)) (\<lambda>elems.
     if length elems \<noteq> 2 then Inl (WrongItems (length elems)) else
     bindR (rlp_try (GetHash F (elems ! 0))) (\<lambda>hash.
     bindR (rlp_try (GetUint64 F (elems ! 1))) (\<lambda>number.
     Inr \<lparr>nb_Hash = hash, nb_Number = number\<rparr>)))"

definition newBlockHashesPacket_UnmarshalRLPWith :: "'v fastrlp \<Rightarrow> 'v \<Rightarrow> eth_error + NewBlockHash list" where
  "newBlockHashesPacket_UnmarshalRLPWith F v =
     bindR (rlp_try (GetElems F v)) (append_each (NewBlockHash_UnmarshalRLPWith F) [])"

record eth_Status =
  st_ProtocolVersion :: uint64
  st_NetworkID :: uint64
  st_TD :: nat
  st_Head :: bytes
  st_Genesis :: bytes
  st_ForkID :: fork_ID

definition Status_Equal :: "eth_Status \<Rightarrow> eth_Status \<Rightarrow> eth_error + unit" where
  "Status_Equal s ss =
     (if st_ProtocolVersion s \<noteq> st_ProtocolVersion ss then Inl IncorrectProtocolVersion
      else if st_NetworkID s \<noteq> st_NetworkID ss then Inl IncorrectNetwork
      else if st_Genesis s \<noteq> st_Genesis ss then Inl IncorrectGenesis
      else if \<not> ID_Equal (st_ForkID s) (st_ForkID ss) then Inl IncorrectForkID
      else Inr ())"

definition Status_UnmarshalRLPWith :: "'v fastrlp \<Rightarrow> 'v \<Rightarrow> eth_error + eth_Status" where
  "Status_UnmarshalRLPWith F v =
     bindR (rlp_try (GetElems F v)) (\<lambda>elems.
     if length elems \<noteq> 6 then Inl (WrongItems (length elems)) else
     bindR (rlp_try (GetUint64 F (elems ! 0))) (\<lambda>version.
     bindR (rlp_try (GetUint64 F (elems ! 1))) (\<lambda>network.
     bindR (rlp_try (GetBigInt F (elems ! 2))) (\<lambda>td.
     bindR (rlp_try (GetHash F (elems ! 3))) (\<lambda>head.
     bindR (rlp_try (GetHash F (elems ! 4))) (\<lambda>genesis.
     bindR (map_sum EthRlp (\<lambda>i. i) (ID_UnmarshalRLPWith F (elems ! 5))) (\<lambda>forkID.
     Inr \<lparr>st_ProtocolVersion = version, st_NetworkID = network, st_TD = td, st_Head = head, st_Genesis = genesis, st_ForkID = forkID\<rparr>)))))))"

definition Status_MarshalRLPWith :: "'v fastrlp \<Rightarrow> eth_Status \<Rightarrow> 'v" where
  "Status_MarshalRLPWith F s =
     NewArray F [NewUint F (st_ProtocolVersion s), NewUint F (st_NetworkID s), NewBigInt F (st_TD s), NewBytes F (st_Head s),
       NewBytes F (st_Genesis s), ID_MarshalRLPWith F (st_ForkID s)]"

section \<open>Reading back what was written\<close>

lemma append_each_all:
  assumes "\<And>i. i < length vs \<Longrightarrow> f (vs ! i) = Inr (xs ! i)" and "length xs = length vs"
  shows "append_each f h vs = Inr (h @ xs)"
  using assms
proof (induction vs arbitrary: h xs)
  case (Cons v vs)
  then obtain y ys where xs: "xs = y # ys" by (cases xs) auto
  have "f v = Inr y" using Cons.prems(1) [of 0] xs by simp
  moreover have "append_each f (h @ [y]) vs = Inr ((h @ [y]) @ ys)"
    using Cons.prems xs by (intro Cons.IH) fastforce+
  ultimately show ?case using xs by simp
qed simp

definition status_valid :: "eth_Status \<Rightarrow> bool" where
  "status_valid s \<longleftrightarrow> length (st_Head s) = 32 \<and> length (st_Genesis s) = 32 \<and> length (id_Hash (st_ForkID s)) = 4"

definition packet_valid :: "BlockHeadersPacket \<Rightarrow> bool" where
  "packet_valid g \<longleftrightarrow> (\<forall>h. bh_Hash g = Some h \<longrightarrow> length h = 32 \<and> bh_Number g = 0)"

context fastrlp_laws
begin

lemma Status_message: "rlp_message F view (Status_MarshalRLPWith F) (Status_UnmarshalRLPWith F) Inr status_valid"
proof unfold_locales
  fix s v assume s: "status_valid s" and v: "view v = view (Status_MarshalRLPWith F s)"
  obtain ws where ws: "GetElems F v = Some ws" "length ws = 6"
    "view (ws ! 0) = view (NewUint F (st_ProtocolVersion s))" "view (ws ! 1) = view (NewUint F (st_NetworkID s))" "view (ws ! 2) = view (NewBigInt F (st_TD s))"
    "view (ws ! 3) = view (NewBytes F (st_Head s))" "view (ws ! 4) = view (NewBytes F (st_Genesis s))" "view (ws ! 5) = view (ID_MarshalRLPWith F (st_ForkID s))"
    by (rule GetElems_list [OF v [unfolded Status_MarshalRLPWith_def]]) force
  have "ID_UnmarshalRLPWith F (ws ! 5) = Inr (st_ForkID s)"
    using rlp_message.dec_enc [OF fork_ID_message _ ws(8)] s by (simp add: status_valid_def)
  then show "Status_UnmarshalRLPWith F v = Inr s"
    using s ws(1,2) GetUint64_NewUint [OF ws(3)] GetUint64_NewUint [OF ws(4)] GetBigInt_NewBigInt [OF ws(5)] GetHash_NewBytes [OF ws(6)] GetHash_NewBytes [OF ws(7)]
    by (simp add: Status_UnmarshalRLPWith_def status_valid_def)
qed simp

lemma HashList_message: "rlp_message F view (HashList_MarshalRLPWith F) (HashList_UnmarshalRLPWith F) Inr (list_all (\<lambda>h. length h = 32))"
proof unfold_locales
  fix hs v assume hs: "list_all (\<lambda>h. length h = 32) hs" and v: "view v = view (HashList_MarshalRLPWith F hs)"
  obtain ws where ws: "GetElems F v = Some ws" "length ws = length hs" "\<And>i. i < length hs \<Longrightarrow> view (ws ! i) = view (NewBytes F (hs ! i))"
    by (rule GetElems_list [OF v [unfolded HashList_MarshalRLPWith_def]]) force
  have each: "rlp_try (GetHash F (ws ! i)) = Inr (hs ! i)" if "i < length ws" for i
  proof -
    have "i < length hs" using that ws(2) by simp
    then show ?thesis using GetHash_NewBytes [OF ws(3)] hs by (simp add: list_all_length)
  qed
  have "append_each (\<lambda>elem. rlp_try (GetHash F elem)) [] ws = Inr ([] @ hs)" by (rule append_each_all) (simp_all add: each ws(2))
  then show "HashList_UnmarshalRLPWith F v = Inr hs" using ws(1) by (simp add: HashList_UnmarshalRLPWith_def)
qed simp

text \<open>A request with any body is read as a response with that body.\<close>

lemma Request_message:
  assumes "rlp_message F view enc dec Inr valid"
  shows "rlp_message F view (\<lambda>(i, m). Request_MarshalRLPWith F i (enc m)) (Response_UnmarshalRLPWith F dec) Inr (\<lambda>(i, m). valid m)"
proof unfold_locales
  fix p v assume p: "(\<lambda>(i, m). valid m) p" and v: "view v = view ((\<lambda>(i, m). Request_MarshalRLPWith F i (enc m)) p)"
  obtain i m where im: "p = (i, m)" by (cases p)
  obtain ws where ws: "GetElems F v = Some ws" "length ws = 2" "view (ws ! 0) = view (NewUint F i)" "view (ws ! 1) = view (enc m)"
    by (rule GetElems_list [OF v [unfolded im prod.case Request_MarshalRLPWith_def]]) force
  have "dec (ws ! 1) = Inr m" using rlp_message.dec_enc [OF assms _ ws(4)] p im by simp
  then show "Response_UnmarshalRLPWith F dec v = Inr p"
    using ws(1,2) GetUint64_NewUint [OF ws(3)] by (simp add: Response_UnmarshalRLPWith_def im)
qed simp

end

context rlp_library
begin

lemma BlockHeadersPacket_message:
  "rlp_message F view (BlockHeadersPacket_MarshalRLPWith F) (BlockHeadersPacket_UnmarshalRLPWith F) Inr packet_valid"
proof unfold_locales
  fix g v assume g: "packet_valid g" and v: "view v = view (BlockHeadersPacket_MarshalRLPWith F g)"
  let ?o = "case bh_Hash g of Some h \<Rightarrow> NewBytes F h | None \<Rightarrow> NewUint F (bh_Number g)"
  obtain ws where ws: "GetElems F v = Some ws" "length ws = 4" "view (ws ! 0) = view ?o" "view (ws ! 1) = view (NewUint F (bh_Amount g))"
    "view (ws ! 2) = view (NewUint F (bh_Skip g))" "view (ws ! 3) = view (NewBool F (bh_Reverse g))"
    by (rule GetElems_list [OF v [unfolded BlockHeadersPacket_MarshalRLPWith_def]]) force
  note rest = ws(1,2) GetUint64_NewUint [OF ws(4)] GetUint64_NewUint [OF ws(5)] GetBool_NewBool [OF ws(6)]
  show "BlockHeadersPacket_UnmarshalRLPWith F v = Inr g"
  proof (cases "bh_Hash g")
    case None
    let ?d = "be_digits (unat (bh_Number g))"
    have o: "view (ws ! 0) = view (NewUint F (bh_Number g))" using ws(3) None by simp
    then have "view (ws ! 0) = view (NewBytes F ?d)" by (simp add: view_NewUint view_NewBytes)
    moreover have "length ?d \<noteq> 32" using length_be_digits_uint64 [of "bh_Number g"] by simp
    ultimately show ?thesis
      using rest None GetBytes_NewBytes [of "ws ! 0" ?d None] GetUint64_NewUint [OF o] by (simp add: BlockHeadersPacket_UnmarshalRLPWith_def)
  next
    case (Some h)
    then have "view (ws ! 0) = view (NewBytes F h)" using ws(3) by simp
    then show ?thesis
      using rest Some g GetBytes_NewBytes [of "ws ! 0" h None] by (simp add: BlockHeadersPacket_UnmarshalRLPWith_def packet_valid_def)
  qed
qed simp

end

interpretation Status_ref: rlp_message rlp_ref "\<lambda>v. v" "Status_MarshalRLPWith rlp_ref" "Status_UnmarshalRLPWith rlp_ref" Inr status_valid
  by (rule rlp_ref.Status_message)

interpretation HashList_ref: rlp_message rlp_ref "\<lambda>v. v" "HashList_MarshalRLPWith rlp_ref" "HashList_UnmarshalRLPWith rlp_ref" Inr "list_all (\<lambda>h. length h = 32)"
  by (rule rlp_ref.HashList_message)

interpretation BlockHeaders_ref: rlp_message rlp_ref "\<lambda>v. v" "BlockHeadersPacket_MarshalRLPWith rlp_ref" "BlockHeadersPacket_UnmarshalRLPWith rlp_ref" Inr packet_valid
  by (rule rlp_wire.BlockHeadersPacket_message)

lemma UnmarshalRLP_MarshalRLP:
  assumes "rlp_message F view enc dec Inr valid" and "valid m" and "length (MarshalRLP F (enc m)) < 2 ^ 63"
  shows "UnmarshalRLP F (MarshalRLP F (enc m)) dec = Inr m"
  using rlp_message.wire_roundtrip [OF assms(1,2)] assms(3) by (auto simp: UnmarshalRLP_def MarshalRLP_def)


section \<open>Properties\<close>

text \<open>Property C39. The messages of eth are read back as they were written: a status with hashes of the right length; a request or response that carries a list of
  hashes or a request for headers, by number or by hash, with its number; for every message below the size limit of the library.\<close>

theorem eth_messages_roundtrip:
  assumes lib: "rlp_library F view"
  shows "(status_valid s \<and> length (MarshalRLP F (Status_MarshalRLPWith F s)) < 2 ^ 63 \<longrightarrow>
      UnmarshalRLP F (MarshalRLP F (Status_MarshalRLPWith F s)) (Status_UnmarshalRLPWith F) = Inr s) \<and>
    (list_all (\<lambda>h. length h = 32) hs \<and> length (MarshalRLP F (Request_MarshalRLPWith F i (HashList_MarshalRLPWith F hs))) < 2 ^ 63 \<longrightarrow>
      UnmarshalRLP F (MarshalRLP F (Request_MarshalRLPWith F i (HashList_MarshalRLPWith F hs))) (Response_UnmarshalRLPWith F (HashList_UnmarshalRLPWith F)) = Inr (i, hs)) \<and>
    (packet_valid g \<and> length (MarshalRLP F (Request_MarshalRLPWith F i (BlockHeadersPacket_MarshalRLPWith F g))) < 2 ^ 63 \<longrightarrow>
      UnmarshalRLP F (MarshalRLP F (Request_MarshalRLPWith F i (BlockHeadersPacket_MarshalRLPWith F g))) (Response_UnmarshalRLPWith F (BlockHeadersPacket_UnmarshalRLPWith F)) = Inr (i, g))"
proof -
  have F: "fastrlp_laws F view" using lib by (simp add: rlp_library_def)
  note hashes = fastrlp_laws.Request_message [OF F fastrlp_laws.HashList_message [OF F]]
  note headers = fastrlp_laws.Request_message [OF F rlp_library.BlockHeadersPacket_message [OF lib]]
  show ?thesis
    using UnmarshalRLP_MarshalRLP [OF fastrlp_laws.Status_message [OF F], of s] UnmarshalRLP_MarshalRLP [OF hashes, of "(i, hs)"] UnmarshalRLP_MarshalRLP [OF headers, of "(i, g)"]
    by simp
qed

theorem eth_messages_roundtrip_witness:
  "UnmarshalRLP rlp_ref (MarshalRLP rlp_ref (Request_MarshalRLPWith rlp_ref 7 (BlockHeadersPacket_MarshalRLPWith rlp_ref
      \<lparr>bh_Hash = None, bh_Number = 5, bh_Amount = 1, bh_Skip = 0, bh_Reverse = True\<rparr>))) (Response_UnmarshalRLPWith rlp_ref (BlockHeadersPacket_UnmarshalRLPWith rlp_ref)) =
    Inr (7, \<lparr>bh_Hash = None, bh_Number = 5, bh_Amount = 1, bh_Skip = 0, bh_Reverse = True\<rparr>)"
proof -
  let ?g = "\<lparr>bh_Hash = None, bh_Number = 5, bh_Amount = 1, bh_Skip = 0, bh_Reverse = True\<rparr>"
  have "length (MarshalRLP rlp_ref (Request_MarshalRLPWith rlp_ref 7 (BlockHeadersPacket_MarshalRLPWith rlp_ref ?g))) < 2 ^ 63"
    by (simp add: MarshalRLP_def Request_MarshalRLPWith_def BlockHeadersPacket_MarshalRLPWith_def rlp_eval)
  then show ?thesis using eth_messages_roundtrip [OF rlp_wire.rlp_library_axioms, of _ _ 7 ?g] by (simp add: packet_valid_def)
qed

end
