(* ===== verification/GoAes.thy ===== *)
theory GoAes
  imports Crypto
begin

text \<open>
  \<open>crypto/aes\<close> and \<open>crypto/cipher\<close> of the Go library, as far as the RLPx frames use them: the AES block
  cipher and the key stream of its counter mode. A block cipher is a function on blocks, a stream
  its block cipher and the number of bytes of the key stream used so far.
\<close>

section \<open>The field of bytes\<close>

definition xtime :: "byte \<Rightarrow> byte" where
  "xtime b = push_bit 1 b XOR (if bit b 7 then 0x1b else 0)"

definition gmul :: "byte \<Rightarrow> byte \<Rightarrow> byte" where
  "gmul a b = foldr (\<lambda>i acc. if bit b i then (xtime ^^ i) a XOR acc else acc) [0..<8] 0"

text \<open>The inverse is the power 254, and 0 has inverse 0.\<close>

definition ginv :: "byte \<Rightarrow> byte" where
  "ginv a = (gmul a ^^ 254) 1"

definition sbox :: "byte \<Rightarrow> byte" where
  "sbox a = (let x = ginv a in x XOR word_rotl 1 x XOR word_rotl 2 x XOR word_rotl 3 x XOR word_rotl 4 x XOR 0x63)"

section \<open>The block cipher\<close>

text \<open>A word is four bytes; a block is sixteen bytes, column after column.\<close>

definition xorb :: "bytes \<Rightarrow> bytes \<Rightarrow> bytes" where
  "xorb a b = map2 (XOR) a b"

definition rcon :: "nat \<Rightarrow> bytes" where
  "rcon i = [(xtime ^^ (i - 1)) 1, 0, 0, 0]"

definition next_word :: "nat \<Rightarrow> bytes list \<Rightarrow> bytes" where
  "next_word nk ws =
     (let i = length ws; t = last ws;
          t = (if i mod nk = 0 then xorb (map sbox (rotate1 t)) (rcon (i div nk))
               else if 6 < nk \<and> i mod nk = 4 then map sbox t else t)
      in xorb (ws ! (i - nk)) t)"

fun key_words :: "bytes \<Rightarrow> bytes list" where
  "key_words (a # b # c # d # r) = [a, b, c, d] # key_words r"
| "key_words _ = []"

definition expand_key :: "bytes \<Rightarrow> bytes list" where
  "expand_key key =
     (let nk = length key div 4 in ((\<lambda>ws. ws @ [next_word nk ws]) ^^ (4 * (nk + 7) - nk)) (key_words key))"

definition round_key :: "bytes list \<Rightarrow> nat \<Rightarrow> bytes" where
  "round_key ws r = concat (take 4 (drop (4 * r) ws))"

definition shift_rows :: "bytes \<Rightarrow> bytes" where
  "shift_rows s = map (\<lambda>i. s ! (i mod 4 + 4 * ((i div 4 + i mod 4) mod 4))) [0..<16]"

definition mix_columns :: "bytes \<Rightarrow> bytes" where
  "mix_columns s = map (\<lambda>i. let c = 4 * (i div 4); r = i mod 4 in
     gmul (s ! (c + r)) 2 XOR gmul (s ! (c + (r + 1) mod 4)) 3 XOR s ! (c + (r + 2) mod 4) XOR s ! (c + (r + 3) mod 4)) [0..<16]"

definition aes_round :: "bytes list \<Rightarrow> bytes \<Rightarrow> nat \<Rightarrow> bytes" where
  "aes_round ws s r = xorb (mix_columns (shift_rows (map sbox s))) (round_key ws r)"

text \<open>\<open>Encrypt\<close> reads the first block of its input.\<close>

definition aes_Encrypt :: "bytes \<Rightarrow> bytes \<Rightarrow> bytes" where
  "aes_Encrypt key src =
     (let ws = expand_key key; nr = length key div 4 + 6;
          s = xorb (take 16 src) (round_key ws 0);
          s = foldl (aes_round ws) s [1..<nr]
      in xorb (shift_rows (map sbox s)) (round_key ws nr))"

text \<open>\<open>NewCipher\<close> refuses other key sizes.\<close>

definition aes_NewCipher :: "bytes \<Rightarrow> (bytes \<Rightarrow> bytes) option" where
  "aes_NewCipher key = (if length key \<in> {16, 24, 32} then Some (aes_Encrypt key) else None)"

section \<open>Counter mode\<close>

record ctr_stream =
  ctr_block :: "bytes \<Rightarrow> bytes"
  ctr_pos :: nat

text \<open>The counter starts at an initial value of zero and wraps around.\<close>

definition NewCTR :: "(bytes \<Rightarrow> bytes) \<Rightarrow> ctr_stream" where
  "NewCTR block = \<lparr>ctr_block = block, ctr_pos = 0\<rparr>"

definition keystream :: "(bytes \<Rightarrow> bytes) \<Rightarrow> nat \<Rightarrow> byte" where
  "keystream block n = block (FillBytes 16 (n div 16)) ! (n mod 16)"

definition XORKeyStream :: "ctr_stream \<Rightarrow> bytes \<Rightarrow> bytes \<times> ctr_stream" where
  "XORKeyStream c src =
     (map (\<lambda>i. src ! i XOR keystream (ctr_block c) (ctr_pos c + i)) [0..<length src], c\<lparr>ctr_pos := ctr_pos c + length src\<rparr>)"

section \<open>Decryption undoes encryption\<close>

lemma length_XORKeyStream [simp]: "length (fst (XORKeyStream c s)) = length s"
  by (simp add: XORKeyStream_def)

lemma snd_XORKeyStream: "snd (XORKeyStream c s) = c\<lparr>ctr_pos := ctr_pos c + length s\<rparr>"
  by (simp add: XORKeyStream_def)

lemma XORKeyStream_twice: "fst (XORKeyStream c (fst (XORKeyStream c s))) = s"
  by (rule nth_equalityI) (simp_all add: XORKeyStream_def xor.assoc)

text \<open>Encrypting in pieces is encrypting at once.\<close>

lemma XORKeyStream_append:
  "fst (XORKeyStream c (s @ t)) = fst (XORKeyStream c s) @ fst (XORKeyStream (snd (XORKeyStream c s)) t)"
proof (rule nth_equalityI)
  fix i assume "i < length (fst (XORKeyStream c (s @ t)))"
  then show "fst (XORKeyStream c (s @ t)) ! i =
      (fst (XORKeyStream c s) @ fst (XORKeyStream (snd (XORKeyStream c s)) t)) ! i"
    by (cases "i < length s") (auto simp: XORKeyStream_def nth_append add.assoc)
qed simp

lemma XORKeyStream_state_append:
  "snd (XORKeyStream c (s @ t)) = snd (XORKeyStream (snd (XORKeyStream c s)) t)"
  by (simp add: snd_XORKeyStream add.assoc)

end
