(* ===== verification/RlpxFrame.thy ===== *)
theory RlpxFrame
  imports RlpxCommon GoAes
begin

text \<open>
  The frames of RLPx, \<open>halfConn\<close> of \<open>rlpx/session.go\<close>. Each half has its own direction of the connection:
  \<open>hc_in\<close> are the segments that will arrive before the connection ends, \<open>hc_out\<close> the blocks written, and
  \<open>hc_ok n\<close> says whether the write number \<open>n\<close> succeeds. A \<open>hash.Hash\<close> is the bytes written to it, since its
  \<open>Sum\<close> is the digest of them. The compression library \<open>github.com/golang/snappy\<close> is a parameter.
\<close>

section \<open>Definitions\<close>

record snappy_lib =
  sn_Encode :: "bytes \<Rightarrow> bytes"
  sn_Decode :: "bytes \<Rightarrow> bytes option"
  sn_DecodedLen :: "bytes \<Rightarrow> nat option"
  sn_MaxEncodedLen :: "nat \<Rightarrow> int"

text \<open>
  The encryption library of the handshake, \<open>github.com/umbracle/ecies\<close>, which is a parameter as well: \<open>Encrypt\<close> gets the
  random numbers it draws as its first argument, and both functions only the second of their two shared
  parameters, the first being nil in every call. A private key of the library is one of the curve library.
\<close>

record 'k ecies_lib =
  ecies_Encrypt :: "nat \<Rightarrow> point \<Rightarrow> bytes \<Rightarrow> bytes \<Rightarrow> bytes option"
  ecies_Decrypt :: "'k \<Rightarrow> bytes \<Rightarrow> bytes \<Rightarrow> bytes option"
  ecies_GenerateShared :: "'k \<Rightarrow> point \<Rightarrow> nat \<Rightarrow> nat \<Rightarrow> bytes option"

record ('k, 'v) rlpx_env =
  rx_C :: "'k crypto_lib"
  rx_F :: "'v fastrlp"
  rx_snappy :: snappy_lib
  rx_ecies :: "'k ecies_lib"

definition maxUint24 :: nat where "maxUint24 = 2 ^ 24 - 1"

record halfConn =
  hc_in :: "bytes list"
  hc_out :: "bytes list"
  hc_ok :: "nat \<Rightarrow> bool"
  hc_snappy :: bool
  hc_buf :: bytes
  hc_tmp :: bytes
  hc_aes :: bytes
  hc_header :: bytes
  hc_stream :: ctr_stream
  hc_block :: "bytes \<Rightarrow> bytes"
  hc_mac :: bytes

type_synonym 'a half = "(halfConn, rlpx_error, 'a) cmd"

text \<open>\<open>io.ReadFull\<close>: the bytes read, the segments left, and whether all \<open>n\<close> bytes were there.\<close>

fun ReadFull_segs :: "nat \<Rightarrow> bytes list \<Rightarrow> bytes \<times> bytes list \<times> bool" where
  "ReadFull_segs 0 segs = ([], segs, True)"
| "ReadFull_segs (Suc n) [] = ([], [], False)"
| "ReadFull_segs (Suc n) (seg # segs) =
     (if Suc n < length seg then (take (Suc n) seg, drop (Suc n) seg # segs, True)
      else let (bs, segs', ok) = ReadFull_segs (Suc n - length seg) segs in (seg @ bs, segs', ok))"

text \<open>The bytes that were read are copied to the start of the buffer also when there were too few.\<close>

definition ReadFull :: "nat \<Rightarrow> (bytes \<Rightarrow> halfConn \<Rightarrow> halfConn) \<Rightarrow> unit half" where
  "ReadFull n put s =
     (let (bs, segs, ok) = ReadFull_segs n (hc_in s); s = put bs (s\<lparr>hc_in := segs\<rparr>)
      in Some (s, if ok then Inr () else Inl ReadFailed))"

definition conn_Write :: "bytes \<Rightarrow> unit half" where
  "conn_Write b s = Some (s\<lparr>hc_out := hc_out s @ [b]\<rparr>, if hc_ok s (length (hc_out s)) then Inr () else Inl WriteError)"

text \<open>A negative length panics. What the bytes past the old length hold is overwritten by every caller.\<close>

definition extendByteSlice :: "bytes \<Rightarrow> int \<Rightarrow> bytes option" where
  "extendByteSlice b needLen =
     (if needLen < 0 then None else Some (take (nat needLen) b @ replicate (nat needLen - length b) 0))"

definition mac_Sum :: "('k, 'v) rlpx_env \<Rightarrow> bytes \<Rightarrow> bytes" where
  "mac_Sum env mac = LegacyKeccak256 (rx_C env) mac"

definition updateMacImpl :: "('k, 'v) rlpx_env \<Rightarrow> bytes \<Rightarrow> bytes \<Rightarrow> bytes half" where
  "updateMacImpl env src seed s =
     (let a = map2 (XOR) (hc_block s src) (take 16 seed); mac = hc_mac s @ a
      in Some (s\<lparr>hc_aes := a, hc_mac := mac\<rparr>, Inr (take 16 (mac_Sum env mac))))"

definition updateMacWithHeader :: "('k, 'v) rlpx_env \<Rightarrow> bytes half" where
  "updateMacWithHeader env s = updateMacImpl env (mac_Sum env (hc_mac s)) (take 16 (hc_header s)) s"

definition updateMac :: "('k, 'v) rlpx_env \<Rightarrow> bytes half" where
  "updateMac env s = (let src = mac_Sum env (hc_mac s) in updateMacImpl env src src s)"

text \<open>\<open>readCode\<close> panics on an empty frame.\<close>

definition readCode :: "bytes \<Rightarrow> (rlpx_error + uint64 \<times> bytes) option" where
  "readCode buf =
     (case buf of
        [] \<Rightarrow> None
      | cur # rest \<Rightarrow>
        (if cur < 0x80 then Some (Inr (ucast cur, rest))
         else if cur < 0xB8 \<and> length buf < unat (cur - 0x80) then Some (Inl IncorrectLength)
         else if cur < 0xB8 \<and> unat (cur - 0x80) = 0 then Some (Inr (0, rest))
         else Some (Inl CodeTooBig)))"

definition frame_size :: "bytes \<Rightarrow> nat" where
  "frame_size h = unat (h ! 2) + 2 ^ 8 * unat (h ! 1) + 2 ^ 16 * unat (h ! 0)"

definition padded :: "nat \<Rightarrow> nat" where
  "padded sz = (if 0 < sz mod 16 then sz + (16 - sz mod 16) else sz)"

text \<open>The last part of \<open>read\<close>: the content is decompressed when that is on.\<close>

definition read_content :: "('k, 'v) rlpx_env \<Rightarrow> uint64 \<Rightarrow> bytes \<Rightarrow> (uint64 \<times> bytes) half" where
  "read_content env code content =
     bindS (gets hc_snappy) (\<lambda>snappy.
     if \<not> snappy then ret (code, content) else
     bindS (pureR (of_option SnappyFailed (sn_DecodedLen (rx_snappy env) content))) (\<lambda>n.
     bindS (gets (\<lambda>s. extendByteSlice (hc_tmp s) (int n))) (\<lambda>t.
     bindS (pureO t) (\<lambda>t.
     bindS (modify (\<lambda>s. s\<lparr>hc_tmp := t\<rparr>)) (\<lambda>_.
     bindS (pureR (of_option SnappyFailed (sn_Decode (rx_snappy env) content))) (\<lambda>content.
     bindS (modify (\<lambda>s. s\<lparr>hc_tmp := content\<rparr>)) (\<lambda>_. ret (code, content))))))))"

text \<open>The part of \<open>read\<close> after the header: the data with its padding, its checksum, and the message in it.\<close>

definition read_body :: "('k, 'v) rlpx_env \<Rightarrow> nat \<Rightarrow> (uint64 \<times> bytes) half" where
  "read_body env sz =
     bindS (gets (\<lambda>s. extendByteSlice (hc_buf s) (int (padded sz)))) (\<lambda>b.
     bindS (pureO b) (\<lambda>b.
     bindS (modify (\<lambda>s. s\<lparr>hc_buf := b\<rparr>)) (\<lambda>_.
     bindS (ReadFull (padded sz) (\<lambda>bs s. s\<lparr>hc_buf := bs @ drop (length bs) (hc_buf s)\<rparr>)) (\<lambda>_.
     bindS (modify (\<lambda>s. s\<lparr>hc_mac := hc_mac s @ hc_buf s\<rparr>)) (\<lambda>_.
     bindS (ReadFull 16 (\<lambda>bs s. s\<lparr>hc_header := bs @ drop (length bs) (hc_header s)\<rparr>)) (\<lambda>_.
     bindS (updateMac env) (\<lambda>mac.
     bindS (gets (\<lambda>s. take 16 (hc_header s))) (\<lambda>received.
     if mac \<noteq> received then fail IncorrectPayloadMac else
     bindS (gets (\<lambda>s. XORKeyStream (hc_stream s) (hc_buf s))) (\<lambda>(buf, st).
     bindS (modify (\<lambda>s. s\<lparr>hc_buf := buf, hc_stream := st\<rparr>)) (\<lambda>_.
     bindS (pureP (readCode (take sz buf))) (\<lambda>(code, content). read_content env code content)))))))))))"

definition half_read :: "('k, 'v) rlpx_env \<Rightarrow> (uint64 \<times> bytes) half" where
  "half_read env =
     bindS (ReadFull 32 (\<lambda>bs s. s\<lparr>hc_header := bs @ drop (length bs) (hc_header s)\<rparr>)) (\<lambda>_.
     bindS (updateMacWithHeader env) (\<lambda>mac.
     bindS (gets hc_header) (\<lambda>header.
     if mac \<noteq> drop 16 header then fail IncorrectHeaderMac else
     bindS (gets (\<lambda>s. XORKeyStream (hc_stream s) (take 16 header))) (\<lambda>(h, st).
     bindS (modify (\<lambda>s. s\<lparr>hc_header := h @ drop 16 header, hc_stream := st\<rparr>)) (\<lambda>_.
     read_body env (frame_size h))))))"

definition writeData :: "bytes \<Rightarrow> unit half" where
  "writeData b =
     bindS (gets (\<lambda>s. XORKeyStream (hc_stream s) b)) (\<lambda>(b, st).
     bindS (modify (\<lambda>s. s\<lparr>hc_stream := st\<rparr>)) (\<lambda>_.
     bindS (conn_Write b) (\<lambda>_.
     modify (\<lambda>s. s\<lparr>hc_mac := hc_mac s @ b\<rparr>))))"

text \<open>The payload of a frame in the buffer of the half: the message, compressed when that is on.\<close>

definition write_payload :: "('k, 'v) rlpx_env \<Rightarrow> bytes \<Rightarrow> bytes half" where
  "write_payload env buf =
     bindS (gets hc_snappy) (\<lambda>snappy.
     bindS (gets (\<lambda>s. extendByteSlice (hc_buf s)
              (if snappy then sn_MaxEncodedLen (rx_snappy env) (length buf) else int (length buf)))) (\<lambda>b.
     bindS (pureO b) (\<lambda>_.
     let payload = (if snappy then sn_Encode (rx_snappy env) buf else buf) in
     bindS (modify (\<lambda>s. s\<lparr>hc_buf := payload\<rparr>)) (\<lambda>_. ret payload))))"

definition half_write :: "('k, 'v) rlpx_env \<Rightarrow> uint64 \<Rightarrow> bytes \<Rightarrow> unit half" where
  "half_write env code buf =
     (let ptype = MarshalTo (rx_F env) (NewUint (rx_F env) code) in
     bindS (write_payload env buf) (\<lambda>payload.
     let fullSize = length ptype + length payload in
     if maxUint24 < fullSize then fail SizeOverflow else
     bindS (modify (\<lambda>s. s\<lparr>hc_header :=
       [word_of_nat (fullSize div 2 ^ 16), word_of_nat (fullSize div 2 ^ 8), word_of_nat fullSize, 0xC0, 0x80, 0x80]
         @ drop 6 (hc_header s)\<rparr>)) (\<lambda>_.
     bindS (gets (\<lambda>s. XORKeyStream (hc_stream s) (take 16 (hc_header s)))) (\<lambda>(h, st).
     bindS (modify (\<lambda>s. s\<lparr>hc_header := h @ drop 16 (hc_header s), hc_stream := st\<rparr>)) (\<lambda>_.
     bindS (conn_Write h) (\<lambda>_.
     bindS (updateMacWithHeader env) (\<lambda>mac.
     bindS (conn_Write mac) (\<lambda>_.
     bindS (writeData ptype) (\<lambda>_.
     bindS (modify (\<lambda>s. s\<lparr>hc_buf := fst (XORKeyStream (hc_stream s) payload)\<rparr>)) (\<lambda>_.
     bindS (writeData payload) (\<lambda>_.
     bindS (if 0 < fullSize mod 16 then writeData (replicate (16 - fullSize mod 16) 0) else ret ()) (\<lambda>_.
     bindS (updateMac env) (\<lambda>mac. conn_Write mac)))))))))))))"

section \<open>Reading from the connection\<close>

lemma ReadFull_segs_enough:
  "n \<le> length (concat segs) \<Longrightarrow> \<exists>segs'. ReadFull_segs n segs = (take n (concat segs), segs', True) \<and> concat segs' = drop n (concat segs)"
proof (induction n segs rule: ReadFull_segs.induct)
  case (3 n seg segs)
  show ?case
  proof (cases "Suc n < length seg")
    case False
    then show ?thesis using 3 by (auto simp: Let_def split: prod.splits)
  qed simp
qed simp_all

lemma ReadFull_enough:
  assumes "n \<le> length (concat (hc_in s))"
  obtains segs where "ReadFull n put s = Some (put (take n (concat (hc_in s))) (s\<lparr>hc_in := segs\<rparr>), Inr ())"
    "concat segs = drop n (concat (hc_in s))"
  using ReadFull_segs_enough [OF assms] that by (fastforce simp: ReadFull_def)

lemma padded_ge: "sz \<le> padded sz"
  by (cases "0 < sz mod 16") (simp_all only: padded_def if_True if_False le_add1 order_refl)

section \<open>The bytes of a frame\<close>

text \<open>The header and the body of a frame before encryption, and the four parts of the frame that a half in the
  state of \<open>s\<close> makes of them.\<close>

definition size_bytes :: "nat \<Rightarrow> bytes" where
  "size_bytes n = [word_of_nat (n div 2 ^ 16), word_of_nat (n div 2 ^ 8), word_of_nat n]"

definition mac_step :: "(bytes \<Rightarrow> bytes) \<Rightarrow> bytes \<Rightarrow> bytes \<Rightarrow> bytes \<Rightarrow> bytes" where
  "mac_step block mac src seed = mac @ map2 (XOR) (block src) (take 16 seed)"

definition fr_head :: "halfConn \<Rightarrow> bytes \<Rightarrow> bytes" where
  "fr_head s hdr = fst (XORKeyStream (hc_stream s) hdr)"

definition fr_mac1 :: "('k, 'v) rlpx_env \<Rightarrow> halfConn \<Rightarrow> bytes \<Rightarrow> bytes" where
  "fr_mac1 env s hdr = mac_step (hc_block s) (hc_mac s) (mac_Sum env (hc_mac s)) (fr_head s hdr)"

definition fr_body :: "halfConn \<Rightarrow> bytes \<Rightarrow> bytes \<Rightarrow> bytes" where
  "fr_body s hdr body = fst (XORKeyStream (snd (XORKeyStream (hc_stream s) hdr)) body)"

definition fr_mac2 :: "('k, 'v) rlpx_env \<Rightarrow> halfConn \<Rightarrow> bytes \<Rightarrow> bytes \<Rightarrow> bytes" where
  "fr_mac2 env s hdr body =
     (let mac = fr_mac1 env s hdr @ fr_body s hdr body in mac_step (hc_block s) mac (mac_Sum env mac) (mac_Sum env mac))"

definition frame :: "('k, 'v) rlpx_env \<Rightarrow> halfConn \<Rightarrow> bytes \<Rightarrow> bytes \<Rightarrow> bytes" where
  "frame env s hdr body = fr_head s hdr @ take 16 (mac_Sum env (fr_mac1 env s hdr)) @ fr_body s hdr body @
     take 16 (mac_Sum env (fr_mac2 env s hdr body))"

text \<open>The state after a frame, on either side.\<close>

definition advanced :: "('k, 'v) rlpx_env \<Rightarrow> halfConn \<Rightarrow> bytes \<Rightarrow> bytes \<Rightarrow> halfConn \<Rightarrow> bool" where
  "advanced env s hdr body s' \<longleftrightarrow> hc_stream s' = snd (XORKeyStream (hc_stream s) (hdr @ body)) \<and>
     hc_mac s' = fr_mac2 env s hdr body \<and> hc_block s' = hc_block s \<and> hc_snappy s' = hc_snappy s \<and> hc_ok s' = hc_ok s \<and>
     length (hc_header s') = length (hc_header s)"

lemma length_fr [simp]: "length (fr_head s hdr) = length hdr" "length (fr_body s hdr body) = length body"
  by (simp_all add: fr_head_def fr_body_def)

lemma updateMacImpl_eq: "updateMacImpl env src seed s =
    Some (s\<lparr>hc_aes := map2 (XOR) (hc_block s src) (take 16 seed), hc_mac := mac_step (hc_block s) (hc_mac s) src seed\<rparr>,
      Inr (take 16 (mac_Sum env (mac_step (hc_block s) (hc_mac s) src seed))))"
  by (simp add: updateMacImpl_def mac_step_def Let_def)

lemma writeData_ok:
  assumes "\<And>n. hc_ok s n"
  shows "writeData b s = Some (s\<lparr>hc_stream := snd (XORKeyStream (hc_stream s) b),
      hc_out := hc_out s @ [fst (XORKeyStream (hc_stream s) b)], hc_mac := hc_mac s @ fst (XORKeyStream (hc_stream s) b)\<rparr>, Inr ())"
  using assms by (cases "XORKeyStream (hc_stream s) b") (simp add: writeData_def bindS_def conn_Write_def)


section \<open>Writing a frame\<close>

text \<open>The steps of a half whose writes succeed.\<close>

lemma half_steps:
  assumes "\<And>n. hc_ok s n"
  shows "bindS (conn_Write b) f s = f () (s\<lparr>hc_out := hc_out s @ [b]\<rparr>)"
    "bindS (writeData b) f s = f () (s\<lparr>hc_stream := snd (XORKeyStream (hc_stream s) b),
      hc_out := hc_out s @ [fst (XORKeyStream (hc_stream s) b)], hc_mac := hc_mac s @ fst (XORKeyStream (hc_stream s) b)\<rparr>)"
    "conn_Write b s = Some (s\<lparr>hc_out := hc_out s @ [b]\<rparr>, Inr ())"
  using assms writeData_ok [OF assms] by (simp_all add: bindS_def conn_Write_def)

lemma half_macs:
  "bindS (updateMacWithHeader env) f s = f (take 16 (mac_Sum env (mac_step (hc_block s) (hc_mac s) (mac_Sum env (hc_mac s)) (take 16 (hc_header s)))))
     (s\<lparr>hc_aes := map2 (XOR) (hc_block s (mac_Sum env (hc_mac s))) (take 16 (hc_header s)),
        hc_mac := mac_step (hc_block s) (hc_mac s) (mac_Sum env (hc_mac s)) (take 16 (hc_header s))\<rparr>)"
  "bindS (updateMac env) f s = f (take 16 (mac_Sum env (mac_step (hc_block s) (hc_mac s) (mac_Sum env (hc_mac s)) (mac_Sum env (hc_mac s)))))
     (s\<lparr>hc_aes := map2 (XOR) (hc_block s (mac_Sum env (hc_mac s))) (take 16 (mac_Sum env (hc_mac s))),
        hc_mac := mac_step (hc_block s) (hc_mac s) (mac_Sum env (hc_mac s)) (mac_Sum env (hc_mac s))\<rparr>)"
  by (simp_all add: bindS_def updateMacWithHeader_def updateMac_def updateMacImpl_eq Let_def)

definition frame_header :: "halfConn \<Rightarrow> nat \<Rightarrow> bytes" where
  "frame_header s n = size_bytes n @ [0xC0, 0x80, 0x80] @ take 10 (drop 6 (hc_header s))"

definition frame_pad :: "bytes \<Rightarrow> bytes" where
  "frame_pad body = body @ replicate (padded (length body) - length body) 0"

lemma length_frame_pad [simp]: "length (frame_pad body) = padded (length body)"
  using padded_ge [of "length body"] by (simp add: frame_pad_def)

lemma take_frame_pad: "take (length body) (frame_pad body) = body"
  by (simp add: frame_pad_def)

lemma frame_pad_eq:
  "frame_pad body = body @ (if 0 < length body mod 16 then replicate (16 - length body mod 16) 0 else [])"
  by (auto simp: frame_pad_def padded_def)

definition payload_of :: "('k, 'v) rlpx_env \<Rightarrow> halfConn \<Rightarrow> bytes \<Rightarrow> bytes" where
  "payload_of env s buf = (if hc_snappy s then sn_Encode (rx_snappy env) buf else buf)"

definition body_of :: "('k, 'v) rlpx_env \<Rightarrow> halfConn \<Rightarrow> uint64 \<Rightarrow> bytes \<Rightarrow> bytes" where
  "body_of env s code buf = MarshalTo (rx_F env) (NewUint (rx_F env) code) @ payload_of env s buf"

lemma half_write_frame:
  assumes ok: "\<And>n. hc_ok s n" and "length (hc_header s) = 32"
    and "hc_snappy s \<Longrightarrow> 0 \<le> sn_MaxEncodedLen (rx_snappy env) (length buf)"
    and "length (body_of env s code buf) \<le> maxUint24"
  shows "\<exists>s'. half_write env code buf s = Some (s', Inr ()) \<and>
    concat (hc_out s') = concat (hc_out s) @ frame env s (frame_header s (length (body_of env s code buf))) (frame_pad (body_of env s code buf)) \<and>
    advanced env s (frame_header s (length (body_of env s code buf))) (frame_pad (body_of env s code buf)) s'"
proof -
  define pt where "pt = MarshalTo (rx_F env) (NewUint (rx_F env) code)"
  define pl where "pl = payload_of env s buf"
  define n where "n = length (body_of env s code buf)"
  let ?hdr = "frame_header s n"
  have n: "length pt + length pl = n" by (simp add: body_of_def n_def pt_def pl_def)
  have pay: "write_payload env buf s = Some (s\<lparr>hc_buf := pl\<rparr>, Inr pl)"
    using assms(3) by (auto simp: write_payload_def pl_def payload_of_def extendByteSlice_def Let_def)
  have body: "body_of env s code buf = pt @ pl" by (simp add: body_of_def pt_def pl_def)
  have le: "\<not> maxUint24 < n" using assms(4) by (simp add: n_def)
  note run = half_write_def Let_def bindS_eval(3) [of "write_payload env buf", OF pay]
  note spec = frame_def fr_mac2_def fr_mac1_def fr_body_def fr_head_def frame_header_def size_bytes_def frame_pad_eq advanced_def
    XORKeyStream_append XORKeyStream_state_append
  show ?thesis
    using ok assms(2) le unfolding run body n_def [symmetric]
    by (cases "0 < n mod 16") (simp_all add: n half_steps half_macs split_beta spec Let_def flip: pt_def,
        simp_all add: snd_XORKeyStream)
qed


section \<open>Reading a frame\<close>

definition rest_segs :: "nat \<Rightarrow> bytes list \<Rightarrow> bytes list" where
  "rest_segs n segs = fst (snd (ReadFull_segs n segs))"

lemma concat_rest_segs: "n \<le> length (concat segs) \<Longrightarrow> concat (rest_segs n segs) = drop n (concat segs)"
  using ReadFull_segs_enough [of n segs] by (auto simp: rest_segs_def)

lemma bindS_ReadFull:
  "n \<le> length (concat (hc_in s)) \<Longrightarrow>
    bindS (ReadFull n put) f s = f () (put (take n (concat (hc_in s))) (s\<lparr>hc_in := rest_segs n (hc_in s)\<rparr>))"
  using ReadFull_segs_enough [of n "hc_in s"] by (auto simp: bindS_def ReadFull_def rest_segs_def)

lemma length_mac_Sum: "crypto_laws (rx_C env) \<Longrightarrow> length (mac_Sum env m) = 32"
  by (simp add: mac_Sum_def crypto_laws.length_Keccak)

lemma half_read_frame:
  assumes laws: "crypto_laws (rx_C env)" and arrive: "concat (hc_in t) = frame env t hdr body @ rest"
    and "length hdr = 16" and "frame_size hdr = sz" and "length body = padded sz" and "length (hc_header t) = 32"
  shows "\<exists>t'. concat (hc_in t') = rest \<and> advanced env t hdr body t' \<and> hc_out t' = hc_out t \<and>
    half_read env t = bindS (pureP (readCode (take sz body))) (\<lambda>(code, content). read_content env code content) t'"
proof -
  define h where "h = fr_head t hdr"
  define m1 where "m1 = take 16 (mac_Sum env (fr_mac1 env t hdr))"
  define d where "d = fr_body t hdr body"
  define m2 where "m2 = take 16 (mac_Sum env (fr_mac2 env t hdr body))"
  have len: "length h = 16" "length m1 = 16" "length d = padded sz" "length m2 = 16"
    using assms by (simp_all add: h_def m1_def d_def m2_def length_mac_Sum)
  have dec: "fst (XORKeyStream (hc_stream t) h) = hdr" by (simp add: h_def fr_head_def XORKeyStream_twice)
  have dec2: "fst (XORKeyStream (snd (XORKeyStream (hc_stream t) h)) d) = body"
    using assms(3) len by (simp add: d_def fr_body_def snd_XORKeyStream XORKeyStream_twice)
  have segs: "concat (hc_in t) = h @ m1 @ d @ m2 @ rest" using arrive by (simp add: frame_def h_def m1_def d_def m2_def)
  have segs1: "concat (rest_segs 32 (hc_in t)) = d @ m2 @ rest" using len segs by (simp add: concat_rest_segs)
  have segs2: "concat (rest_segs (padded sz) (rest_segs 32 (hc_in t))) = m2 @ rest" using len segs1 by (simp add: concat_rest_segs)
  have segs3: "concat (rest_segs 16 (rest_segs (padded sz) (rest_segs 32 (hc_in t)))) = rest" using len segs2 by (simp add: concat_rest_segs)
  have mac1: "mac_step (hc_block t) (hc_mac t) (mac_Sum env (hc_mac t)) h = fr_mac1 env t hdr"
    by (simp add: fr_mac1_def h_def)
  have mac2: "(let mac = fr_mac1 env t hdr @ d in mac_step (hc_block t) mac (mac_Sum env mac) (mac_Sum env mac)) = fr_mac2 env t hdr body"
    by (simp add: fr_mac2_def d_def)
  obtain b where b: "extendByteSlice (hc_buf t) (int (padded sz)) = Some b" "length b = padded sz"
    by (auto simp: extendByteSlice_def)
  show ?thesis
    using len segs segs1 segs2 segs3 assms(4,6) b mac2
    apply (simp add: half_read_def read_body_def bindS_ReadFull half_macs mac1 split_beta dec dec2 Let_def flip: m1_def m2_def)
    apply (intro exI conjI)
       prefer 4 apply (rule refl)
      apply simp
     apply (simp add: advanced_def snd_XORKeyStream fr_body_def fr_head_def h_def d_def)
    apply simp
    done
qed

end
