(* ===== verification/RlpxChannel.thy ===== *)
theory RlpxChannel
  imports RlpxFrame
begin

text \<open>
  The channel that two halves of RLPx make: what one side writes, the other reads, message after
  message and however the network cuts the bytes into segments; and nothing is accepted but a frame
  with the right checksums.
\<close>

section \<open>The libraries\<close>

text \<open>
  What the frames rely on, beside the format of RLP. Snappy
  decodes what it encoded and tells its length before; \<open>MaxEncodedLen\<close> is the documented bound
  \<open>32 + n + n / 6\<close>, negative only for inputs of gigabytes.
\<close>

locale rlpx_laws = crypto_laws "rx_C env" + rlp_library "rx_F env" view
  for env :: "('k, 'v) rlpx_env" and view :: "'v \<Rightarrow> rlp" +
  assumes sn_Decode_Encode: "sn_Decode (rx_snappy env) (sn_Encode (rx_snappy env) b) = Some b"
    and sn_DecodedLen_Encode: "sn_DecodedLen (rx_snappy env) (sn_Encode (rx_snappy env) b) = Some (length b)"
    and sn_MaxEncodedLen_nonneg: "n \<le> maxUint24 \<Longrightarrow> sn_MaxEncodedLen (rx_snappy env) n = int (32 + n + n div 6)"

text \<open>An instance: the RLP of the specification, and a compression that stores the bytes.\<close>

definition stored_snappy :: snappy_lib where
  "stored_snappy = \<lparr>sn_Encode = (\<lambda>b. b), sn_Decode = Some, sn_DecodedLen = (\<lambda>b. Some (length b)),
     sn_MaxEncodedLen = (\<lambda>n. int (32 + n + n div 6))\<rparr>"

text \<open>An encryption that only adds its 113 bytes.\<close>

definition demo_ecies :: "bool ecies_lib" where
  "demo_ecies = \<lparr>ecies_Encrypt = (\<lambda>r p m s. Some (4 # replicate 112 0 @ m)),
     ecies_Decrypt = (\<lambda>k c s. if 113 \<le> length c \<and> hd c = 4 then Some (drop 113 c) else None),
     ecies_GenerateShared = (\<lambda>k p a b. Some (replicate (a + b) 5))\<rparr>"

definition demo_env :: "(bool, rlp) rlpx_env" where
  "demo_env = \<lparr>rx_C = demo_lib, rx_F = rlp_ref, rx_snappy = stored_snappy, rx_ecies = demo_ecies\<rparr>"

lemma demo_env_simps [simp]: "rx_C demo_env = demo_lib" "rx_F demo_env = rlp_ref" "rx_snappy demo_env = stored_snappy"
  "rx_ecies demo_env = demo_ecies"
  by (simp_all add: demo_env_def)

lemma unat_byte_of_code: "(c :: uint64) < 0x80 \<Longrightarrow> unat (ucast c :: byte) = unat c"
  by (simp add: word_less_nat_alt unsigned_ucast_eq take_bit_nat_eq_self)

interpretation demo_rlpx: rlpx_laws demo_env "\<lambda>v. v"
proof (rule rlpx_laws.intro)
  show "crypto_laws (rx_C demo_env)" by (simp add: demo.crypto_laws_axioms)
  show "rlp_library (rx_F demo_env) (\<lambda>v. v)" by (simp add: rlp_wire.rlp_library_axioms)
qed (unfold_locales, simp_all add: stored_snappy_def)

section \<open>One message\<close>

text \<open>The two ends of a direction: the same keys, key stream position and running checksum.\<close>

definition synced :: "halfConn \<Rightarrow> halfConn \<Rightarrow> bool" where
  "synced s t \<longleftrightarrow> hc_stream s = hc_stream t \<and> hc_mac s = hc_mac t \<and> hc_block s = hc_block t \<and> hc_snappy s = hc_snappy t \<and>
     length (hc_header s) = 32 \<and> length (hc_header t) = 32"

lemma frame_cong: "synced s t \<Longrightarrow> frame env s hdr body = frame env t hdr body"
  by (simp add: synced_def frame_def fr_head_def fr_body_def fr_mac1_def fr_mac2_def)

lemma synced_advanced:
  "synced s t \<Longrightarrow> advanced env s hdr body s' \<Longrightarrow> advanced env t hdr body t' \<Longrightarrow> synced s' t'"
  by (simp add: synced_def advanced_def fr_mac1_def fr_mac2_def fr_head_def fr_body_def)

lemma length_frame_header: "length (hc_header s) = 32 \<Longrightarrow> length (frame_header s n) = 16"
  by (simp add: frame_header_def size_bytes_def)

lemma frame_size_header:
  assumes "n \<le> maxUint24"
  shows "frame_size (frame_header s n) = n"
proof -
  have "n < 2 ^ 24" using assms by (simp add: maxUint24_def)
  then have "n div 65536 < 256" by simp
  moreover have d: "n div 65536 = n div 256 div 256" using div_mult2_eq [of n 256 256] by simp
  have "n = n mod 256 + 256 * (n div 256 mod 256) + 65536 * (n div 65536)"
    using mult_div_mod_eq [of 256 n] mult_div_mod_eq [of 256 "n div 256"] unfolding d by linarith
  ultimately show ?thesis
    by (simp add: frame_size_def frame_header_def size_bytes_def unat_of_nat)
qed

context rlpx_laws
begin

lemma readCode_body:
  assumes "code < 0x80"
  shows "readCode (body_of env s code buf) = Some (Inr (code, payload_of env s buf))"
proof -
  have "unat code < 128" using assms by (simp add: word_less_nat_alt)
  with unat_byte_of_code [OF assms] have "ucast code < (0x80 :: byte)" "ucast (ucast code :: byte) = code"
    by (simp_all add: word_less_nat_alt word_unat_eq_iff unsigned_ucast_eq unsigned_take_bit_eq take_bit_nat_eq_self)
  then show ?thesis using assms by (simp add: readCode_def body_of_def MarshalTo_code)
qed

lemma read_content_payload:
  assumes "hc_snappy s = hc_snappy t"
  shows "read_content env code (payload_of env s buf) t =
    Some (t\<lparr>hc_tmp := if hc_snappy t then buf else hc_tmp t\<rparr>, Inr (code, buf))"
  using assms by (cases "hc_snappy t")
    (auto simp: read_content_def payload_of_def sn_DecodedLen_Encode sn_Decode_Encode extendByteSlice_def bindS_def)

lemma message_roundtrip:
  assumes ok: "\<And>n. hc_ok s n" and head: "length (hc_header s) = 32" and "code < 0x80" and "length buf \<le> maxUint24"
    and size: "length (body_of env s code buf) \<le> maxUint24"
  obtains s' w where "half_write env code buf s = Some (s', Inr ())" "concat (hc_out s') = concat (hc_out s) @ w"
    "hc_ok s' = hc_ok s" "hc_snappy s' = hc_snappy s" "length (hc_header s') = 32"
    "\<And>t rest. synced s t \<Longrightarrow> concat (hc_in t) = w @ rest \<Longrightarrow>
      \<exists>t'. half_read env t = Some (t', Inr (code, buf)) \<and> concat (hc_in t') = rest \<and> synced s' t'"
proof -
  let ?b = "body_of env s code buf"
  let ?hdr = "frame_header s (length ?b)"
  obtain s' where s': "half_write env code buf s = Some (s', Inr ())"
    "concat (hc_out s') = concat (hc_out s) @ frame env s ?hdr (frame_pad ?b)" "advanced env s ?hdr (frame_pad ?b) s'"
    using half_write_frame [of s env buf code, OF ok head _ size] assms(4) sn_MaxEncodedLen_nonneg by auto
  have read: "\<exists>t'. half_read env t = Some (t', Inr (code, buf)) \<and> concat (hc_in t') = rest \<and> synced s' t'"
    if sync: "synced s t" and arrive: "concat (hc_in t) = frame env s ?hdr (frame_pad ?b) @ rest" for t rest
  proof -
    have t: "length (hc_header t) = 32" "hc_snappy s = hc_snappy t" using sync by (simp_all add: synced_def)
    obtain t1 where t1: "concat (hc_in t1) = rest" "advanced env t ?hdr (frame_pad ?b) t1"
      "half_read env t = bindS (pureP (readCode (take (length ?b) (frame_pad ?b)))) (\<lambda>(code, content). read_content env code content) t1"
      using half_read_frame [OF crypto_laws_axioms _ length_frame_header [OF head] frame_size_header [OF size] length_frame_pad t(1)]
        arrive frame_cong [OF sync] by force
    have "hc_snappy s = hc_snappy t1" using t1(2) t(2) by (simp add: advanced_def)
    note content = read_content_payload [OF this, of code buf]
    have "synced s' (t1\<lparr>hc_tmp := b\<rparr>)" for b
      using synced_advanced [OF sync s'(3) t1(2)] by (simp add: synced_def)
    then show ?thesis
      using t1 content readCode_body [OF assms(3)] by (simp add: take_frame_pad bindS_pure)
  qed
  show ?thesis
    using s' head by (intro that [OF s'(1,2) _ _ _ read]) (simp_all add: advanced_def)
qed

end

section \<open>Sequences of messages\<close>

text \<open>What a message must satisfy to be sent: a code of one byte, and a size of three.\<close>

definition sendable :: "('k, 'v) rlpx_env \<Rightarrow> bool \<Rightarrow> uint64 \<times> bytes \<Rightarrow> bool" where
  "sendable env snappy = (\<lambda>(code, buf). code < 0x80 \<and> length buf \<le> maxUint24 \<and>
     length (if snappy then sn_Encode (rx_snappy env) buf else buf) < maxUint24)"

fun write_all :: "('k, 'v) rlpx_env \<Rightarrow> (uint64 \<times> bytes) list \<Rightarrow> unit half" where
  "write_all env [] = ret ()"
| "write_all env ((code, buf) # msgs) = bindS (half_write env code buf) (\<lambda>_. write_all env msgs)"

fun read_all :: "('k, 'v) rlpx_env \<Rightarrow> nat \<Rightarrow> (uint64 \<times> bytes) list half" where
  "read_all env 0 = ret []"
| "read_all env (Suc n) = bindS (half_read env) (\<lambda>m. bindS (read_all env n) (\<lambda>ms. ret (m # ms)))"

context rlpx_laws
begin

lemma length_body: "sendable env (hc_snappy s) (code, buf) \<Longrightarrow> length (body_of env s code buf) \<le> maxUint24"
  by (simp add: sendable_def body_of_def payload_of_def MarshalTo_code)

lemma messages_roundtrip:
  assumes "\<And>n. hc_ok s n" and "length (hc_header s) = 32" and "list_all (sendable env (hc_snappy s)) msgs"
  shows "\<exists>s' w. write_all env msgs s = Some (s', Inr ()) \<and> concat (hc_out s') = concat (hc_out s) @ w \<and>
    (\<forall>t rest. synced s t \<and> concat (hc_in t) = w @ rest \<longrightarrow>
      (\<exists>t'. read_all env (length msgs) t = Some (t', Inr msgs) \<and> concat (hc_in t') = rest \<and> synced s' t'))"
  using assms
proof (induction msgs arbitrary: s)
  case (Cons m msgs)
  obtain code buf where m: "m = (code, buf)" by (cases m)
  have send: "sendable env (hc_snappy s) (code, buf)" "list_all (sendable env (hc_snappy s)) msgs" using Cons.prems(3) m by simp_all
  have code: "code < 0x80" "length buf \<le> maxUint24" using send(1) by (simp_all add: sendable_def)
  obtain s1 w1 where s1: "half_write env code buf s = Some (s1, Inr ())" "concat (hc_out s1) = concat (hc_out s) @ w1"
    "hc_ok s1 = hc_ok s" "hc_snappy s1 = hc_snappy s" "length (hc_header s1) = 32"
    "\<And>t rest. synced s t \<Longrightarrow> concat (hc_in t) = w1 @ rest \<Longrightarrow>
      \<exists>t'. half_read env t = Some (t', Inr (code, buf)) \<and> concat (hc_in t') = rest \<and> synced s1 t'"
    using message_roundtrip [OF Cons.prems(1,2) code length_body [OF send(1)]] by metis
  obtain s2 w2 where s2: "write_all env msgs s1 = Some (s2, Inr ())" "concat (hc_out s2) = concat (hc_out s1) @ w2"
    "\<And>t rest. synced s1 t \<Longrightarrow> concat (hc_in t) = w2 @ rest \<Longrightarrow>
      \<exists>t'. read_all env (length msgs) t = Some (t', Inr msgs) \<and> concat (hc_in t') = rest \<and> synced s2 t'"
    using Cons.IH [of s1] Cons.prems(1) send(2) s1(3-5) by auto
  have "\<exists>t'. read_all env (length (m # msgs)) t = Some (t', Inr (m # msgs)) \<and> concat (hc_in t') = rest \<and> synced s2 t'"
    if sync: "synced s t" and arrive: "concat (hc_in t) = (w1 @ w2) @ rest" for t rest
  proof -
    obtain t1 where t1: "half_read env t = Some (t1, Inr (code, buf))" "concat (hc_in t1) = w2 @ rest" "synced s1 t1"
      using s1(6) [OF sync, of "w2 @ rest"] arrive by auto
    obtain t2 where "read_all env (length msgs) t1 = Some (t2, Inr msgs)" "concat (hc_in t2) = rest" "synced s2 t2"
      using s2(3) [OF t1(3,2)] by auto
    then show ?thesis using t1(1) by (simp add: m bindS_def)
  qed
  then show ?case
    using s1(1,2) s2(1,2) by (intro exI [of _ s2] exI [of _ "w1 @ w2"]) (simp add: m bindS_def)
qed simp

end

section \<open>Nothing but frames is accepted\<close>

lemma ReadFull_segs_short: "length (concat segs) < n \<Longrightarrow> \<exists>bs segs'. ReadFull_segs n segs = (bs, segs', False)"
proof (induction n segs rule: ReadFull_segs.induct)
  case (3 n seg segs)
  have "length (concat segs) < Suc n - length seg" and "\<not> Suc n < length seg" using 3(2) by auto
  then show ?case using 3(1) by (fastforce simp: Let_def)
qed simp_all

lemma bindS_ReadFull_short:
  assumes "length (concat (hc_in s)) < n"
  shows "\<exists>s'. bindS (ReadFull n put) f s = Some (s', Inl ReadFailed)"
  using ReadFull_segs_short [OF assms] by (auto simp: bindS_def ReadFull_def)

lemma half_read_short:
  assumes "length (concat (hc_in t)) < 32"
  shows "\<exists>t'. half_read env t = Some (t', Inl ReadFailed)"
  unfolding half_read_def by (rule bindS_ReadFull_short [OF assms])

text \<open>The two checksums that the reader computes, of the 16 bytes of a header as they arrived and of the data.\<close>

definition header_mac :: "('k, 'v) rlpx_env \<Rightarrow> halfConn \<Rightarrow> bytes \<Rightarrow> bytes" where
  "header_mac env t h = mac_step (hc_block t) (hc_mac t) (mac_Sum env (hc_mac t)) h"

definition data_mac :: "('k, 'v) rlpx_env \<Rightarrow> halfConn \<Rightarrow> bytes \<Rightarrow> bytes \<Rightarrow> bytes" where
  "data_mac env t h d = (let mac = header_mac env t h @ d in mac_step (hc_block t) mac (mac_Sum env mac) (mac_Sum env mac))"

lemma half_read_header_mac:
  assumes "concat (hc_in t) = h @ m1 @ rest" and "length h = 16" and "length m1 = 16" and "length (hc_header t) = 32"
    and "take 16 (mac_Sum env (header_mac env t h)) \<noteq> m1"
  shows "\<exists>t'. half_read env t = Some (t', Inl IncorrectHeaderMac) \<and> concat (hc_in t') = rest \<and> hc_stream t' = hc_stream t"
proof -
  have "concat (rest_segs 32 (hc_in t)) = rest" using assms by (simp add: concat_rest_segs)
  then show ?thesis using assms by (simp add: half_read_def bindS_ReadFull half_macs header_mac_def)
qed

text \<open>After a good header.\<close>

lemma half_read_header_ok:
  assumes "concat (hc_in t) = h @ m1 @ rest" and "length h = 16" and "length m1 = 16" and "length (hc_header t) = 32"
    and "take 16 (mac_Sum env (header_mac env t h)) = m1"
  obtains t1 where "half_read env t = read_body env (frame_size (fst (XORKeyStream (hc_stream t) h))) t1"
    "concat (hc_in t1) = rest" "hc_mac t1 = header_mac env t h" "hc_block t1 = hc_block t"
    "hc_stream t1 = snd (XORKeyStream (hc_stream t) h)" "length (hc_header t1) = 32"
proof -
  let ?t = "t\<lparr>hc_in := rest_segs 32 (hc_in t), hc_aes := map2 (XOR) (hc_block t (mac_Sum env (hc_mac t))) h,
        hc_mac := header_mac env t h, hc_header := fst (XORKeyStream (hc_stream t) h) @ m1,
        hc_stream := snd (XORKeyStream (hc_stream t) h)\<rparr>"
  have "half_read env t = read_body env (frame_size (fst (XORKeyStream (hc_stream t) h))) ?t"
    using assms by (simp add: half_read_def bindS_ReadFull half_macs header_mac_def split_beta Let_def)
  then show ?thesis using assms by (intro that [of ?t]) (simp_all add: concat_rest_segs)
qed

lemma read_body_short:
  assumes "length (concat (hc_in t)) < padded sz + 16"
  shows "\<exists>t'. read_body env sz t = Some (t', Inl ReadFailed)"
proof (cases "length (concat (hc_in t)) < padded sz")
  case True
  then show ?thesis by (simp add: read_body_def extendByteSlice_def bindS_ReadFull_short)
next
  case False
  then show ?thesis using assms
    by (simp add: read_body_def extendByteSlice_def bindS_ReadFull bindS_ReadFull_short concat_rest_segs)
qed

lemma read_body_mac:
  assumes "concat (hc_in t) = d @ m2 @ rest" and "length d = padded sz" and "length m2 = 16" and "length (hc_header t) = 32"
    and "mac = hc_mac t @ d" and "take 16 (mac_Sum env (mac_step (hc_block t) mac (mac_Sum env mac) (mac_Sum env mac))) \<noteq> m2"
  shows "\<exists>t'. read_body env sz t = Some (t', Inl IncorrectPayloadMac) \<and> concat (hc_in t') = rest \<and> hc_stream t' = hc_stream t"
proof -
  have "concat (rest_segs (padded sz) (hc_in t)) = m2 @ rest" "concat (rest_segs 16 (rest_segs (padded sz) (hc_in t))) = rest"
    using assms by (simp_all add: concat_rest_segs)
  then show ?thesis using assms by (simp add: read_body_def extendByteSlice_def bindS_ReadFull half_macs)
qed

lemma two_parts:
  assumes "n + m \<le> length xs"
  obtains a b c where "xs = a @ b @ c" "length a = n" "length b = m"
  using assms by (intro that [of "take n xs" "take m (drop n xs)" "drop (n + m) xs"])
    (simp_all add: add.commute flip: drop_drop)

lemma read_content_state: "read_content env code content t = Some (t', r) \<Longrightarrow> \<exists>b. t' = t\<lparr>hc_tmp := b\<rparr>"
  by (auto simp: read_content_def bindS_def extendByteSlice_def split: if_splits option.splits sum.splits
      intro: exI [of _ "hc_tmp t"])

text \<open>The bytes that a successful read has consumed are those of a frame for the state before.\<close>

lemma half_read_frame_only:
  assumes laws: "crypto_laws (rx_C env)" and run: "half_read env t = Some (t', Inr m)" and head: "length (hc_header t) = 32"
  shows "\<exists>hdr body. concat (hc_in t) = frame env t hdr body @ concat (hc_in t') \<and> length hdr = 16 \<and>
    length body = padded (frame_size hdr) \<and> advanced env t hdr body t'"
proof -
  have "\<not> length (concat (hc_in t)) < 32" using half_read_short [of t env] run by auto
  then have "16 + 16 \<le> length (concat (hc_in t))" by simp
  then obtain h m1 r1 where r1: "concat (hc_in t) = h @ m1 @ r1" "length h = 16" "length m1 = 16" by (rule two_parts)
  have m1: "take 16 (mac_Sum env (header_mac env t h)) = m1"
    using half_read_header_mac [OF r1 head, of env] run by auto
  define hdr where "hdr = fst (XORKeyStream (hc_stream t) h)"
  obtain t1 where t1: "half_read env t = read_body env (frame_size hdr) t1"
    "concat (hc_in t1) = r1" "hc_mac t1 = header_mac env t h" "hc_block t1 = hc_block t"
    "hc_stream t1 = snd (XORKeyStream (hc_stream t) h)" "length (hc_header t1) = 32"
    unfolding hdr_def by (rule half_read_header_ok [OF r1 head m1])
  have "padded (frame_size hdr) + 16 \<le> length r1"
    using read_body_short [of t1 "frame_size hdr" env] run t1(1,2) by force
  then obtain d m2 r2 where r2: "r1 = d @ m2 @ r2" "length d = padded (frame_size hdr)" "length m2 = 16" by (rule two_parts)
  have m2: "take 16 (mac_Sum env (data_mac env t h d)) = m2"
    using read_body_mac [of t1 d m2 r2 "frame_size hdr", OF _ r2(2,3) t1(6) refl, of env] run t1 r2(1)
    by (auto simp: data_mac_def Let_def)
  define body where "body = fst (XORKeyStream (snd (XORKeyStream (hc_stream t) hdr)) d)"
  have parts: "fr_head t hdr = h" "fr_body t hdr body = d"
    by (simp_all add: fr_head_def fr_body_def hdr_def body_def XORKeyStream_twice snd_XORKeyStream)
  have fr: "frame env t hdr body = h @ m1 @ d @ m2"
    using m1 m2 parts by (simp add: frame_def fr_mac1_def fr_mac2_def data_mac_def header_mac_def Let_def)
  have len: "length hdr = 16" "length body = padded (frame_size hdr)" using r1 r2 by (simp_all add: hdr_def body_def)
  obtain t2 where t2: "concat (hc_in t2) = r2" "advanced env t hdr body t2"
    "half_read env t = bindS (pureP (readCode (take (frame_size hdr) body))) (\<lambda>(code, content). read_content env code content) t2"
    using half_read_frame [OF laws _ len(1) refl len(2) head, of r2] r1(1) r2(1) fr by auto
  obtain code content where "read_content env code content t2 = Some (t', Inr m)"
    using run t2(3) by (auto simp: pureP_def elim!: bindS_Some_cases split: prod.splits option.splits)
  then obtain b where "t' = t2\<lparr>hc_tmp := b\<rparr>" using read_content_state by blast
  then show ?thesis using t2 r1(1) r2(1) fr len by (intro exI [of _ hdr] exI [of _ body]) (simp add: advanced_def)
qed

section \<open>Properties\<close>

text \<open>Property C25. The messages that one half writes, the half at the other end reads, all of them and in order,
  however the network cuts the bytes into segments: every code below 128 and every content that fits in a frame,
  compressed or not. Nothing panics, the reader consumes exactly the bytes written, and the two halves
  agree again afterwards, so the next messages arrive as well.\<close>

theorem channel_delivers:
  assumes "rlpx_laws env view" and "\<And>n. hc_ok s n" and "length (hc_header s) = 32"
    and "list_all (sendable env (hc_snappy s)) msgs"
  shows "\<exists>s' w. write_all env msgs s = Some (s', Inr ()) \<and> concat (hc_out s') = concat (hc_out s) @ w \<and>
    (\<forall>t rest. synced s t \<and> concat (hc_in t) = w @ rest \<longrightarrow>
      (\<exists>t'. read_all env (length msgs) t = Some (t', Inr msgs) \<and> concat (hc_in t') = rest \<and> synced s' t'))"
  using assms by (rule rlpx_laws.messages_roundtrip)

definition demo_half :: "bytes list \<Rightarrow> halfConn" where
  "demo_half segs = \<lparr>hc_in = segs, hc_out = [], hc_ok = (\<lambda>_. True), hc_snappy = True, hc_buf = [], hc_tmp = [], hc_aes = replicate 16 0,
     hc_header = replicate 32 0, hc_stream = NewCTR (aes_Encrypt (replicate 32 1)), hc_block = aes_Encrypt (replicate 32 2), hc_mac = [3]\<rparr>"

lemma demo_half_simps [simp]:
  "hc_in (demo_half segs) = segs" "hc_out (demo_half segs) = []" "hc_ok (demo_half segs) n" "hc_snappy (demo_half segs)"
  "length (hc_header (demo_half segs)) = 32" "synced (demo_half segs) (demo_half segs')"
  by (simp_all add: demo_half_def synced_def)

lemma demo_sendable: "sendable demo_env True (0, [1, 2])" "sendable demo_env True (20, [])"
  by (simp_all add: sendable_def stored_snappy_def maxUint24_def)

theorem channel_delivers_witness:
  "\<exists>s' w. write_all demo_env [(0, [1, 2]), (20, [])] (demo_half []) = Some (s', Inr ()) \<and> concat (hc_out s') = w \<and>
    (\<exists>t'. read_all demo_env 2 (demo_half [w]) = Some (t', Inr [(0, [1, 2]), (20, [])]))"
proof -
  have "list_all (sendable demo_env (hc_snappy (demo_half []))) [(0, [1, 2]), (20, [])]"
    using demo_sendable by simp
  from channel_delivers [OF demo_rlpx.rlpx_laws_axioms _ _ this]
  obtain s' w where s': "write_all demo_env [(0, [1, 2]), (20, [])] (demo_half []) = Some (s', Inr ())" "concat (hc_out s') = w"
    and read: "\<And>t rest. synced (demo_half []) t \<and> concat (hc_in t) = w @ rest \<longrightarrow>
      (\<exists>t'. read_all demo_env (length [(0, [1, 2]), (20, [])]) t = Some (t', Inr [(0, [1, 2]), (20, [])]) \<and> concat (hc_in t') = rest \<and> synced s' t')"
    by auto
  have "\<exists>t'. read_all demo_env 2 (demo_half [w]) = Some (t', Inr [(0, [1, 2]), (20, [])])"
    using read [of "demo_half [w]" "[]"] by (auto simp: numeral_2_eq_2)
  with s' show ?thesis by blast
qed

text \<open>Property C26. A half accepts nothing but frames: whatever bytes arrive, if a read succeeds then those it has
  consumed are a frame, both of whose checksums are the ones the keyed state of the half gives, and the key
  stream and the checksum of the half have moved past exactly that frame.\<close>

theorem read_accepts_only_frames:
  assumes "crypto_laws (rx_C env)" and "half_read env t = Some (t', Inr m)" and "length (hc_header t) = 32"
  shows "\<exists>hdr body. concat (hc_in t) = frame env t hdr body @ concat (hc_in t') \<and> length hdr = 16 \<and>
    length body = padded (frame_size hdr) \<and> advanced env t hdr body t'"
  using assms by (rule half_read_frame_only)

theorem read_accepts_only_frames_witness:
  "\<exists>w t' hdr body. half_read demo_env (demo_half [w]) = Some (t', Inr (20, [])) \<and>
    w = frame demo_env (demo_half [w]) hdr body @ concat (hc_in t') \<and> length hdr = 16"
proof -
  have "length (body_of demo_env (demo_half []) 20 []) \<le> maxUint24"
    using demo_rlpx.length_body [of "demo_half []"] demo_sendable by simp
  then obtain s' w where "\<And>t rest. synced (demo_half []) t \<Longrightarrow> concat (hc_in t) = w @ rest \<Longrightarrow>
      \<exists>t'. half_read demo_env t = Some (t', Inr (20, [])) \<and> concat (hc_in t') = rest \<and> synced s' t'"
    using demo_rlpx.message_roundtrip [of "demo_half []" 20 "[]"] by simp metis
  from this [of "demo_half [w]" "[]"] obtain t' where t': "half_read demo_env (demo_half [w]) = Some (t', Inr (20, []))" by auto
  show ?thesis using t' read_accepts_only_frames [OF _ t'] demo.crypto_laws_axioms by auto
qed

text \<open>Property C27. A changed header or changed data is rejected. If the 16 bytes after the header are not its checksum,
  or those after the data not the checksum of all so far, the read fails with the error for the part that is wrong.\<close>

theorem tampering_rejected:
  assumes "concat (hc_in t) = h @ m1 @ d @ m2 @ rest" and "length h = 16" and "length m1 = 16" and "length m2 = 16"
    and "length d = padded (frame_size (fst (XORKeyStream (hc_stream t) h)))" and "length (hc_header t) = 32"
    and "m1 \<noteq> take 16 (mac_Sum env (header_mac env t h)) \<or> m2 \<noteq> take 16 (mac_Sum env (data_mac env t h d))"
  shows "\<exists>t'. half_read env t = Some (t', Inl (if m1 \<noteq> take 16 (mac_Sum env (header_mac env t h))
    then IncorrectHeaderMac else IncorrectPayloadMac))"
proof (cases "m1 = take 16 (mac_Sum env (header_mac env t h))")
  case True
  obtain t1 where t1: "half_read env t = read_body env (frame_size (fst (XORKeyStream (hc_stream t) h))) t1"
    "concat (hc_in t1) = d @ m2 @ rest" "hc_mac t1 = header_mac env t h" "hc_block t1 = hc_block t"
    "hc_stream t1 = snd (XORKeyStream (hc_stream t) h)" "length (hc_header t1) = 32"
    by (rule half_read_header_ok [OF assms(1-3,6) True [symmetric]])
  then show ?thesis
    using True assms read_body_mac [of t1 d m2 rest, OF t1(2) assms(5,4) t1(6) refl, of env] by (auto simp: data_mac_def Let_def)
next
  case False
  then show ?thesis using half_read_header_mac [OF assms(1-3,6), of env] by auto
qed


definition plain_half :: "bytes list \<Rightarrow> halfConn" where
  "plain_half segs = demo_half segs\<lparr>hc_stream := NewCTR (\<lambda>_. replicate 16 0), hc_block := (\<lambda>_. replicate 16 0)\<rparr>"

lemma plain_half_simps:
  "hc_in (plain_half segs) = segs" "length (hc_header (plain_half segs)) = 32" "hc_mac (plain_half segs) = [3]"
  "fst (XORKeyStream (hc_stream (plain_half segs)) (replicate 16 0)) = replicate 16 0"
  "header_mac env (plain_half segs) h = [3] @ map2 (XOR) (replicate 16 0) (take 16 h)"
  by (simp_all add: plain_half_def demo_half_def XORKeyStream_def NewCTR_def keystream_def header_mac_def mac_step_def list_eq_iff_nth_eq)

theorem tampering_rejected_witness:
  "\<exists>t'. half_read demo_env (plain_half [replicate 16 0 @ take 16 (mac_Sum demo_env (header_mac demo_env (plain_half []) (replicate 16 0))) @ replicate 16 9])
     = Some (t', Inl IncorrectPayloadMac)"
proof -
  let ?h = "replicate 16 0 :: bytes" and ?m2 = "replicate 16 9 :: bytes"
  let ?m1 = "take 16 (mac_Sum demo_env (header_mac demo_env (plain_half []) ?h))"
  let ?t = "plain_half [?h @ ?m1 @ ?m2]"
  have "frame_size ?h = 0" by (simp add: frame_size_def)
  then have d: "length [] = padded (frame_size (fst (XORKeyStream (hc_stream ?t) ?h)))" by (simp add: plain_half_simps padded_def)
  have m1: "?m1 = take 16 (mac_Sum demo_env (header_mac demo_env ?t ?h))" by (simp only: plain_half_simps)
  have "hd (take 16 (mac_Sum demo_env (data_mac demo_env ?t ?h []))) = 3"
    by (simp add: data_mac_def mac_step_def plain_half_simps mac_Sum_def demo_lib_def Let_def)
  then have m2: "?m2 \<noteq> take 16 (mac_Sum demo_env (data_mac demo_env ?t ?h []))" by force
  have "\<exists>t'. half_read demo_env ?t = Some (t', Inl (if ?m1 \<noteq> take 16 (mac_Sum demo_env (header_mac demo_env ?t ?h))
    then IncorrectHeaderMac else IncorrectPayloadMac))"
    by (rule tampering_rejected [of ?t ?h ?m1 "[]" ?m2 "[]" demo_env, OF _ _ _ _ d])
      (use m2 in \<open>simp_all add: plain_half_simps length_mac_Sum demo.crypto_laws_axioms\<close>)
  then show ?thesis unfolding m1 [symmetric] by simp
qed

end
