(* ===== verification/RlpxHandshake.thy ===== *)
theory RlpxHandshake
  imports RlpxChannel
begin

text \<open>
  The encryption handshake of \<open>rlpx/handshake.go\<close> with its two messages from \<open>rlpx/handshake_messages.go\<close>. The state is the
  \<open>handshakeState\<close> with the connection in it: \<open>hs_in\<close> are the segments that will arrive, one for each call of
  \<open>Read\<close>, and \<open>hs_out\<close> the blocks written. Randomness is an argument, the record \<open>draws\<close>.
\<close>

section \<open>The messages\<close>

definition sskLen :: nat where "sskLen = 16"
definition sigLen :: nat where "sigLen = 65"
definition pubLen :: nat where "pubLen = 64"
definition shaLen :: nat where "shaLen = 32"
definition authMsgLen :: nat where "authMsgLen = sigLen + shaLen + pubLen + shaLen + 1"
definition authRespLen :: nat where "authRespLen = pubLen + shaLen + 1"
definition eciesOverhead :: nat where "eciesOverhead = 65 + 16 + 32"
definition encAuthMsgLen :: nat where "encAuthMsgLen = authMsgLen + eciesOverhead"
definition encAuthRespLen :: nat where "encAuthRespLen = authRespLen + eciesOverhead"

lemmas sizes = sskLen_def sigLen_def pubLen_def shaLen_def authMsgLen_def authRespLen_def eciesOverhead_def
  encAuthMsgLen_def encAuthRespLen_def

record authMsgV4 =
  am_gotPlain :: bool
  am_Signature :: bytes
  am_InitiatorPubkey :: bytes
  am_Nonce :: bytes
  am_Version :: uint64

definition authMsgV4_new :: authMsgV4 where
  "authMsgV4_new = \<lparr>am_gotPlain = False, am_Signature = [], am_InitiatorPubkey = [], am_Nonce = [], am_Version = 0\<rparr>"

definition authMsgV4_decode :: "'v fastrlp \<Rightarrow> 'v \<Rightarrow> rlpx_error + authMsgV4" where
  "authMsgV4_decode F v =
     bindR (of_option (BadRlp RlpError) (GetElems F v)) (\<lambda>elems.
     if length elems < 4 then Inl (BadRlp (BadLength (length elems))) else
     bindR (of_option (BadRlp RlpError) (GetBytes F (elems ! 0) (Some sigLen))) (\<lambda>sig.
     bindR (of_option (BadRlp RlpError) (GetBytes F (elems ! 1) (Some pubLen))) (\<lambda>pub.
     bindR (of_option (BadRlp RlpError) (GetBytes F (elems ! 2) (Some shaLen))) (\<lambda>nonce.
     bindR (of_option (BadRlp RlpError) (GetUint64 F (elems ! 3))) (\<lambda>version.
     Inr \<lparr>am_gotPlain = False, am_Signature = sig, am_InitiatorPubkey = pub, am_Nonce = nonce, am_Version = version\<rparr>)))))"

definition authMsgV4_UnmarshalRLP :: "'v fastrlp \<Rightarrow> bytes \<Rightarrow> rlpx_error + authMsgV4" where
  "authMsgV4_UnmarshalRLP F b = bindR (of_option (BadRlp RlpError) (Parse F b)) (authMsgV4_decode F)"

definition authMsgV4_value :: "'v fastrlp \<Rightarrow> authMsgV4 \<Rightarrow> 'v" where
  "authMsgV4_value F a = NewArray F [NewBytes F (am_Signature a), NewBytes F (am_InitiatorPubkey a), NewBytes F (am_Nonce a), NewUint F (am_Version a)]"

definition authMsgV4_MarshalRLP :: "'v fastrlp \<Rightarrow> authMsgV4 \<Rightarrow> bytes \<Rightarrow> bytes" where
  "authMsgV4_MarshalRLP F a dst = dst @ MarshalTo F (authMsgV4_value F a)"

text \<open>\<open>copy(dst, src)\<close>: the new content of \<open>dst\<close> and the number of bytes copied.\<close>

definition go_copy :: "bytes \<Rightarrow> bytes \<Rightarrow> bytes \<times> nat" where
  "go_copy dst src = (take (length dst) src @ drop (length src) dst, min (length dst) (length src))"

text \<open>The slices of the message are copied into, not replaced: fields that are empty stay empty. A slice expression
  past the end of the input panics.\<close>

definition authMsgV4_decodePlain :: "authMsgV4 \<Rightarrow> bytes \<Rightarrow> authMsgV4 option" where
  "authMsgV4_decodePlain msg input =
     (let (sig, n) = go_copy (am_Signature msg) input; n = n + shaLen in
      if length input < n then None
      else let (pub, k) = go_copy (am_InitiatorPubkey msg) (drop n input); n = n + k; (nonce, _) = go_copy (am_Nonce msg) (drop n input)
      in Some \<lparr>am_gotPlain = True, am_Signature = sig, am_InitiatorPubkey = pub, am_Nonce = nonce, am_Version = 4\<rparr>)"

record authRespV4 =
  ar_RandomPubkey :: bytes
  ar_Nonce :: bytes
  ar_Version :: uint64

definition authRespV4_new :: authRespV4 where
  "authRespV4_new = \<lparr>ar_RandomPubkey = [], ar_Nonce = [], ar_Version = 0\<rparr>"

definition authRespV4_decode :: "'v fastrlp \<Rightarrow> 'v \<Rightarrow> rlpx_error + authRespV4" where
  "authRespV4_decode F v =
     bindR (of_option (BadRlp RlpError) (GetElems F v)) (\<lambda>elems.
     if length elems < 3 then Inl (BadRlp (BadLength (length elems))) else
     bindR (of_option (BadRlp RlpError) (GetBytes F (elems ! 0) (Some pubLen))) (\<lambda>pub.
     bindR (of_option (BadRlp RlpError) (GetBytes F (elems ! 1) (Some shaLen))) (\<lambda>nonce.
     bindR (of_option (BadRlp RlpError) (GetUint64 F (elems ! 2))) (\<lambda>version.
     Inr \<lparr>ar_RandomPubkey = pub, ar_Nonce = nonce, ar_Version = version\<rparr>))))"

definition authRespV4_UnmarshalRLP :: "'v fastrlp \<Rightarrow> bytes \<Rightarrow> rlpx_error + authRespV4" where
  "authRespV4_UnmarshalRLP F b = bindR (of_option (BadRlp RlpError) (Parse F b)) (authRespV4_decode F)"

definition authRespV4_value :: "'v fastrlp \<Rightarrow> authRespV4 \<Rightarrow> 'v" where
  "authRespV4_value F a = NewArray F [NewBytes F (ar_RandomPubkey a), NewBytes F (ar_Nonce a), NewUint F (ar_Version a)]"

definition authRespV4_MarshalRLP :: "'v fastrlp \<Rightarrow> authRespV4 \<Rightarrow> bytes \<Rightarrow> bytes" where
  "authRespV4_MarshalRLP F a dst = dst @ MarshalTo F (authRespV4_value F a)"

definition authRespV4_decodePlain :: "authRespV4 \<Rightarrow> bytes \<Rightarrow> authRespV4 option" where
  "authRespV4_decodePlain msg input =
     (let (pub, n) = go_copy (ar_RandomPubkey msg) input; (nonce, _) = go_copy (ar_Nonce msg) (drop n input)
      in Some \<lparr>ar_RandomPubkey = pub, ar_Nonce = nonce, ar_Version = 4\<rparr>)"

section \<open>The connection\<close>

record 'k handshakeState =
  hs_in :: "bytes list"
  hs_out :: "bytes list"
  hs_ok :: "nat \<Rightarrow> bool"
  hs_local :: 'k
  hs_remote :: "point option"
  hs_isClient :: bool
  hs_initNonce :: bytes
  hs_respNonce :: bytes
  hs_randomPrivKey :: "'k option"
  hs_remoteRandomPub :: "point option"

type_synonym ('k, 'a) hs = "('k handshakeState, rlpx_error, 'a) cmd"

text \<open>One call of \<open>Read\<close> into a fresh buffer of \<open>n\<close> bytes: it takes what one segment has, and the rest of the buffer is
  zero.\<close>

definition conn_Read :: "nat \<Rightarrow> ('k, bytes) hs" where
  "conn_Read n s =
     (case hs_in s of
        [] \<Rightarrow> Some (s, Inl ReadFailed)
      | seg # segs \<Rightarrow>
        (if length seg \<le> n then Some (s\<lparr>hs_in := segs\<rparr>, Inr (seg @ replicate (n - length seg) 0))
         else Some (s\<lparr>hs_in := drop n seg # segs\<rparr>, Inr (take n seg))))"

definition hs_Write :: "bytes \<Rightarrow> ('k, unit) hs" where
  "hs_Write b s = Some (s\<lparr>hs_out := hs_out s @ [b]\<rparr>, if hs_ok s (length (hs_out s)) then Inr () else Inl WriteError)"

definition Uint16_BE :: "bytes \<Rightarrow> nat" where
  "Uint16_BE b = unat (b ! 0) * 256 + unat (b ! 1)"

definition PutUint16_BE :: "nat \<Rightarrow> bytes" where
  "PutUint16_BE n = [word_of_nat (n div 256), word_of_nat n]"

definition readBytes :: "('k, 'v) rlpx_env \<Rightarrow> nat \<Rightarrow> ('k, bytes \<times> bytes \<times> bool) hs" where
  "readBytes env plainSize =
     bindS (conn_Read plainSize) (\<lambda>buf.
     bindS (gets hs_local) (\<lambda>k.
     case ecies_Decrypt (rx_ecies env) k buf [] of
       Some dec \<Rightarrow> ret (buf, dec, True)
     | None \<Rightarrow>
       let prefix = take 2 buf; size = Uint16_BE prefix in
       if size < plainSize then fail (SizeUnderflow plainSize) else
       bindS (conn_Read (size - plainSize + 2)) (\<lambda>buf2.
       let buf = buf @ buf2 in
       case ecies_Decrypt (rx_ecies env) k (drop 2 buf) prefix of
         None \<Rightarrow> fail DecryptFailed
       | Some dec \<Rightarrow> ret (buf, dec, False))))"

text \<open>\<open>readMessage\<close> for a message with the given size and decoders; the message and the bytes read.\<close>

definition readMessage :: "('k, 'v) rlpx_env \<Rightarrow> nat \<Rightarrow> (bytes \<Rightarrow> 'm option) \<Rightarrow> (bytes \<Rightarrow> rlpx_error + 'm) \<Rightarrow> ('k, 'm \<times> bytes) hs" where
  "readMessage env plainSize decodePlain UnmarshalRLP =
     bindS (readBytes env plainSize) (\<lambda>(buf, dec, plain).
     if plain then bindS (pureO (decodePlain dec)) (\<lambda>m. ret (m, buf))
     else bindS (pureR (UnmarshalRLP dec)) (\<lambda>m. ret (m, buf)))"

definition read_auth :: "('k, 'v) rlpx_env \<Rightarrow> ('k, authMsgV4 \<times> bytes) hs" where
  "read_auth env = readMessage env encAuthMsgLen (authMsgV4_decodePlain authMsgV4_new) (authMsgV4_UnmarshalRLP (rx_F env))"

definition read_resp :: "('k, 'v) rlpx_env \<Rightarrow> ('k, authRespV4 \<times> bytes) hs" where
  "read_resp env = readMessage env encAuthRespLen (authRespV4_decodePlain authRespV4_new) (authRespV4_UnmarshalRLP (rx_F env))"

text \<open>The random choices of one side: the bytes of \<open>rand.Read\<close> or its failure, the key of \<open>GenerateKey\<close>, the number that
  \<open>mrand.Intn\<close> reduces, and those of the encryption.\<close>

record 'k draws =
  dr_bytes :: "(nat \<Rightarrow> byte) option"
  dr_key :: "'k option"
  dr_pad :: nat
  dr_enc :: nat

definition rand_Read :: "'k draws \<Rightarrow> nat \<Rightarrow> bytes option" where
  "rand_Read d n = map_option (\<lambda>f. map f [0..<n]) (dr_bytes d)"

definition padSpace :: bytes where "padSpace = replicate 300 0"

definition writeMessage :: "('k, 'v) rlpx_env \<Rightarrow> 'k draws \<Rightarrow> bytes \<Rightarrow> ('k, bytes) hs" where
  "writeMessage env d marshalled =
     (let pad = take (dr_pad d mod (length padSpace - 100) + 100) padSpace;
          buf = marshalled @ pad;
          prefix = PutUint16_BE (length buf + eciesOverhead) in
      bindS (gets hs_remote) (\<lambda>remote.
      bindS (pureO remote) (\<lambda>remote.
      bindS (pureR (of_option EncryptFailed (ecies_Encrypt (rx_ecies env) (dr_enc d) remote buf prefix))) (\<lambda>enc.
      let enc = prefix @ enc in
      bindS (hs_Write enc) (\<lambda>_. ret enc)))))"

text \<open>The messages in the form before EIP-8.\<close>

definition copy_to :: "bytes \<Rightarrow> nat \<Rightarrow> bytes \<Rightarrow> bytes \<times> nat" where
  "copy_to buf n src = (take n buf @ fst (go_copy (drop n buf) src), snd (go_copy (drop n buf) src))"

definition authMsgV4_sealPlain :: "('k, 'v) rlpx_env \<Rightarrow> nat \<Rightarrow> point \<Rightarrow> authMsgV4 \<Rightarrow> (rlpx_error + bytes) option" where
  "authMsgV4_sealPlain env r remote msg =
     (let (buf, n) = copy_to (replicate authMsgLen 0) 0 (am_Signature msg); n = n + shaLen in
      if authMsgLen < n then None
      else let (buf, k) = copy_to buf n (am_InitiatorPubkey msg); (buf, _) = copy_to buf (n + k) (am_Nonce msg)
           in Some (of_option EncryptFailed (ecies_Encrypt (rx_ecies env) r remote buf [])))"

definition authRespV4_sealPlain :: "('k, 'v) rlpx_env \<Rightarrow> nat \<Rightarrow> point \<Rightarrow> authRespV4 \<Rightarrow> rlpx_error + bytes" where
  "authRespV4_sealPlain env r remote msg =
     (let (buf, n) = copy_to (replicate authRespLen 0) 0 (ar_RandomPubkey msg); (buf, _) = copy_to buf n (ar_Nonce msg)
      in of_option EncryptFailed (ecies_Encrypt (rx_ecies env) r remote buf []))"

section \<open>The handshake\<close>

text \<open>\<open>other[i]\<close> panics where \<open>other\<close> is the shorter one.\<close>

definition xor_go :: "bytes \<Rightarrow> bytes \<Rightarrow> bytes option" where
  "xor_go one other = (if length other < length one then None else Some (map2 (XOR) one other))"

definition staticSharedSecret :: "('k, 'v) rlpx_env \<Rightarrow> 'k \<Rightarrow> ('k, bytes) hs" where
  "staticSharedSecret env prv =
     bindS (gets hs_remote) (\<lambda>remote.
     bindS (pureO remote) (\<lambda>remote.
     pureR (of_option SharedFailed (ecies_GenerateShared (rx_ecies env) prv remote sskLen sskLen))))"

definition liftC :: "crypto_error + 'a \<Rightarrow> rlpx_error + 'a" where
  "liftC r = (case r of Inl e \<Rightarrow> Inl (CryptoErr e) | Inr a \<Rightarrow> Inr a)"

definition makeAuthMsg :: "('k, 'v) rlpx_env \<Rightarrow> 'k draws \<Rightarrow> 'k \<Rightarrow> ('k, authMsgV4) hs" where
  "makeAuthMsg env d prv =
     bindS (pureR (of_option RandFailed (rand_Read d shaLen))) (\<lambda>nonce.
     bindS (modify (\<lambda>s. s\<lparr>hs_initNonce := nonce\<rparr>)) (\<lambda>_.
     bindS (pureR (of_option RandFailed (dr_key d))) (\<lambda>randomPrivKey.
     bindS (modify (\<lambda>s. s\<lparr>hs_randomPrivKey := Some randomPrivKey\<rparr>)) (\<lambda>_.
     bindS (staticSharedSecret env prv) (\<lambda>token.
     bindS (pureO (xor_go token nonce)) (\<lambda>signed.
     bindS (pureP (map_option liftC (Sign (rx_C env) randomPrivKey signed))) (\<lambda>signature.
     ret \<lparr>am_gotPlain = False, am_Signature = signature,
          am_InitiatorPubkey = drop 1 (MarshallPublicKey (PublicKey (rx_C env) prv)), am_Nonce = nonce, am_Version = 4\<rparr>)))))))"

definition importPublicKey :: "('k, 'v) rlpx_env \<Rightarrow> bytes \<Rightarrow> rlpx_error + point" where
  "importPublicKey env pubKey =
     bindR (if length pubKey = 64 then Inr (4 # pubKey) else if length pubKey = 65 then Inr pubKey else Inl (BadKeyLength (length pubKey)))
       (\<lambda>pubKey65. liftC (ParsePublicKey (rx_C env) pubKey65))"

text \<open>The result of \<open>importPublicKey\<close> is assigned also when it is an error: nil then.\<close>

definition handleAuthResp :: "('k, 'v) rlpx_env \<Rightarrow> authRespV4 \<Rightarrow> ('k, unit) hs" where
  "handleAuthResp env msg =
     bindS (modify (\<lambda>s. s\<lparr>hs_respNonce := ar_Nonce msg\<rparr>)) (\<lambda>_.
     let pub = importPublicKey env (ar_RandomPubkey msg) in
     bindS (modify (\<lambda>s. s\<lparr>hs_remoteRandomPub := (case pub of Inl _ \<Rightarrow> None | Inr p \<Rightarrow> Some p)\<rparr>)) (\<lambda>_.
     bindS (pureR pub) (\<lambda>_. ret ())))"

definition handleAuthMsg :: "('k, 'v) rlpx_env \<Rightarrow> 'k draws \<Rightarrow> authMsgV4 \<Rightarrow> 'k \<Rightarrow> ('k, unit) hs" where
  "handleAuthMsg env d msg prv =
     bindS (modify (\<lambda>s. s\<lparr>hs_initNonce := am_Nonce msg\<rparr>)) (\<lambda>_.
     bindS (pureR (case NodeIDToPubKey (rx_C env) (am_InitiatorPubkey msg) of Inl e \<Rightarrow> Inl (EnodeErr e) | Inr p \<Rightarrow> Inr p)) (\<lambda>remotePub.
     bindS (modify (\<lambda>s. s\<lparr>hs_remote := Some remotePub\<rparr>)) (\<lambda>_.
     bindS (gets hs_randomPrivKey) (\<lambda>key.
     bindS (if key = None
            then bindS (pureR (of_option RandFailed (dr_key d))) (\<lambda>k. modify (\<lambda>s. s\<lparr>hs_randomPrivKey := Some k\<rparr>)) else ret ()) (\<lambda>_.
     bindS (staticSharedSecret env prv) (\<lambda>token.
     bindS (pureO (xor_go token (am_Nonce msg))) (\<lambda>signedMsg.
     bindS (pureP (map_option liftC (RecoverPubkey (rx_C env) (am_Signature msg) signedMsg))) (\<lambda>remoteRandomPub.
     modify (\<lambda>s. s\<lparr>hs_remoteRandomPub :=
       (case importPublicKey env (MarshallPublicKey remoteRandomPub) of Inl _ \<Rightarrow> None | Inr p \<Rightarrow> Some p)\<rparr>)))))))))"

text \<open>A hash is the bytes written to it, and nil before it is made.\<close>

record Secrets =
  sec_RemoteID :: "point option"
  sec_AES :: bytes
  sec_MAC :: bytes
  sec_EgressMAC :: "bytes option"
  sec_IngressMAC :: "bytes option"

definition Secrets_zero :: Secrets where
  "Secrets_zero = \<lparr>sec_RemoteID = None, sec_AES = [], sec_MAC = [], sec_EgressMAC = None, sec_IngressMAC = None\<rparr>"

definition handshake_Secrets :: "('k, 'v) rlpx_env \<Rightarrow> bytes \<Rightarrow> bytes \<Rightarrow> ('k, Secrets) hs" where
  "handshake_Secrets env auth authResp =
     bindS (gets (\<lambda>s. s)) (\<lambda>h.
     bindS (pureO (hs_randomPrivKey h)) (\<lambda>randomPrivKey.
     bindS (pureO (hs_remoteRandomPub h)) (\<lambda>remoteRandomPub.
     bindS (pureR (of_option SharedFailed (ecies_GenerateShared (rx_ecies env) randomPrivKey remoteRandomPub sskLen sskLen))) (\<lambda>ecdheSecret.
     let K = Keccak256 (rx_C env);
         sharedSecret = K [ecdheSecret, K [hs_respNonce h, hs_initNonce h]];
         aesSecret = K [ecdheSecret, sharedSecret];
         macSecret = K [ecdheSecret, aesSecret] in
     bindS (pureO (hs_remote h)) (\<lambda>remote.
     bindS (pureO (xor_go macSecret (hs_respNonce h))) (\<lambda>x1.
     bindS (pureO (xor_go macSecret (hs_initNonce h))) (\<lambda>x2.
     let mac1 = x1 @ auth; mac2 = x2 @ authResp in
     ret \<lparr>sec_RemoteID = Some remote, sec_AES = aesSecret, sec_MAC = macSecret,
          sec_EgressMAC = Some (if hs_isClient h then mac1 else mac2), sec_IngressMAC = Some (if hs_isClient h then mac2 else mac1)\<rparr>)))))))"

definition makeAuthResp :: "('k, 'v) rlpx_env \<Rightarrow> 'k draws \<Rightarrow> ('k, authRespV4) hs" where
  "makeAuthResp env d =
     bindS (pureR (of_option RandFailed (rand_Read d shaLen))) (\<lambda>nonce.
     bindS (modify (\<lambda>s. s\<lparr>hs_respNonce := nonce\<rparr>)) (\<lambda>_.
     bindS (gets hs_randomPrivKey) (\<lambda>key.
     bindS (pureO key) (\<lambda>key.
     ret \<lparr>ar_RandomPubkey = drop 1 (elliptic_Marshal (PublicKey (rx_C env) key)), ar_Nonce = nonce, ar_Version = 4\<rparr>))))"

text \<open>The two sides, from the states they start in. The server returns no error where a step after the first one fails, but
  empty secrets.\<close>

definition server_state :: "'k \<Rightarrow> bytes list \<Rightarrow> (nat \<Rightarrow> bool) \<Rightarrow> 'k handshakeState" where
  "server_state prv segs ok = \<lparr>hs_in = segs, hs_out = [], hs_ok = ok, hs_local = prv, hs_remote = None, hs_isClient = False,
     hs_initNonce = [], hs_respNonce = [], hs_randomPrivKey = None, hs_remoteRandomPub = None\<rparr>"

definition client_state :: "'k \<Rightarrow> point \<Rightarrow> bytes list \<Rightarrow> (nat \<Rightarrow> bool) \<Rightarrow> 'k handshakeState" where
  "client_state prv remoteID segs ok = \<lparr>hs_in = segs, hs_out = [], hs_ok = ok, hs_local = prv, hs_remote = Some remoteID, hs_isClient = True,
     hs_initNonce = [], hs_respNonce = [], hs_randomPrivKey = None, hs_remoteRandomPub = None\<rparr>"

definition or_nothing :: "('k, 'a) hs \<Rightarrow> ('a \<Rightarrow> ('k, Secrets) hs) \<Rightarrow> ('k, Secrets) hs" where
  "or_nothing m f = bindS (attempt m) (\<lambda>r :: rlpx_error + 'a. case r of Inl _ \<Rightarrow> ret Secrets_zero | Inr a \<Rightarrow> f a)"

definition handshakeServer :: "('k, 'v) rlpx_env \<Rightarrow> 'k draws \<Rightarrow> 'k \<Rightarrow> ('k, Secrets) hs" where
  "handshakeServer env d prv =
     bindS (read_auth env) (\<lambda>(authMsg, authPacket).
     or_nothing (handleAuthMsg env d authMsg prv) (\<lambda>_.
     or_nothing (makeAuthResp env d) (\<lambda>authResp.
     or_nothing (writeMessage env d (authRespV4_MarshalRLP (rx_F env) authResp [])) (\<lambda>authRespPacket.
     handshake_Secrets env authPacket authRespPacket))))"

definition handshakeClient :: "('k, 'v) rlpx_env \<Rightarrow> 'k draws \<Rightarrow> 'k \<Rightarrow> ('k, Secrets) hs" where
  "handshakeClient env d prv =
     bindS (makeAuthMsg env d prv) (\<lambda>authMsg.
     bindS (writeMessage env d (authMsgV4_MarshalRLP (rx_F env) authMsg [])) (\<lambda>authPacket.
     bindS (read_resp env) (\<lambda>(authRespMsg, authRespPacket).
     bindS (handleAuthResp env authRespMsg) (\<lambda>_.
     handshake_Secrets env authPacket authRespPacket))))"

section \<open>The messages arrive\<close>

text \<open>
  What the handshake relies on of the encryption library: a message encrypted for a public key is decrypted by its
  private key, given the same shared parameter; the ciphertext is 113 bytes longer and begins with a point in
  uncompressed form, that is with the byte 4. Two parties derive the same secret from each other's keys.
\<close>

locale handshake_laws = rlpx_laws env view
  for env :: "('k, 'v) rlpx_env" and view :: "'v \<Rightarrow> rlp" +
  assumes Encrypt_ok: "\<exists>c. ecies_Encrypt (rx_ecies env) r (PublicKey (rx_C env) k) m sh = Some c"
    and Decrypt_Encrypt: "ecies_Encrypt (rx_ecies env) r (PublicKey (rx_C env) k) m sh = Some c \<Longrightarrow>
      ecies_Decrypt (rx_ecies env) k c sh = Some m \<and> length c = length m + 113"
    and Decrypt_format: "ecies_Decrypt (rx_ecies env) k c sh = Some m \<Longrightarrow> c \<noteq> [] \<and> hd c = 4"
    and GenerateShared_agree: "\<exists>x. ecies_GenerateShared (rx_ecies env) k (PublicKey (rx_C env) k') 16 16 = Some x \<and>
      ecies_GenerateShared (rx_ecies env) k' (PublicKey (rx_C env) k) 16 16 = Some x \<and> length x = 32"

interpretation demo_hs: handshake_laws demo_env "\<lambda>v. v"
  by unfold_locales (auto simp: demo_ecies_def split: if_splits)

context fastrlp_laws
begin

lemma authMsgV4_message: "rlp_message F view (authMsgV4_value F) (authMsgV4_decode F) Inr
  (\<lambda>a. \<not> am_gotPlain a \<and> length (am_Signature a) = 65 \<and> length (am_InitiatorPubkey a) = 64 \<and> length (am_Nonce a) = 32)"
proof unfold_locales
  fix a v assume ok: "\<not> am_gotPlain a \<and> length (am_Signature a) = 65 \<and> length (am_InitiatorPubkey a) = 64 \<and> length (am_Nonce a) = 32"
    and v: "view v = view (authMsgV4_value F a)"
  obtain ws where ws: "GetElems F v = Some ws" "length ws = 4"
    "view (ws ! 0) = view (NewBytes F (am_Signature a))" "view (ws ! 1) = view (NewBytes F (am_InitiatorPubkey a))"
    "view (ws ! 2) = view (NewBytes F (am_Nonce a))" "view (ws ! 3) = view (NewUint F (am_Version a))"
    by (rule GetElems_list [OF v [unfolded authMsgV4_value_def]]) force
  show "authMsgV4_decode F v = Inr a"
    using ok ws(1,2) GetBytes_NewBytes [OF ws(3)] GetBytes_NewBytes [OF ws(4)] GetBytes_NewBytes [OF ws(5)] GetUint64_NewUint [OF ws(6)]
    by (simp add: authMsgV4_decode_def sizes)
qed simp

lemma authRespV4_message: "rlp_message F view (authRespV4_value F) (authRespV4_decode F) Inr
  (\<lambda>a. length (ar_RandomPubkey a) = 64 \<and> length (ar_Nonce a) = 32)"
proof unfold_locales
  fix a v assume ok: "length (ar_RandomPubkey a) = 64 \<and> length (ar_Nonce a) = 32" and v: "view v = view (authRespV4_value F a)"
  obtain ws where ws: "GetElems F v = Some ws" "length ws = 3"
    "view (ws ! 0) = view (NewBytes F (ar_RandomPubkey a))" "view (ws ! 1) = view (NewBytes F (ar_Nonce a))"
    "view (ws ! 2) = view (NewUint F (ar_Version a))"
    by (rule GetElems_list [OF v [unfolded authRespV4_value_def]]) force
  show "authRespV4_decode F v = Inr a"
    using ok ws(1,2) GetBytes_NewBytes [OF ws(3)] GetBytes_NewBytes [OF ws(4)] GetUint64_NewUint [OF ws(5)]
    by (simp add: authRespV4_decode_def sizes)
qed simp

end

context rlp_library
begin

text \<open>The padding after a message does not disturb its decoder, for any message of the library.\<close>

lemma padded_message:
  assumes "rlp_message F view enc dec ok valid" and "valid m" and "length (MarshalTo F (enc m)) < 2 ^ 63"
  shows "\<exists>v. Parse F (MarshalTo F (enc m) @ pad) = Some v \<and> dec v = ok m"
  using Parse_padded [OF assms(3), of pad] rlp_message.dec_enc [OF assms(1,2)] by metis

lemma length_auth:
  assumes "length (am_Signature a) = 65" and "length (am_InitiatorPubkey a) = 64" and "length (am_Nonce a) = 32" and "am_Version a = 4"
  shows "length (MarshalTo F (authMsgV4_value F a)) = 169"
  using assms by (simp add: authMsgV4_value_def MarshalTo_rlp view_NewArray view_NewBytes view_NewUint rlp_eval Let_def)

lemma length_resp:
  assumes "length (ar_RandomPubkey a) = 64" and "length (ar_Nonce a) = 32" and "ar_Version a = 4"
  shows "length (MarshalTo F (authRespV4_value F a)) = 102"
  using assms by (simp add: authRespV4_value_def MarshalTo_rlp view_NewArray view_NewBytes view_NewUint rlp_eval Let_def)

end

definition hs_pad :: "'k draws \<Rightarrow> bytes" where
  "hs_pad d = take (dr_pad d mod (length padSpace - 100) + 100) padSpace"

lemma length_hs_pad: "100 \<le> length (hs_pad d)" "length (hs_pad d) < 300"
  by (simp_all add: hs_pad_def padSpace_def)

lemma Uint16_PutUint16: "n < 1024 \<Longrightarrow> Uint16_BE (PutUint16_BE n @ r) = n"
  by (simp add: Uint16_BE_def PutUint16_BE_def unat_of_nat)

text \<open>What \<open>writeMessage\<close> sends to the holder of the key \<open>k\<close>.\<close>

definition hs_cipher :: "('k, 'v) rlpx_env \<Rightarrow> 'k draws \<Rightarrow> 'k \<Rightarrow> bytes \<Rightarrow> bytes" where
  "hs_cipher env d k m = the (ecies_Encrypt (rx_ecies env) (dr_enc d) (PublicKey (rx_C env) k) (m @ hs_pad d)
     (PutUint16_BE (length (m @ hs_pad d) + eciesOverhead)))"

definition hs_packet :: "('k, 'v) rlpx_env \<Rightarrow> 'k draws \<Rightarrow> 'k \<Rightarrow> bytes \<Rightarrow> bytes" where
  "hs_packet env d k m = PutUint16_BE (length (hs_cipher env d k m)) @ hs_cipher env d k m"

context handshake_laws
begin

lemma hs_cipher:
  "length (hs_cipher env d k m) = length m + length (hs_pad d) + 113"
  "ecies_Decrypt (rx_ecies env) k (hs_cipher env d k m) (PutUint16_BE (length (hs_cipher env d k m))) = Some (m @ hs_pad d)"
  "ecies_Encrypt (rx_ecies env) (dr_enc d) (PublicKey (rx_C env) k) (m @ hs_pad d) (PutUint16_BE (length (m @ hs_pad d) + eciesOverhead)) =
    Some (hs_cipher env d k m)"
proof -
  obtain c where "ecies_Encrypt (rx_ecies env) (dr_enc d) (PublicKey (rx_C env) k) (m @ hs_pad d)
     (PutUint16_BE (length (m @ hs_pad d) + eciesOverhead)) = Some c"
    using Encrypt_ok by blast
  then show *: "ecies_Encrypt (rx_ecies env) (dr_enc d) (PublicKey (rx_C env) k) (m @ hs_pad d)
     (PutUint16_BE (length (m @ hs_pad d) + eciesOverhead)) = Some (hs_cipher env d k m)" by (simp add: hs_cipher_def)
  show len: "length (hs_cipher env d k m) = length m + length (hs_pad d) + 113"
    using Decrypt_Encrypt [OF *] by simp
  then have "length (m @ hs_pad d) + eciesOverhead = length (hs_cipher env d k m)" by (simp add: eciesOverhead_def)
  with Decrypt_Encrypt [OF *] show "ecies_Decrypt (rx_ecies env) k (hs_cipher env d k m) (PutUint16_BE (length (hs_cipher env d k m))) = Some (m @ hs_pad d)"
    by simp
qed

lemma writeMessage_ok:
  assumes "hs_remote s = Some (PublicKey (rx_C env) k)" and "hs_ok s = (\<lambda>_. True)"
  shows "writeMessage env d m s = Some (s\<lparr>hs_out := hs_out s @ [hs_packet env d k m]\<rparr>, Inr (hs_packet env d k m))"
proof -
  have len: "length (m @ hs_pad d) + eciesOverhead = length (hs_cipher env d k m)" using hs_cipher(1) [of d k m] by (simp add: eciesOverhead_def)
  show ?thesis
    unfolding writeMessage_def Let_def hs_pad_def [symmetric] len
    using assms hs_cipher(3) [of d k m, unfolded len] by (simp add: hs_Write_def bindS_def hs_packet_def)
qed

lemma readBytes_ok:
  assumes "hs_in s = (PutUint16_BE (length c) @ c) # rest" and "2 \<le> plainSize" and "plainSize \<le> length c" and "length c < 1024"
    and "ecies_Decrypt (rx_ecies env) (hs_local s) c (PutUint16_BE (length c)) = Some m"
  shows "readBytes env plainSize s = Some (s\<lparr>hs_in := rest\<rparr>, Inr (PutUint16_BE (length c) @ c, m, False))"
proof -
  let ?p = "PutUint16_BE (length c)"
  have "(word_of_nat (length c div 256) :: byte) \<noteq> 4" using assms(4) by (simp add: word_unat_eq_iff unat_of_nat)
  then obtain h l where p: "?p = [h, l]" "h \<noteq> 4" by (simp add: PutUint16_BE_def)
  then have t2: "take 2 (take plainSize (?p @ c)) = ?p" and hd: "hd (take plainSize (?p @ c)) \<noteq> 4"
    using assms(2) by (simp_all add: take_Cons' )
  have plain: "ecies_Decrypt (rx_ecies env) (hs_local s) (take plainSize (?p @ c)) [] = None"
    using Decrypt_format [of "hs_local s" "take plainSize (?p @ c)" "[]"] hd by (cases "ecies_Decrypt (rx_ecies env) (hs_local s) (take plainSize (?p @ c)) []") auto
  have size: "Uint16_BE ?p = length c" using Uint16_PutUint16 [OF assms(4), of "[]"] by simp
  have len: "length (?p @ c) = length c + 2" by (simp add: PutUint16_BE_def)
  have r1: "conn_Read plainSize s = Some (s\<lparr>hs_in := drop plainSize (?p @ c) # rest\<rparr>, Inr (take plainSize (?p @ c)))"
    using assms(1,3) len by (simp add: conn_Read_def)
  have r2: "conn_Read (Suc (Suc (length c - plainSize))) (s\<lparr>hs_in := drop plainSize (?p @ c) # rest\<rparr>) =
      Some (s\<lparr>hs_in := rest\<rparr>, Inr (drop plainSize (?p @ c)))"
    using assms(3) len by (simp add: conn_Read_def)
  have drop2: "drop 2 (?p @ c) = c" by (simp add: PutUint16_BE_def)
  show ?thesis
    unfolding readBytes_def bindS_eval(3) [of "conn_Read plainSize", OF r1]
    using plain t2 size assms(3,5) drop2
    by (simp add: Let_def bindS_eval(3) [of "conn_Read (Suc (Suc (length c - plainSize)))", OF r2] del: take_append drop_append take_take)
qed

lemma read_auth_ok:
  assumes "hs_in s = hs_packet env d (hs_local s) (authMsgV4_MarshalRLP (rx_F env) a []) # rest"
    and a: "\<not> am_gotPlain a" "length (am_Signature a) = 65" "length (am_InitiatorPubkey a) = 64" "length (am_Nonce a) = 32" "am_Version a = 4"
  shows "read_auth env s = Some (s\<lparr>hs_in := rest\<rparr>, Inr (a, hs_packet env d (hs_local s) (authMsgV4_MarshalRLP (rx_F env) a [])))"
proof -
  let ?m = "authMsgV4_MarshalRLP (rx_F env) a []"
  have len: "length ?m = 169" using length_auth [OF a(2-5)] by (simp add: authMsgV4_MarshalRLP_def)
  have un: "authMsgV4_UnmarshalRLP (rx_F env) (?m @ hs_pad d) = Inr a"
    using padded_message [OF authMsgV4_message, of a "hs_pad d"] a len by (auto simp: authMsgV4_MarshalRLP_def authMsgV4_UnmarshalRLP_def)
  have "readBytes env encAuthMsgLen s = Some (s\<lparr>hs_in := rest\<rparr>, Inr (hs_packet env d (hs_local s) ?m, ?m @ hs_pad d, False))"
    unfolding hs_packet_def
    by (rule readBytes_ok [OF assms(1) [unfolded hs_packet_def] _ _ _ hs_cipher(2)])
      (use hs_cipher(1) [of d "hs_local s" ?m] len length_hs_pad [of d] in \<open>simp_all add: sizes\<close>)
  then show ?thesis by (simp add: read_auth_def readMessage_def bindS_def un)
qed

lemma read_resp_ok:
  assumes "hs_in s = hs_packet env d (hs_local s) (authRespV4_MarshalRLP (rx_F env) a []) # rest"
    and a: "length (ar_RandomPubkey a) = 64" "length (ar_Nonce a) = 32" "ar_Version a = 4"
  shows "read_resp env s = Some (s\<lparr>hs_in := rest\<rparr>, Inr (a, hs_packet env d (hs_local s) (authRespV4_MarshalRLP (rx_F env) a [])))"
proof -
  let ?m = "authRespV4_MarshalRLP (rx_F env) a []"
  have len: "length ?m = 102" using length_resp [OF a] by (simp add: authRespV4_MarshalRLP_def)
  have un: "authRespV4_UnmarshalRLP (rx_F env) (?m @ hs_pad d) = Inr a"
    using padded_message [OF authRespV4_message, of a "hs_pad d"] a len by (auto simp: authRespV4_MarshalRLP_def authRespV4_UnmarshalRLP_def)
  have "readBytes env encAuthRespLen s = Some (s\<lparr>hs_in := rest\<rparr>, Inr (hs_packet env d (hs_local s) ?m, ?m @ hs_pad d, False))"
    unfolding hs_packet_def
    by (rule readBytes_ok [OF assms(1) [unfolded hs_packet_def] _ _ _ hs_cipher(2)])
      (use hs_cipher(1) [of d "hs_local s" ?m] len length_hs_pad [of d] in \<open>simp_all add: sizes\<close>)
  then show ?thesis by (simp add: read_resp_def readMessage_def bindS_def un)
qed

end

section \<open>Both sides derive the same secrets\<close>

text \<open>The secrets from the ephemeral shared secret \<open>x\<close>, the two nonces and the two packets.\<close>

definition aes_of :: "('k, 'v) rlpx_env \<Rightarrow> bytes \<Rightarrow> bytes \<Rightarrow> bytes \<Rightarrow> bytes" where
  "aes_of env x ni nr = Keccak256 (rx_C env) [x, Keccak256 (rx_C env) [x, Keccak256 (rx_C env) [nr, ni]]]"

definition mac_of :: "('k, 'v) rlpx_env \<Rightarrow> bytes \<Rightarrow> bytes \<Rightarrow> bytes \<Rightarrow> bytes" where
  "mac_of env x ni nr = Keccak256 (rx_C env) [x, aes_of env x ni nr]"

definition secrets_of :: "('k, 'v) rlpx_env \<Rightarrow> bool \<Rightarrow> point \<Rightarrow> bytes \<Rightarrow> bytes \<Rightarrow> bytes \<Rightarrow> bytes \<Rightarrow> bytes \<Rightarrow> Secrets" where
  "secrets_of env isClient remote x ni nr auth resp =
     (let m = mac_of env x ni nr; mac1 = map2 (XOR) m nr @ auth; mac2 = map2 (XOR) m ni @ resp in
      \<lparr>sec_RemoteID = Some remote, sec_AES = aes_of env x ni nr, sec_MAC = m,
       sec_EgressMAC = Some (if isClient then mac1 else mac2), sec_IngressMAC = Some (if isClient then mac2 else mac1)\<rparr>)"

lemma length_Keccak256: "crypto_laws C \<Longrightarrow> length (Keccak256 C v) = 32"
  by (rule crypto_laws.Keccak256_length)

lemma importPublicKey_on_curve:
  assumes "crypto_laws (rx_C env)" and "on_curve (rx_C env) p"
  shows "importPublicKey env (drop 1 (elliptic_Marshal p)) = Inr p" "importPublicKey env (MarshallPublicKey p) = Inr p"
proof -
  have "4 # drop 1 (elliptic_Marshal p) = elliptic_Marshal p" by (simp add: elliptic_Marshal_def)
  then show "importPublicKey env (drop 1 (elliptic_Marshal p)) = Inr p" "importPublicKey env (MarshallPublicKey p) = Inr p"
    using crypto_laws.Unmarshal_Marshal [OF assms]
    by (simp_all add: importPublicKey_def ParsePublicKey_def liftC_def MarshallPublicKey_def)
qed

lemma handshake_Secrets_ok:
  assumes "crypto_laws (rx_C env)" and "hs_randomPrivKey s = Some k" and "hs_remoteRandomPub s = Some p"
    and "ecies_GenerateShared (rx_ecies env) k p 16 16 = Some x" and "hs_remote s = Some r"
    and "length (hs_initNonce s) = 32" and "length (hs_respNonce s) = 32"
  shows "handshake_Secrets env auth resp s = Some (s, Inr (secrets_of env (hs_isClient s) r x (hs_initNonce s) (hs_respNonce s) auth resp))"
  using assms length_Keccak256 [OF assms(1)]
  by (simp add: handshake_Secrets_def sizes xor_go_def secrets_of_def mac_of_def aes_of_def Let_def)

lemma rand_Read_Some: "dr_bytes d = Some f \<Longrightarrow> rand_Read d 32 = Some (map f [0..<32])"
  by (simp add: rand_Read_def)

text \<open>The client's message, with a signature \<open>sig\<close> of the static secret under the nonce.\<close>

definition auth_of :: "('k, 'v) rlpx_env \<Rightarrow> 'k \<Rightarrow> bytes \<Rightarrow> bytes \<Rightarrow> authMsgV4" where
  "auth_of env kc sig ni = \<lparr>am_gotPlain = False, am_Signature = sig, am_InitiatorPubkey = PubkeyToEnode (PublicKey (rx_C env) kc),
     am_Nonce = ni, am_Version = 4\<rparr>"

definition resp_of :: "('k, 'v) rlpx_env \<Rightarrow> 'k \<Rightarrow> bytes \<Rightarrow> authRespV4" where
  "resp_of env es nr = \<lparr>ar_RandomPubkey = drop 1 (elliptic_Marshal (PublicKey (rx_C env) es)), ar_Nonce = nr, ar_Version = 4\<rparr>"

lemma makeAuthMsg_ok:
  assumes "rand_Read d 32 = Some ni" and "dr_key d = Some ec" and "hs_remote s = Some p"
    and "ecies_GenerateShared (rx_ecies env) kc p 16 16 = Some x" and "length x = 32" and "length ni = 32"
    and "Sign (rx_C env) ec (map2 (XOR) x ni) = Some (Inr sig)"
  shows "makeAuthMsg env d kc s = Some (s\<lparr>hs_initNonce := ni, hs_randomPrivKey := Some ec\<rparr>, Inr (auth_of env kc sig ni))"
  using assms by (simp add: makeAuthMsg_def staticSharedSecret_def bindS_def sizes xor_go_def liftC_def auth_of_def PubkeyToEnode_def)

lemma handleAuthMsg_ok:
  assumes "crypto_laws (rx_C env)" and "dr_key d = Some es" and "hs_randomPrivKey s = None"
    and "ecies_GenerateShared (rx_ecies env) ks (PublicKey (rx_C env) kc) 16 16 = Some x" and "length x = 32" and "length ni = 32"
    and "RecoverPubkey (rx_C env) sig (map2 (XOR) x ni) = Some (Inr p)" and "on_curve (rx_C env) p"
  shows "handleAuthMsg env d (auth_of env kc sig ni) ks s =
    Some (s\<lparr>hs_initNonce := ni, hs_remote := Some (PublicKey (rx_C env) kc), hs_randomPrivKey := Some es, hs_remoteRandomPub := Some p\<rparr>, Inr ())"
  using assms NodeIDToPubKey_PubkeyToEnode [OF assms(1) crypto_laws.PublicKey_on_curve [OF assms(1)], of kc] importPublicKey_on_curve(2) [OF assms(1,8)]
  by (simp add: handleAuthMsg_def auth_of_def staticSharedSecret_def bindS_def sizes xor_go_def liftC_def)

lemma makeAuthResp_ok:
  assumes "rand_Read d 32 = Some nr" and "hs_randomPrivKey s = Some es"
  shows "makeAuthResp env d s = Some (s\<lparr>hs_respNonce := nr\<rparr>, Inr (resp_of env es nr))"
  using assms by (simp add: makeAuthResp_def sizes resp_of_def)

lemma handleAuthResp_ok:
  assumes "crypto_laws (rx_C env)"
  shows "handleAuthResp env (resp_of env es nr) s = Some (s\<lparr>hs_respNonce := nr, hs_remoteRandomPub := Some (PublicKey (rx_C env) es)\<rparr>, Inr ())"
  using importPublicKey_on_curve(1) [OF assms crypto_laws.PublicKey_on_curve [OF assms], of es]
  by (simp add: handleAuthResp_def resp_of_def)

context handshake_laws
begin

lemma server_run:
  assumes d: "rand_Read d 32 = Some nr" "length nr = 32" "dr_key d = Some es"
    and x: "ecies_GenerateShared (rx_ecies env) ks (PublicKey (rx_C env) kc) 16 16 = Some x" "length x = 32"
    and y: "ecies_GenerateShared (rx_ecies env) es (PublicKey (rx_C env) ec) 16 16 = Some y"
    and sig: "RecoverPubkey (rx_C env) sig (map2 (XOR) x ni) = Some (Inr (PublicKey (rx_C env) ec))" "length sig = 65" "length ni = 32"
    and A: "A = hs_packet env dc ks (authMsgV4_MarshalRLP (rx_F env) (auth_of env kc sig ni) [])"
    and R: "R = hs_packet env d kc (authRespV4_MarshalRLP (rx_F env) (resp_of env es nr) [])"
  shows "\<exists>s'. handshakeServer env d ks (server_state ks (A # rest) (\<lambda>_. True)) =
    Some (s', Inr (secrets_of env False (PublicKey (rx_C env) kc) y ni nr A R)) \<and> hs_out s' = [R] \<and> hs_in s' = rest"
proof -
  let ?a = "auth_of env kc sig ni"
  have auth: "read_auth env (server_state ks (A # rest) (\<lambda>_. True)) = Some (server_state ks rest (\<lambda>_. True), Inr (?a, A))"
    using read_auth_ok [of "server_state ks (A # rest) (\<lambda>_. True)" dc ?a rest] sig(2,3)
    by (simp add: server_state_def auth_of_def A)
  let ?s1 = "(server_state ks rest (\<lambda>_. True))\<lparr>hs_initNonce := ni, hs_remote := Some (PublicKey (rx_C env) kc),
      hs_randomPrivKey := Some es, hs_remoteRandomPub := Some (PublicKey (rx_C env) ec)\<rparr>"
  have handle: "handleAuthMsg env d ?a ks (server_state ks rest (\<lambda>_. True)) = Some (?s1, Inr ())"
    using handleAuthMsg_ok [OF crypto_laws_axioms d(3) _ x sig(3,1) PublicKey_on_curve] by (simp add: server_state_def)
  let ?s2 = "?s1\<lparr>hs_respNonce := nr\<rparr>"
  have make: "makeAuthResp env d ?s1 = Some (?s2, Inr (resp_of env es nr))" using d(1) by (intro makeAuthResp_ok) simp_all
  let ?s3 = "?s2\<lparr>hs_out := [R]\<rparr>"
  have send: "writeMessage env d (authRespV4_MarshalRLP (rx_F env) (resp_of env es nr) []) ?s2 = Some (?s3, Inr R)"
    using writeMessage_ok [of ?s2 kc d] by (simp add: R server_state_def)
  have "handshake_Secrets env A R ?s3 = Some (?s3, Inr (secrets_of env False (PublicKey (rx_C env) kc) y ni nr A R))"
    using handshake_Secrets_ok [OF crypto_laws_axioms, of ?s3 es "PublicKey (rx_C env) ec" y "PublicKey (rx_C env) kc" A R] y d(2) sig(3)
    by (simp add: server_state_def)
  then show ?thesis
    using auth handle make send by (simp add: handshakeServer_def or_nothing_def bindS_def attempt_def) (simp add: server_state_def)
qed

lemma client_run:
  assumes d: "rand_Read d 32 = Some ni" "length ni = 32" "dr_key d = Some ec"
    and x: "ecies_GenerateShared (rx_ecies env) kc (PublicKey (rx_C env) ks) 16 16 = Some x" "length x = 32"
    and y: "ecies_GenerateShared (rx_ecies env) ec (PublicKey (rx_C env) es) 16 16 = Some y"
    and sig: "Sign (rx_C env) ec (map2 (XOR) x ni) = Some (Inr sig)" and nr: "length nr = 32"
    and A: "A = hs_packet env d ks (authMsgV4_MarshalRLP (rx_F env) (auth_of env kc sig ni) [])"
    and R: "R = hs_packet env ds kc (authRespV4_MarshalRLP (rx_F env) (resp_of env es nr) [])"
  shows "\<exists>c'. handshakeClient env d kc (client_state kc (PublicKey (rx_C env) ks) (R # rest) (\<lambda>_. True)) =
    Some (c', Inr (secrets_of env True (PublicKey (rx_C env) ks) y ni nr A R)) \<and> hs_out c' = [A] \<and> hs_in c' = rest"
proof -
  let ?s0 = "client_state kc (PublicKey (rx_C env) ks) (R # rest) (\<lambda>_. True)"
  let ?s1 = "?s0\<lparr>hs_initNonce := ni, hs_randomPrivKey := Some ec\<rparr>"
  have make: "makeAuthMsg env d kc ?s0 = Some (?s1, Inr (auth_of env kc sig ni))"
    using makeAuthMsg_ok [OF d(1,3) _ x d(2) sig, of ?s0] by (simp add: client_state_def)
  let ?s2 = "?s1\<lparr>hs_out := [A]\<rparr>"
  have send: "writeMessage env d (authMsgV4_MarshalRLP (rx_F env) (auth_of env kc sig ni) []) ?s1 = Some (?s2, Inr A)"
    using writeMessage_ok [of ?s1 ks d] by (simp add: A client_state_def)
  let ?s3 = "?s2\<lparr>hs_in := rest\<rparr>"
  have resp: "read_resp env ?s2 = Some (?s3, Inr (resp_of env es nr, R))"
    using read_resp_ok [of ?s2 ds "resp_of env es nr" rest] nr by (simp add: client_state_def resp_of_def R)
  let ?s4 = "?s3\<lparr>hs_respNonce := nr, hs_remoteRandomPub := Some (PublicKey (rx_C env) es)\<rparr>"
  have handle: "handleAuthResp env (resp_of env es nr) ?s3 = Some (?s4, Inr ())" by (rule handleAuthResp_ok [OF crypto_laws_axioms])
  have "handshake_Secrets env A R ?s4 = Some (?s4, Inr (secrets_of env True (PublicKey (rx_C env) ks) y ni nr A R))"
    using handshake_Secrets_ok [OF crypto_laws_axioms, of ?s4 ec "PublicKey (rx_C env) es" y "PublicKey (rx_C env) ks" A R] y d(2) nr
    by (simp add: client_state_def)
  then show ?thesis
    using make send resp handle by (simp add: handshakeClient_def bindS_def)
qed

end

text \<open>What the random choices must be for a side to succeed: they can be drawn, and the client's signature of the static
  secret under its nonce is one that \<open>Sign\<close> does not spoil.\<close>

definition can_draw :: "'k draws \<Rightarrow> bool" where
  "can_draw d \<longleftrightarrow> dr_bytes d \<noteq> None \<and> dr_key d \<noteq> None"

definition signs_auth :: "('k, 'v) rlpx_env \<Rightarrow> 'k draws \<Rightarrow> 'k \<Rightarrow> 'k \<Rightarrow> bool" where
  "signs_auth env d kc ks =
     (case ecies_GenerateShared (rx_ecies env) kc (PublicKey (rx_C env) ks) 16 16 of
        None \<Rightarrow> False
      | Some x \<Rightarrow> (case SignCompact (rx_C env) (the (dr_key d)) (map2 (XOR) x (the (rand_Read d 32))) of
                    None \<Rightarrow> False | Some sig \<Rightarrow> sig ! 0 = 27 \<or> sig ! 0 = 28))"

context handshake_laws
begin

lemma handshake_secrets:
  assumes "can_draw dc" and "can_draw ds" and "signs_auth env dc kc ks"
  shows "\<exists>A R x ni nr. \<forall>rc rs. \<exists>c' s'.
    handshakeClient env dc kc (client_state kc (PublicKey (rx_C env) ks) (R # rc) (\<lambda>_. True)) =
      Some (c', Inr (secrets_of env True (PublicKey (rx_C env) ks) x ni nr A R)) \<and> hs_out c' = [A] \<and> hs_in c' = rc \<and>
    handshakeServer env ds ks (server_state ks (A # rs) (\<lambda>_. True)) =
      Some (s', Inr (secrets_of env False (PublicKey (rx_C env) kc) x ni nr A R)) \<and> hs_out s' = [R] \<and> hs_in s' = rs"
proof -
  obtain ec ni es nr where d: "dr_key dc = Some ec" "rand_Read dc 32 = Some ni" "length ni = 32"
    "dr_key ds = Some es" "rand_Read ds 32 = Some nr" "length nr = 32"
    using assms(1,2) by (auto simp: can_draw_def rand_Read_def)
  obtain x where x: "ecies_GenerateShared (rx_ecies env) kc (PublicKey (rx_C env) ks) 16 16 = Some x"
    "ecies_GenerateShared (rx_ecies env) ks (PublicKey (rx_C env) kc) 16 16 = Some x" "length x = 32"
    using GenerateShared_agree by blast
  obtain y where y: "ecies_GenerateShared (rx_ecies env) ec (PublicKey (rx_C env) es) 16 16 = Some y"
    "ecies_GenerateShared (rx_ecies env) es (PublicKey (rx_C env) ec) 16 16 = Some y"
    using GenerateShared_agree by blast
  obtain z where "SignCompact (rx_C env) ec (map2 (XOR) x ni) = Some z" "z ! 0 = 27 \<or> z ! 0 = 28"
    using assms(3) d x(1) by (auto simp: signs_auth_def split: option.splits)
  then obtain sig where sig: "Sign (rx_C env) ec (map2 (XOR) x ni) = Some (Inr sig)" "length sig = 65"
    "RecoverPubkey (rx_C env) sig (map2 (XOR) x ni) = Some (Inr (PublicKey (rx_C env) ec))" by (rule Sign_Recover)
  show ?thesis
    using client_run [OF d(2,3,1) x(1,3) y(1) sig(1) d(6) refl refl, of ds]
      server_run [OF d(5,6,4) x(2,3) y(2) sig(3,2) d(3) refl refl, of dc] by blast
qed

end

section \<open>Properties\<close>

text \<open>Property C31. The encryption handshake agrees on the secrets. The client that knows the server's key and the server
  run against each other, each reading in one piece what the other wrote; then both end with the same key for
  the cipher and for the checksums, what one side has as its outgoing checksum is the other's
  incoming one, and each has the other's identity. No step fails or panics, in either role.\<close>

theorem handshake_agrees:
  assumes "handshake_laws env view" and "can_draw dc" and "can_draw ds" and "signs_auth env dc kc ks"
  shows "\<exists>A R c' s' Sc Ss.
    handshakeClient env dc kc (client_state kc (PublicKey (rx_C env) ks) [R] (\<lambda>_. True)) = Some (c', Inr Sc) \<and> hs_out c' = [A] \<and>
    handshakeServer env ds ks (server_state ks [A] (\<lambda>_. True)) = Some (s', Inr Ss) \<and> hs_out s' = [R] \<and>
    sec_RemoteID Sc = Some (PublicKey (rx_C env) ks) \<and> sec_RemoteID Ss = Some (PublicKey (rx_C env) kc) \<and>
    sec_AES Sc = sec_AES Ss \<and> sec_MAC Sc = sec_MAC Ss \<and> length (sec_AES Sc) = 32 \<and> length (sec_MAC Sc) = 32 \<and>
    sec_EgressMAC Sc = sec_IngressMAC Ss \<and> sec_IngressMAC Sc = sec_EgressMAC Ss"
proof -
  have "crypto_laws (rx_C env)" using assms(1) by (simp add: handshake_laws_def rlpx_laws_def)
  note len = length_Keccak256 [OF this]
  obtain A R x ni nr c' s' where run:
    "handshakeClient env dc kc (client_state kc (PublicKey (rx_C env) ks) [R] (\<lambda>_. True)) =
      Some (c', Inr (secrets_of env True (PublicKey (rx_C env) ks) x ni nr A R))" "hs_out c' = [A]"
    "handshakeServer env ds ks (server_state ks [A] (\<lambda>_. True)) =
      Some (s', Inr (secrets_of env False (PublicKey (rx_C env) kc) x ni nr A R))" "hs_out s' = [R]"
    using handshake_laws.handshake_secrets [OF assms] by blast
  show ?thesis
    by (intro exI conjI) (rule run, rule run, rule run, rule run, simp_all add: secrets_of_def Let_def mac_of_def aes_of_def len)
qed

definition demo_draws :: "bool \<Rightarrow> bool draws" where
  "demo_draws k = \<lparr>dr_bytes = Some (\<lambda>i. word_of_nat i), dr_key = Some k, dr_pad = 17, dr_enc = 0\<rparr>"

theorem handshake_agrees_witness:
  "\<exists>A R c' s' Sc Ss.
    handshakeClient demo_env (demo_draws True) True (client_state True (demo_point False) [R] (\<lambda>_. True)) = Some (c', Inr Sc) \<and> hs_out c' = [A] \<and>
    handshakeServer demo_env (demo_draws False) False (server_state False [A] (\<lambda>_. True)) = Some (s', Inr Ss) \<and> hs_out s' = [R] \<and>
    sec_RemoteID Ss = Some (demo_point True) \<and> sec_AES Sc = sec_AES Ss"
proof -
  have "can_draw (demo_draws True)" "can_draw (demo_draws False)" "signs_auth demo_env (demo_draws True) True False"
    and keys: "PublicKey demo_lib k = demo_point k" for k
    by (simp_all add: can_draw_def signs_auth_def demo_draws_def demo_ecies_def demo_lib_def)
  from handshake_agrees [OF demo_hs.handshake_laws_axioms this(1-3)] show ?thesis unfolding demo_env_simps keys by blast
qed

end
