(* ===== verification/RlpxStream.thy ===== *)
theory RlpxStream
  imports RlpxHandshake
begin

text \<open>
  The streams of \<open>rlpx/stream.go\<close>: each protocol of a session has a range of message codes and a buffer, into which the
  session writes the messages of that range, each with a header, and from which the protocol reads them.
\<close>

section \<open>Definitions\<close>

text \<open>\<open>ProtocolSpec\<close> of \<open>server.go\<close>.\<close>

record ProtocolSpec =
  ps_Name :: string
  ps_Version :: uint64
  ps_Length :: uint64

text \<open>A \<open>bytes.Buffer\<close> is its unread bytes, and nil before the first message. The two channels have one place each.
  Nothing sets the deadlines of a stream, since its methods for them set those of the connection.\<close>

record Stream =
  st_offset :: uint64
  st_length :: uint64
  st_recvBuf :: "bytes option"
  st_recvNotifyCh :: bool
  st_errorCh :: "rlpx_error option"
  st_header :: "bytes option"
  st_protocol :: ProtocolSpec

definition ProtocolSpec_zero :: ProtocolSpec where
  "ProtocolSpec_zero = \<lparr>ps_Name = [], ps_Version = 0, ps_Length = 0\<rparr>"

definition NewStream :: "uint64 \<Rightarrow> uint64 \<Rightarrow> Stream" where
  "NewStream offset len = \<lparr>st_offset = offset, st_length = len, st_recvBuf = None, st_recvNotifyCh = False, st_errorCh = None,
     st_header = None, st_protocol = ProtocolSpec_zero\<rparr>"

definition HeaderSize :: nat where "HeaderSize = 2 + 4"

definition Header_MsgType :: "bytes \<Rightarrow> uint16" where
  "Header_MsgType h = word_of_nat (be_value (take 2 h))"

definition Header_Length :: "bytes \<Rightarrow> uint32" where
  "Header_Length h = word_of_nat (be_value (take 4 (drop 2 h)))"

text \<open>\<open>Encode\<close> fills a fresh header.\<close>

definition Header_Encode :: "uint16 \<Rightarrow> uint32 \<Rightarrow> bytes" where
  "Header_Encode msgType len = FillBytes 2 (unat msgType) @ FillBytes 4 (unat len)"

text \<open>\<open>asyncNotify\<close> fills the place of the channel, if it is empty.\<close>

definition asyncNotify :: "Stream \<Rightarrow> Stream" where
  "asyncNotify s = s\<lparr>st_recvNotifyCh := True\<rparr>"

definition readData :: "uint64 \<Rightarrow> bytes \<Rightarrow> Stream \<Rightarrow> Stream" where
  "readData code buf s =
     (let h = Header_Encode (ucast (code - st_offset s)) (word_of_nat (length buf));
          old = (case st_recvBuf s of None \<Rightarrow> [] | Some b \<Rightarrow> b)
      in asyncNotify (s\<lparr>st_recvBuf := Some (old @ h @ buf)\<rparr>))"

text \<open>
  \<open>read\<close> into a buffer of \<open>n\<close> bytes. Where there is neither data nor an error it waits: \<open>None\<close>. A pending notification only
  makes it look at the buffer again. What it returns are the bytes read, which may be fewer than \<open>n\<close>.
\<close>

definition stream_read :: "nat \<Rightarrow> Stream \<Rightarrow> (Stream \<times> (rlpx_error + bytes)) option" where
  "stream_read n s =
     (if n = 0 then Some (s, Inr [])
      else case st_recvBuf s of
        Some (b # bs) \<Rightarrow> Some (asyncNotify (s\<lparr>st_recvBuf := Some (drop n (b # bs))\<rparr>), Inr (take n (b # bs)))
      | _ \<Rightarrow> (case st_errorCh s of
                Some e \<Rightarrow> Some (asyncNotify (s\<lparr>st_errorCh := None\<rparr>), Inl e)
              | None \<Rightarrow> None))"

definition into_buffer :: "nat \<Rightarrow> bytes \<Rightarrow> bytes" where
  "into_buffer n b = b @ replicate (n - length b) 0"

definition stream_ReadMsg :: "Stream \<Rightarrow> (Stream \<times> (rlpx_error + bytes \<times> uint16)) option" where
  "stream_ReadMsg =
     bindS (stream_read HeaderSize) (\<lambda>h.
     let header = into_buffer HeaderSize h; n = unat (Header_Length header) in
     bindS (stream_read n) (\<lambda>b. ret (into_buffer n b, Header_MsgType header)))"

section \<open>What the session puts in, the protocol reads\<close>

lemma length_Header_Encode [simp]: "length (Header_Encode t n) = 6"
  by (simp add: Header_Encode_def)

lemma be_value_FillBytes: "v < 256 ^ n \<Longrightarrow> be_value (FillBytes n v) = v"
  using SetBytes_FillBytes [of v n] by (simp add: be_value_def SetBytes_def)

lemma Header_roundtrip:
  "Header_MsgType (Header_Encode t n @ r) = t" "Header_Length (Header_Encode t n @ r) = n"
proof -
  have t: "unat t < 256 ^ 2" and n: "unat n < 256 ^ 4"
    using unsigned_less [of t, where 'a = nat] unsigned_less [of n, where 'a = nat] by simp_all
  show "Header_MsgType (Header_Encode t n @ r) = t"
    using be_value_FillBytes [OF t] by (simp add: Header_MsgType_def Header_Encode_def del: FillBytes.simps)
  show "Header_Length (Header_Encode t n @ r) = n"
    using be_value_FillBytes [OF n] by (simp add: Header_Length_def Header_Encode_def del: FillBytes.simps)
qed

text \<open>The unread bytes of a stream, and those of a message.\<close>

definition unread :: "Stream \<Rightarrow> bytes" where
  "unread s = (case st_recvBuf s of None \<Rightarrow> [] | Some b \<Rightarrow> b)"

definition queued :: "uint16 \<times> bytes \<Rightarrow> bytes" where
  "queued = (\<lambda>(code, buf). Header_Encode code (word_of_nat (length buf)) @ buf)"

lemma stream_read_data:
  assumes "unread s \<noteq> []" and "n \<noteq> 0"
  shows "stream_read n s = Some (s\<lparr>st_recvBuf := Some (drop n (unread s)), st_recvNotifyCh := True\<rparr>, Inr (take n (unread s)))"
  using assms by (cases "st_recvBuf s") (auto simp: stream_read_def unread_def asyncNotify_def neq_Nil_conv)

lemma stream_ReadMsg_queued:
  assumes "unread s = queued (code, buf) @ rest" and "length buf < 2 ^ 32"
  shows "stream_ReadMsg s = Some (s\<lparr>st_recvBuf := Some rest, st_recvNotifyCh := True\<rparr>, Inr (buf, code))"
proof -
  let ?h = "Header_Encode code (word_of_nat (length buf))"
  let ?s1 = "s\<lparr>st_recvBuf := Some (buf @ rest), st_recvNotifyCh := True\<rparr>"
  have u: "unread s = ?h @ buf @ rest" using assms(1) by (simp add: queued_def)
  moreover have "?h \<noteq> []" by (metis length_Header_Encode list.size(3) zero_neq_numeral)
  ultimately have s1: "stream_read 6 s = Some (?s1, Inr ?h)" using stream_read_data [of s 6] by simp
  have h: "into_buffer 6 ?h = ?h" by (simp add: into_buffer_def)
  have n: "unat (Header_Length ?h) = length buf" "Header_MsgType ?h = code"
    using Header_roundtrip [of code "word_of_nat (length buf)" "[]"] assms(2) by (simp_all add: unat_of_nat)
  have "stream_read (length buf) ?s1 = Some (s\<lparr>st_recvBuf := Some rest, st_recvNotifyCh := True\<rparr>, Inr buf)"
    using stream_read_data [of ?s1 "length buf"] by (cases "buf = []") (simp_all add: stream_read_def unread_def)
  then show ?thesis
    using s1 n h by (simp add: stream_ReadMsg_def HeaderSize_def bindS_def into_buffer_def Let_def)
qed

lemma readData_queued:
  "unread (readData code buf s) = unread s @ queued (ucast (code - st_offset s), buf)"
  "st_errorCh (readData code buf s) = st_errorCh s" "st_offset (readData code buf s) = st_offset s"
  by (simp_all add: readData_def asyncNotify_def unread_def queued_def Let_def)

text \<open>A message is never delivered in part, and no data is lost to an error: while there is data, it is read first.\<close>

fun stream_read_all :: "nat \<Rightarrow> Stream \<Rightarrow> (Stream \<times> (rlpx_error + (bytes \<times> uint16) list)) option" where
  "stream_read_all 0 = ret []"
| "stream_read_all (Suc n) = bindS stream_ReadMsg (\<lambda>m. bindS (stream_read_all n) (\<lambda>ms. ret (m # ms)))"

lemma stream_read_all_queued:
  assumes "unread s = concat (map queued msgs) @ rest" and "list_all (\<lambda>(c, b). length b < 2 ^ 32) msgs"
  shows "\<exists>s'. stream_read_all (length msgs) s = Some (s', Inr (map (\<lambda>(c, b). (b, c)) msgs)) \<and> unread s' = rest \<and> st_errorCh s' = st_errorCh s"
  using assms
proof (induction msgs arbitrary: s)
  case (Cons m msgs)
  obtain c b where m: "m = (c, b)" by (cases m)
  let ?s1 = "s\<lparr>st_recvBuf := Some (concat (map queued msgs) @ rest), st_recvNotifyCh := True\<rparr>"
  have "stream_ReadMsg s = Some (?s1, Inr (b, c))"
    using stream_ReadMsg_queued [of s c b] Cons.prems by (simp add: m)
  moreover obtain s' where "stream_read_all (length msgs) ?s1 = Some (s', Inr (map (\<lambda>(c, b). (b, c)) msgs))" "unread s' = rest" "st_errorCh s' = st_errorCh s"
    using Cons.IH [of ?s1] Cons.prems(2) by (auto simp: unread_def)
  ultimately show ?case by (simp add: m bindS_def)
qed simp

fun deliver_all :: "(uint64 \<times> bytes) list \<Rightarrow> Stream \<Rightarrow> Stream" where
  "deliver_all [] s = s"
| "deliver_all ((code, buf) # msgs) s = deliver_all msgs (readData code buf s)"

lemma deliver_all_queued:
  "unread (deliver_all msgs s) = unread s @ concat (map (\<lambda>(code, buf). queued (ucast (code - st_offset s), buf)) msgs)"
  by (induction msgs s rule: deliver_all.induct) (simp_all add: readData_queued)

section \<open>Properties\<close>

text \<open>Property C33. A stream is a queue of messages: what the session put into an empty stream, the protocol reads, all
  messages and in order, with their codes relative to the offset of the stream, even when an error is pending as well.\<close>

theorem stream_fifo:
  assumes "unread s = []" and "list_all (\<lambda>(code, buf). length buf < 2 ^ 32) msgs"
  shows "\<exists>s'. stream_read_all (length msgs) (deliver_all msgs s) =
    Some (s', Inr (map (\<lambda>(code, buf). (buf, ucast (code - st_offset s))) msgs)) \<and> unread s' = []"
proof -
  let ?ms = "map (\<lambda>(code, buf). (ucast (code - st_offset s), buf)) msgs"
  have "unread (deliver_all msgs s) = concat (map queued ?ms) @ []"
    using deliver_all_queued [of msgs s] assms(1) by (simp add: case_prod_unfold o_def)
  moreover have "list_all (\<lambda>(c, b). length b < 2 ^ 32) ?ms" using assms(2) by (simp add: list_all_iff case_prod_unfold)
  ultimately show ?thesis using stream_read_all_queued [of "deliver_all msgs s" ?ms "[]"] by (auto simp: case_prod_unfold o_def)
qed

theorem stream_fifo_witness:
  "\<exists>s'. stream_read_all (Suc (Suc 0)) (deliver_all [(17, [1, 2]), (16, [])] (NewStream 16 8)) = Some (s', Inr [([1, 2], 1), ([], 0)]) \<and> unread s' = []"
  using stream_fifo [of "NewStream 16 8" "[(17, [1, 2]), (16, [])]"] by (simp add: unread_def NewStream_def del: stream_read_all.simps deliver_all.simps)

end
