(* ===== verification/RlpxSession.thy ===== *)
theory RlpxSession
  imports RlpxStream
begin

text \<open>
  The sessions of \<open>rlpx/session.go\<close>, with the protocol handshake of \<open>rlpx/handshake.go\<close> and the constructors of
  \<open>rlpx/rlpx.go\<close>. The connection of a session is \<open>ss_segs\<close>, \<open>ss_sent\<close> and \<open>ss_wok\<close> until the encryption handshake is done, and
  then part of its two halves. The halves, the channel \<open>shutdownCh\<close> and the identities are nil before: \<open>None\<close>.
  \<open>ss_protocols\<close> are the protocols of the \<open>Rlpx\<close> that the session belongs to. Locks are not modelled: the steps
  below run one after the other.
\<close>

section \<open>Definitions\<close>

datatype sessionState = sessionEstablished | sessionClosed

record 'k Session =
  ss_id :: string
  ss_addr :: string
  ss_segs :: "bytes list"
  ss_sent :: "bytes list"
  ss_wok :: "nat \<Rightarrow> bool"
  ss_protocols :: "ProtocolSpec list"
  ss_streams :: "Stream list"
  ss_Info :: Info
  ss_remoteInfo :: "Info option"
  ss_enode :: "Enode option"
  ss_isClient :: bool
  ss_RemoteID :: "point option"
  ss_prv :: 'k
  ss_pub :: "point option"
  ss_shutdown :: bool
  ss_shutdownErr :: "rlpx_error option"
  ss_shutdownCh :: "bool option"
  ss_state :: sessionState
  ss_in :: "halfConn option"
  ss_out :: "halfConn option"

type_synonym ('k, 'a) sess = "('k Session, rlpx_error, 'a) cmd"

text \<open>A connection: what will arrive, whether the writes succeed, and the address of the other end.\<close>

record net_conn =
  nc_segs :: "bytes list"
  nc_wok :: "nat \<Rightarrow> bool"
  nc_addr :: string

definition rlpx_Server :: "ProtocolSpec list \<Rightarrow> net_conn \<Rightarrow> 'k \<Rightarrow> Info \<Rightarrow> 'k Session" where
  "rlpx_Server protocols conn prv info =
     \<lparr>ss_id = [], ss_addr = nc_addr conn, ss_segs = nc_segs conn, ss_sent = [], ss_wok = nc_wok conn, ss_protocols = protocols, ss_streams = [],
      ss_Info = info, ss_remoteInfo = None, ss_enode = None, ss_isClient = False, ss_RemoteID = None, ss_prv = prv, ss_pub = None,
      ss_shutdown = False, ss_shutdownErr = None, ss_shutdownCh = None, ss_state = sessionEstablished, ss_in = None, ss_out = None\<rparr>"

definition rlpx_Client :: "ProtocolSpec list \<Rightarrow> net_conn \<Rightarrow> 'k \<Rightarrow> point \<Rightarrow> Info \<Rightarrow> 'k Session" where
  "rlpx_Client protocols conn prv pub info = rlpx_Server protocols conn prv info \<lparr>ss_pub := Some pub, ss_isClient := True\<rparr>"

subsection \<open>Messages\<close>

definition on_in :: "'a half \<Rightarrow> ('k, 'a) sess" where
  "on_in m s = (case ss_in s of None \<Rightarrow> None
     | Some h \<Rightarrow> (case m h of None \<Rightarrow> None | Some (h', r) \<Rightarrow> Some (s\<lparr>ss_in := Some h'\<rparr>, r)))"

definition on_out :: "'a half \<Rightarrow> ('k, 'a) sess" where
  "on_out m s = (case ss_out s of None \<Rightarrow> None
     | Some h \<Rightarrow> (case m h of None \<Rightarrow> None | Some (h', r) \<Rightarrow> Some (s\<lparr>ss_out := Some h'\<rparr>, r)))"

definition Session_ReadMsg :: "('k, 'v) rlpx_env \<Rightarrow> ('k, uint64 \<times> bytes) sess" where
  "Session_ReadMsg env = on_in (half_read env)"

definition WriteRawMsg :: "('k, 'v) rlpx_env \<Rightarrow> uint64 \<Rightarrow> bytes \<Rightarrow> ('k, unit) sess" where
  "WriteRawMsg env code buf =
     bindS (gets ss_state) (\<lambda>state.
     if state = sessionClosed then fail StreamClosed else on_out (half_write env code buf))"

definition emptyRlp :: bytes where "emptyRlp = [0xC0]"

definition writeCode :: "('k, 'v) rlpx_env \<Rightarrow> uint64 \<Rightarrow> ('k, unit) sess" where
  "writeCode env code = WriteRawMsg env code emptyRlp"

subsection \<open>The end of a session\<close>

text \<open>Closing a channel that is nil or closed already panics. After the connection is closed nothing can be read or
  written any more.\<close>

definition close_shutdownCh :: "('k, unit) sess" where
  "close_shutdownCh s = (if ss_shutdownCh s = Some False then Some (s\<lparr>ss_shutdownCh := Some True\<rparr>, Inr ()) else None)"

definition close_conn :: "'k Session \<Rightarrow> 'k Session" where
  "close_conn s = s\<lparr>ss_in := map_option (\<lambda>h. h\<lparr>hc_in := []\<rparr>) (ss_in s), ss_out := map_option (\<lambda>h. h\<lparr>hc_ok := (\<lambda>_. False)\<rparr>) (ss_out s)\<rparr>"

definition Disconnect :: "('k, 'v) rlpx_env \<Rightarrow> DiscReason \<Rightarrow> ('k, unit) sess" where
  "Disconnect env reason =
     bindS (gets ss_shutdown) (\<lambda>shutdown.
     if shutdown then ret () else
     bindS (modify (\<lambda>s. s\<lparr>ss_shutdown := True, ss_shutdownErr := (if ss_shutdownErr s = None then Some (Disc reason) else ss_shutdownErr s)\<rparr>)) (\<lambda>_.
     bindS (attempt (WriteRawMsg env discMsg [0xc1, ucast reason])) (\<lambda>_ :: rlpx_error + unit.
     bindS (modify (\<lambda>s. s\<lparr>ss_state := sessionClosed\<rparr>)) (\<lambda>_.
     bindS (modify (\<lambda>s. s\<lparr>ss_shutdown := True\<rparr>)) (\<lambda>_.
     bindS close_shutdownCh (\<lambda>_.
     modify close_conn))))))"

definition Session_Close :: "('k, 'v) rlpx_env \<Rightarrow> ('k, unit) sess" where
  "Session_Close env = Disconnect env DiscQuitting"

text \<open>The select on a nil channel never takes its case.\<close>

definition Session_IsClosed :: "'k Session \<Rightarrow> bool" where
  "Session_IsClosed s \<longleftrightarrow> ss_shutdownCh s = Some True"

definition send_error :: "rlpx_error \<Rightarrow> Stream \<Rightarrow> Stream" where
  "send_error err i = (if st_errorCh i = None then i\<lparr>st_errorCh := Some err\<rparr> else i)"

definition exitErr :: "('k, 'v) rlpx_env \<Rightarrow> rlpx_error \<Rightarrow> ('k, unit) sess" where
  "exitErr env err =
     bindS (modify (\<lambda>s. s\<lparr>ss_shutdownErr := (if ss_shutdownErr s = None then Some err else ss_shutdownErr s)\<rparr>)) (\<lambda>_.
     bindS (modify (\<lambda>s. s\<lparr>ss_streams := map (send_error err) (ss_streams s)\<rparr>)) (\<lambda>_.
     Session_Close env))"

subsection \<open>Streams\<close>

definition OpenStream :: "uint64 \<Rightarrow> uint64 \<Rightarrow> ProtocolSpec \<Rightarrow> ('k, unit) sess" where
  "OpenStream offset len spec =
     modify (\<lambda>s. s\<lparr>ss_streams := ss_streams s @ [NewStream offset len \<lparr>st_protocol := spec\<rparr>]\<rparr>)"

definition covers :: "Stream \<Rightarrow> uint64 \<Rightarrow> bool" where
  "covers proto code \<longleftrightarrow> st_offset proto \<le> code \<and> code < st_offset proto + st_length proto"

text \<open>The index of the stream, since the session goes on to change it.\<close>

fun getStream :: "Stream list \<Rightarrow> uint64 \<Rightarrow> nat option" where
  "getStream [] code = None"
| "getStream (proto # streams) code = (if covers proto code then Some 0 else map_option Suc (getStream streams code))"

text \<open>\<open>getStream\<close> is nil where no stream has the code, and \<open>readData\<close> of nil panics.\<close>

definition handleStreamMessage :: "uint64 \<Rightarrow> bytes \<Rightarrow> ('k, unit) sess" where
  "handleStreamMessage code buf =
     bindS (gets (\<lambda>s. getStream (ss_streams s) code)) (\<lambda>i.
     bindS (pureO i) (\<lambda>i.
     modify (\<lambda>s. s\<lparr>ss_streams := (ss_streams s)[i := readData code buf (ss_streams s ! i)]\<rparr>)))"

definition Session_Streams :: "'k Session \<Rightarrow> Stream list" where
  "Session_Streams s = map (\<lambda>i. ss_streams s ! i) [0..<length (ss_streams s)]"

text \<open>\<open>getProtocol\<close> of \<open>rlpx.go\<close>.\<close>

fun getProtocol :: "ProtocolSpec list \<Rightarrow> string \<Rightarrow> uint64 \<Rightarrow> ProtocolSpec option" where
  "getProtocol [] name version = None"
| "getProtocol (proto # ps) name version =
     (if ps_Name proto = name \<and> ps_Version proto = version then Some proto else getProtocol ps name version)"

fun negotiate :: "Cap list \<Rightarrow> uint64 \<Rightarrow> ('k, unit) sess" where
  "negotiate [] offset = ret ()"
| "negotiate (i # caps) offset =
     bindS (gets (\<lambda>s. getProtocol (ss_protocols s) (cap_Name i) (cap_Version i))) (\<lambda>b.
     case b of
       None \<Rightarrow> negotiate caps offset
     | Some spec \<Rightarrow> bindS (OpenStream offset (ps_Length spec) spec) (\<lambda>_. negotiate caps (offset + ps_Length spec)))"

definition negotiateProtocols :: "('k, unit) sess" where
  "negotiateProtocols =
     bindS (gets ss_remoteInfo) (\<lambda>info.
     bindS (pureO info) (\<lambda>info.
     bindS (negotiate (info_Caps info) BaseProtocolLength) (\<lambda>_.
     bindS (gets ss_streams) (\<lambda>streams.
     if streams = [] then fail NoMatchingProtocols else ret ()))))"

subsection \<open>The loops\<close>

text \<open>One round of \<open>recvLoop\<close>: an error is what the loop returns.\<close>

definition recv_once :: "('k, 'v) rlpx_env \<Rightarrow> ('k, unit) sess" where
  "recv_once env =
     bindS (Session_ReadMsg env) (\<lambda>(code, buf).
     if code = pingMsg then writeCode env pongMsg
     else if code = pongMsg then ret ()
     else if code = discMsg then fail (Disc (fst (decodeDiscMsg (rx_F env) buf)))
     else handleStreamMessage code buf)"

text \<open>A round, and \<open>exitErr\<close> at the end of the loop; whether the loop goes on.\<close>

definition recv_step :: "('k, 'v) rlpx_env \<Rightarrow> ('k, bool) sess" where
  "recv_step env =
     bindS (attempt (recv_once env)) (\<lambda>r :: rlpx_error + unit.
     case r of Inl err \<Rightarrow> bindS (exitErr env err) (\<lambda>_. ret False) | Inr _ \<Rightarrow> ret True)"

partial_function (option) recv :: "('k, 'v) rlpx_env \<Rightarrow> 'k Session \<Rightarrow> 'k Session option" where
  "recv env s =
     (case recv_step env s of
        None \<Rightarrow> None
      | Some (s', r) \<Rightarrow> if r = Inr True then recv env s' else Some s')"

text \<open>The cases of the select in \<open>keepalive\<close>, and whether its loop goes on.\<close>

definition keepalive_ping :: "('k, 'v) rlpx_env \<Rightarrow> ('k, bool) sess" where
  "keepalive_ping env =
     bindS (attempt (writeCode env pingMsg)) (\<lambda>r :: rlpx_error + unit.
     case r of Inl err \<Rightarrow> bindS (exitErr env err) (\<lambda>_. ret False) | Inr _ \<Rightarrow> ret True)"

definition keepalive_timeout :: "('k, 'v) rlpx_env \<Rightarrow> ('k, bool) sess" where
  "keepalive_timeout env = bindS (exitErr env (Disc DiscProtocolError)) (\<lambda>_. ret False)"

subsection \<open>The methods of a stream that use its session\<close>

definition Stream_WriteMsg :: "('k, 'v) rlpx_env \<Rightarrow> nat \<Rightarrow> uint64 \<Rightarrow> bytes \<Rightarrow> ('k, unit) sess" where
  "Stream_WriteMsg env i code b =
     bindS (gets (\<lambda>s. ss_streams s ! i)) (\<lambda>st. WriteRawMsg env (code + st_offset st) b)"

definition set_header :: "nat \<Rightarrow> bytes option \<Rightarrow> ('k, unit) sess" where
  "set_header i h = modify (\<lambda>s. s\<lparr>ss_streams := (ss_streams s)[i := (ss_streams s ! i)\<lparr>st_header := h\<rparr>]\<rparr>)"

text \<open>The second part of \<open>Write\<close>, once there is a header: the message it announced.\<close>

definition Stream_Write_body :: "('k, 'v) rlpx_env \<Rightarrow> nat \<Rightarrow> bytes \<Rightarrow> bytes \<Rightarrow> ('k, nat) sess" where
  "Stream_Write_body env i header b =
     bindS (set_header i None) (\<lambda>_.
     if length b \<noteq> unat (Header_Length header) then fail (WrongLength (unat (Header_Length header)) (length b)) else
     bindS (gets (\<lambda>s. ss_streams s ! i)) (\<lambda>st.
     bindS (WriteRawMsg env (ucast (Header_MsgType header) + st_offset st) b) (\<lambda>_. ret (length b))))"

definition Stream_Write :: "('k, 'v) rlpx_env \<Rightarrow> nat \<Rightarrow> bytes \<Rightarrow> ('k, nat) sess" where
  "Stream_Write env i b =
     bindS (gets (\<lambda>s. st_header (ss_streams s ! i))) (\<lambda>h.
     case h of
       Some header \<Rightarrow> Stream_Write_body env i header b
     | None \<Rightarrow>
       if length b \<noteq> HeaderSize then fail ExpectedHeader else
       bindS (set_header i (Some b)) (\<lambda>_.
       if Header_Length b = 0 then Stream_Write_body env i b [] else ret (length b)))"

text \<open>\<open>None\<close> where the stream waits for a message.\<close>

definition Stream_ReadMsg :: "nat \<Rightarrow> ('k, bytes \<times> uint16) sess" where
  "Stream_ReadMsg i s =
     (case stream_ReadMsg (ss_streams s ! i) of
        None \<Rightarrow> None
      | Some (st, r) \<Rightarrow> Some (s\<lparr>ss_streams := (ss_streams s)[i := st]\<rparr>, r))"

subsection \<open>The handshakes\<close>

text \<open>\<open>newHalf\<close> is the half that \<open>p2pHandshake\<close> makes for a direction; its buffers are empty and its arrays zero.\<close>

definition newHalf :: "(bytes \<Rightarrow> bytes) \<Rightarrow> (bytes \<Rightarrow> bytes) \<Rightarrow> bytes \<Rightarrow> bytes list \<Rightarrow> bytes list \<Rightarrow> (nat \<Rightarrow> bool) \<Rightarrow> halfConn" where
  "newHalf macCipher encc mac segs sent wok =
     \<lparr>hc_in = segs, hc_out = sent, hc_ok = wok, hc_snappy = False, hc_buf = [], hc_tmp = [], hc_aes = replicate 16 0, hc_header = replicate 32 0,
      hc_stream = NewCTR encc, hc_block = macCipher, hc_mac = mac\<rparr>"

text \<open>The encryption handshake on the connection of the session. The client's key of the server is never nil.\<close>

definition run_handshake :: "('k, 'v) rlpx_env \<Rightarrow> 'k draws \<Rightarrow> ('k, Secrets) sess" where
  "run_handshake env d s =
     (let r = (if ss_isClient s
               then (case ss_pub s of None \<Rightarrow> None
                     | Some pub \<Rightarrow> handshakeClient env d (ss_prv s) (client_state (ss_prv s) pub (ss_segs s) (ss_wok s)))
               else handshakeServer env d (ss_prv s) (server_state (ss_prv s) (ss_segs s) (ss_wok s)))
      in case r of None \<Rightarrow> None
         | Some (h, q) \<Rightarrow> Some (s\<lparr>ss_segs := hs_in h, ss_sent := hs_out h\<rparr>, q))"

definition p2pHandshake :: "('k, 'v) rlpx_env \<Rightarrow> 'k draws \<Rightarrow> ('k, unit) sess" where
  "p2pHandshake env d =
     bindS (run_handshake env d) (\<lambda>secrets.
     bindS (modify (\<lambda>s. s\<lparr>ss_RemoteID := sec_RemoteID secrets\<rparr>)) (\<lambda>_.
     bindS (pureO (sec_RemoteID secrets)) (\<lambda>remote.
     bindS (modify (\<lambda>s. s\<lparr>ss_id := ID_String (PubkeyToEnode remote), ss_streams := [], ss_shutdownCh := Some False, ss_state := sessionEstablished\<rparr>)) (\<lambda>_.
     bindS (gets (\<lambda>s. ''enode://'' @ ss_id s @ ''@'' @ (if ss_addr s \<noteq> ''pipe'' then ss_addr s else ''127.0.0.1:30303''))) (\<lambda>enodeStr.
     bindS (pureP (map_option (\<lambda>r. case r of Inl e \<Rightarrow> Inl (EnodeErr e) | Inr n \<Rightarrow> Inr n) (ParseURL enodeStr))) (\<lambda>enode.
     bindS (modify (\<lambda>s. s\<lparr>ss_enode := Some enode\<rparr>)) (\<lambda>_.
     bindS (pureR (of_option BadCipherKey (aes_NewCipher (sec_MAC secrets)))) (\<lambda>macCipher.
     bindS (pureR (of_option BadCipherKey (aes_NewCipher (sec_AES secrets)))) (\<lambda>encc.
     bindS (pureO (sec_IngressMAC secrets)) (\<lambda>ingress.
     bindS (pureO (sec_EgressMAC secrets)) (\<lambda>egress.
     modify (\<lambda>s. s\<lparr>ss_in := Some (newHalf macCipher encc ingress (ss_segs s) [] (\<lambda>_. False)),
                    ss_out := Some (newHalf macCipher encc egress [] (ss_sent s) (ss_wok s))\<rparr>))))))))))))"

definition SetSnappy :: "('k, unit) sess" where
  "SetSnappy = modify (\<lambda>s. s\<lparr>ss_in := map_option (\<lambda>h. h\<lparr>hc_snappy := True\<rparr>) (ss_in s), ss_out := map_option (\<lambda>h. h\<lparr>hc_snappy := True\<rparr>) (ss_out s)\<rparr>)"

text \<open>A hello message that cannot be decoded makes the reader panic.\<close>

definition readProtocolHandshake :: "('k, 'v) rlpx_env \<Rightarrow> ('k, Info) sess" where
  "readProtocolHandshake env =
     bindS (Session_ReadMsg env) (\<lambda>(code, buf).
     if baseProtocolMaxMsgSize < length buf then fail MessageTooBig
     else if code = discMsg then
       (case decodeDiscMsg (rx_F env) buf of
          (_, Some e) \<Rightarrow> fail e
        | (msg, None) \<Rightarrow> fail (Disconnected msg))
     else if code \<noteq> handshakeMsg then fail (ExpectedHandshake code)
     else case Info_UnmarshalRLP (rx_F env) buf of
       Inl _ \<Rightarrow> panic
     | Inr info \<Rightarrow>
       if info_ID info = replicate 64 0 then fail (Disc DiscInvalidIdentity) else
       bindS (gets ss_RemoteID) (\<lambda>remote.
       bindS (pureO remote) (\<lambda>remote.
       if PubkeyToEnode remote \<noteq> info_ID info then fail NodeIDMismatch else ret info)))"

text \<open>
  The two goroutines of \<open>doProtocolHandshake\<close> write and read on different halves. \<open>readFirst\<close> says whose result arrives first,
  and \<open>arrived\<close> how many of the two arrive before the timeout.
\<close>

definition doProtocolHandshake :: "('k, 'v) rlpx_env \<Rightarrow> bool \<Rightarrow> nat \<Rightarrow> Info \<Rightarrow> ('k, Info) sess" where
  "doProtocolHandshake env readFirst arrived nodeInfo =
     bindS (attempt (WriteRawMsg env handshakeMsg (Info_MarshalRLP (rx_F env) nodeInfo []))) (\<lambda>w :: rlpx_error + unit.
     bindS (attempt (readProtocolHandshake env)) (\<lambda>r :: rlpx_error + Info.
     let errr = (case w of Inl e \<Rightarrow> Some e | Inr _ \<Rightarrow> None);
         errr' = (case r of Inl e \<Rightarrow> Some e | Inr _ \<Rightarrow> None);
         errs = (if readFirst then [errr', errr] else [errr, errr']) in
     if arrived < 1 then fail HandshakeTimeout
     else case errs ! 0 of Some e \<Rightarrow> fail e
     | None \<Rightarrow> if arrived < 2 then fail HandshakeTimeout
     else case errs ! 1 of Some e \<Rightarrow> fail e
     | None \<Rightarrow>
       bindS (pureR r) (\<lambda>peerInfo.
       bindS (if snappyProtocolVersion \<le> info_Version peerInfo then SetSnappy else ret ()) (\<lambda>_. ret peerInfo))))"

definition Handshake :: "('k, 'v) rlpx_env \<Rightarrow> 'k draws \<Rightarrow> bool \<Rightarrow> nat \<Rightarrow> ('k, unit) sess" where
  "Handshake env d readFirst arrived =
     bindS (p2pHandshake env d) (\<lambda>_.
     bindS (gets ss_Info) (\<lambda>info.
     bindS (doProtocolHandshake env readFirst arrived info) (\<lambda>info.
     modify (\<lambda>s. s\<lparr>ss_remoteInfo := Some info\<rparr>))))"

subsection \<open>Opening a session\<close>

text \<open>The information of \<open>server.go\<close>, with the protocols of the capabilities.\<close>

record network_info =
  ni_Client :: string
  ni_Enode :: Enode
  ni_Capabilities :: "ProtocolSpec list"

definition networkInfoToLocalInfo :: "network_info \<Rightarrow> Info" where
  "networkInfoToLocalInfo info =
     \<lparr>info_Version = BaseProtocolVersion, info_Name = ni_Client info,
      info_Caps = map (\<lambda>p. \<lparr>cap_Name = ps_Name p, cap_Version = ps_Version p\<rparr>) (ni_Capabilities info),
      info_ListenPort = ucast (en_TCP (ni_Enode info)), info_ID = en_ID (ni_Enode info)\<rparr>"

definition GetInfo :: "'k Session \<Rightarrow> network_info option" where
  "GetInfo s =
     (case ss_remoteInfo s of None \<Rightarrow> None
      | Some i \<Rightarrow> (case ss_enode s of None \<Rightarrow> None
                   | Some e \<Rightarrow> Some \<lparr>ni_Client = info_Name i, ni_Enode = e, ni_Capabilities = []\<rparr>))"

definition rlpx_accept :: "('k, 'v) rlpx_env \<Rightarrow> 'k draws \<Rightarrow> bool \<Rightarrow> nat \<Rightarrow> 'k \<Rightarrow> ProtocolSpec list \<Rightarrow> network_info \<Rightarrow> net_conn \<Rightarrow>
    (rlpx_error + 'k Session) option" where
  "rlpx_accept env d readFirst arrived priv backends info rawConn =
     (case bindS (Handshake env d readFirst arrived) (\<lambda>_. negotiateProtocols)
             (rlpx_Server backends rawConn priv (networkInfoToLocalInfo info)) of
        None \<Rightarrow> None
      | Some (s, Inl e) \<Rightarrow> Some (Inl e)
      | Some (s, Inr _) \<Rightarrow> Some (Inr s))"

definition rlpx_connect :: "('k, 'v) rlpx_env \<Rightarrow> 'k draws \<Rightarrow> bool \<Rightarrow> nat \<Rightarrow> 'k \<Rightarrow> ProtocolSpec list \<Rightarrow> network_info \<Rightarrow> net_conn \<Rightarrow> Enode \<Rightarrow>
    (rlpx_error + 'k Session) option" where
  "rlpx_connect env d readFirst arrived priv backends info rawConn enode =
     (case Enode_PublicKey (rx_C env) enode of
        Inl e \<Rightarrow> Some (Inl (EnodeErr e))
      | Inr pub \<Rightarrow>
        (case bindS (Handshake env d readFirst arrived) (\<lambda>_. negotiateProtocols)
                (rlpx_Client backends rawConn priv pub (networkInfoToLocalInfo info)) of
           None \<Rightarrow> None
         | Some (s, Inl e) \<Rightarrow> Some (Inl e)
         | Some (s, Inr _) \<Rightarrow> Some (Inr s)))"

end
