(* ===== verification/RlpxProps.thy ===== *)
theory RlpxProps
  imports RlpxSession
begin

text \<open>
  What holds of sessions: the streams that the negotiation opens, the end of a session, the link that the handshake makes
  between two sessions, and the way of a message from a stream of one to a stream of the other.
\<close>

section \<open>Negotiation\<close>

text \<open>The streams that the negotiation opens, from an offset on.\<close>

fun layout :: "ProtocolSpec list \<Rightarrow> Cap list \<Rightarrow> uint64 \<Rightarrow> Stream list" where
  "layout ps [] off = []"
| "layout ps (c # caps) off =
     (case getProtocol ps (cap_Name c) (cap_Version c) of
        None \<Rightarrow> layout ps caps off
      | Some spec \<Rightarrow> NewStream off (ps_Length spec) \<lparr>st_protocol := spec\<rparr> # layout ps caps (off + ps_Length spec))"

text \<open>The number of message codes of the matching protocols.\<close>

definition total_length :: "ProtocolSpec list \<Rightarrow> Cap list \<Rightarrow> nat" where
  "total_length ps caps = sum_list (map (\<lambda>c. case getProtocol ps (cap_Name c) (cap_Version c) of None \<Rightarrow> 0 | Some spec \<Rightarrow> unat (ps_Length spec)) caps)"

lemma total_length_simps [simp]:
  "total_length ps [] = 0"
  "total_length ps (c # caps) = (case getProtocol ps (cap_Name c) (cap_Version c) of None \<Rightarrow> 0 | Some spec \<Rightarrow> unat (ps_Length spec)) + total_length ps caps"
  by (simp_all add: total_length_def)

lemma negotiate_layout:
  "negotiate caps off s = Some (s\<lparr>ss_streams := ss_streams s @ layout (ss_protocols s) caps off\<rparr>, Inr ())"
  by (induction caps arbitrary: off s) (auto simp: OpenStream_def split: option.split)

lemma unat_plus_small: "unat (a :: uint64) + unat b < 2 ^ 64 \<Longrightarrow> unat (a + b) = unat a + unat b"
  by (simp add: unat_word_ariths)

lemma covers_NewStream:
  assumes "unat off + unat len < 2 ^ 64"
  shows "covers (NewStream off len \<lparr>st_protocol := spec\<rparr>) code \<longleftrightarrow> unat off \<le> unat code \<and> unat code < unat off + unat len"
  using unat_plus_small [OF assms] by (simp add: covers_def NewStream_def word_le_nat_alt word_less_nat_alt)

lemma getStream_layout:
  assumes "unat off + total_length ps caps < 2 ^ 64"
  shows "getStream (layout ps caps off) code = None \<longleftrightarrow> \<not> (unat off \<le> unat code \<and> unat code < unat off + total_length ps caps)"
  using assms
proof (induction caps arbitrary: off)
  case (Cons c caps)
  show ?case
  proof (cases "getProtocol ps (cap_Name c) (cap_Version c)")
    case (Some spec)
    then have len: "unat off + unat (ps_Length spec) < 2 ^ 64" using Cons.prems by simp
    note off = unat_plus_small [OF len]
    have "unat (off + ps_Length spec) + total_length ps caps < 2 ^ 64" using Cons.prems Some off by simp
    from Cons.IH [OF this] show ?thesis using Some covers_NewStream [OF len] off by auto
  qed (use Cons in simp)
qed simp

lemma getStream_sound: "getStream xs code = Some i \<Longrightarrow> i < length xs \<and> covers (xs ! i) code"
  by (induction xs arbitrary: i) (auto split: if_splits)

lemma getStream_first: "covers (xs ! k) code \<Longrightarrow> k < length xs \<Longrightarrow> getStream xs code \<noteq> None"
  by (induction xs arbitrary: k) (auto simp: nth_Cons split: nat.splits)

lemma layout_unique:
  assumes "unat off + total_length ps caps < 2 ^ 64" and "i < length (layout ps caps off)" and "j < length (layout ps caps off)"
    and "covers (layout ps caps off ! i) code" and "covers (layout ps caps off ! j) code"
  shows "i = j"
  using assms
proof (induction caps arbitrary: off i j)
  case (Cons c caps)
  show ?case
  proof (cases "getProtocol ps (cap_Name c) (cap_Version c)")
    case (Some spec)
    then have len: "unat off + unat (ps_Length spec) < 2 ^ 64" using Cons.prems by simp
    note off = unat_plus_small [OF len]
    let ?off = "off + ps_Length spec"
    have rest: "unat ?off + total_length ps caps < 2 ^ 64" using Cons.prems(1) Some off by simp
    have low: "\<not> covers (layout ps caps ?off ! k) code"
      if "k < length (layout ps caps ?off)" "unat code < unat ?off" for k
    proof -
      have "getStream (layout ps caps ?off) code = None" using getStream_layout [OF rest] that(2) by simp
      then show ?thesis using that(1) getStream_first by blast
    qed
    show ?thesis
      using Cons.prems(2-5) Some covers_NewStream [OF len] low off Cons.IH [OF rest]
      by (cases i; cases j) auto
  qed (use Cons in simp)
qed simp

section \<open>The end of a session\<close>

text \<open>Well-formed halves: the header buffer has its 32 bytes. \<open>closed\<close> says that the connection is closed.\<close>

definition in_ok :: "bool \<Rightarrow> halfConn \<Rightarrow> bool" where
  "in_ok closed h \<longleftrightarrow> length (hc_header h) = 32 \<and> (closed \<longrightarrow> hc_in h = [])"

definition out_ok :: "bool \<Rightarrow> halfConn \<Rightarrow> bool" where
  "out_ok closed h \<longleftrightarrow> length (hc_header h) = 32 \<and> (closed \<longrightarrow> hc_ok h = (\<lambda>_. False))"

lemma ReadFull_segs_bounds: "ReadFull_segs n segs = (bs, r, ok) \<Longrightarrow> length bs \<le> n \<and> (segs = [] \<longrightarrow> r = [])"
  by (induction n segs arbitrary: bs r ok rule: ReadFull_segs.induct) (fastforce simp: Let_def split: if_splits prod.splits)+

lemma keeps_ReadFull:
  assumes "\<And>bs s. length bs \<le> n \<Longrightarrow> in_ok closed s \<Longrightarrow> in_ok closed (put bs s)"
  shows "keeps (in_ok closed) (ReadFull n put) (inv_post (in_ok closed))"
proof (rule keepsI)
  fix s s' r assume ok: "in_ok closed s" and "ReadFull n put s = Some (s', r)"
  moreover obtain bs segs q where q: "ReadFull_segs n (hc_in s) = (bs, segs, q)" by (cases "ReadFull_segs n (hc_in s)")
  moreover have "in_ok closed (s\<lparr>hc_in := segs\<rparr>)" using ok ReadFull_segs_bounds [OF q] by (auto simp: in_ok_def)
  ultimately show "in_ok closed s'" using assms ReadFull_segs_bounds [OF q] by (auto simp: ReadFull_def)
qed

lemma keeps_macs:
  "keeps (in_ok closed) (updateMac env) (inv_post (in_ok closed))" "keeps (in_ok closed) (updateMacWithHeader env) (inv_post (in_ok closed))"
  "keeps (out_ok closed) (updateMac env) (inv_post (out_ok closed))" "keeps (out_ok closed) (updateMacWithHeader env) (inv_post (out_ok closed))"
  by (auto simp: keeps_def updateMac_def updateMacWithHeader_def updateMacImpl_def Let_def in_ok_def out_ok_def)

lemma keeps_read_content: "keeps (in_ok closed) (read_content env code content) (inv_post (in_ok closed))"
  unfolding read_content_def by (intro keeps_rules) (simp_all add: in_ok_def)

lemma keeps_case_prod: "(\<And>a b. keeps P (f a b) Q) \<Longrightarrow> keeps P (case x of (a, b) \<Rightarrow> f a b) Q"
  by (cases x) simp

lemma keeps_read_body: "keeps (in_ok closed) (read_body env sz) (inv_post (in_ok closed))"
  unfolding read_body_def
  by (intro keeps_rules keeps_case_prod keeps_ReadFull keeps_macs keeps_read_content) (simp_all add: in_ok_def)

lemma keeps_half_read: "keeps (in_ok closed) (half_read env) (inv_post (in_ok closed))"
proof -
  have hdr: "keeps (in_ok closed) (ReadFull 32 (\<lambda>bs s. s\<lparr>hc_header := bs @ drop (length bs) (hc_header s)\<rparr>)) (inv_post (in_ok closed))"
    by (rule keeps_ReadFull) (simp add: in_ok_def)
  have rest: "keeps (\<lambda>s. in_ok closed s \<and> hc_header s = header) (case XORKeyStream st (take 16 header) of (h, st) \<Rightarrow>
      bindS (modify (\<lambda>s. s\<lparr>hc_header := h @ drop 16 header, hc_stream := st\<rparr>)) (\<lambda>_. read_body env (frame_size h))) (inv_post (in_ok closed))" for header st
  proof (rule keepsI)
    fix s s' r assume s: "in_ok closed s \<and> hc_header s = header"
      and run: "(case XORKeyStream st (take 16 header) of (h, st) \<Rightarrow>
      bindS (modify (\<lambda>s. s\<lparr>hc_header := h @ drop 16 header, hc_stream := st\<rparr>)) (\<lambda>_. read_body env (frame_size h))) s = Some (s', r)"
    obtain h st' where x: "XORKeyStream st (take 16 header) = (h, st')" by (cases "XORKeyStream st (take 16 header)")
    then have "length h = 16" using length_XORKeyStream [of st "take 16 header"] s by (auto simp: in_ok_def)
    then have "in_ok closed (s\<lparr>hc_header := h @ drop 16 header, hc_stream := st'\<rparr>)" using s by (auto simp: in_ok_def)
    with run x show "in_ok closed s'" using keepsD [OF keeps_read_body] by auto
  qed
  show ?thesis
    unfolding half_read_def
    by (rule keeps_inv_bindS [OF hdr], rule keeps_inv_bindS [OF keeps_macs(2)], rule keepsI)
      (auto split: if_splits dest: keepsD [OF rest, rotated])
qed

text \<open>A write returns, with or without an error.\<close>

lemma total_conn_Write: "total (out_ok closed) (conn_Write b) (inv_post (out_ok closed))"
  by (simp add: total_def conn_Write_def out_ok_def)

lemma total_writeData: "total (out_ok closed) (writeData b) (inv_post (out_ok closed))"
proof (rule totalI)
  fix s assume "out_ok closed s"
  then show "\<exists>s' r. writeData b s = Some (s', r) \<and> out_ok closed s'"
    by (cases "XORKeyStream (hc_stream s) b") (auto simp: writeData_def bindS_def conn_Write_def out_ok_def)
qed

lemma total_macs:
  "total (out_ok closed) (updateMac env) (inv_post (out_ok closed))" "total (out_ok closed) (updateMacWithHeader env) (inv_post (out_ok closed))"
  by (simp_all add: total_def updateMac_def updateMacWithHeader_def updateMacImpl_def Let_def out_ok_def)

lemma total_case_prod: "(\<And>a b. total P (f a b) Q) \<Longrightarrow> total P (case x of (a, b) \<Rightarrow> f a b) Q"
  by (cases x) simp

text \<open>A size that the compression can handle.\<close>

definition encodable :: "('k, 'v) rlpx_env \<Rightarrow> bytes \<Rightarrow> bool" where
  "encodable env buf \<longleftrightarrow> 0 \<le> sn_MaxEncodedLen (rx_snappy env) (length buf)"

lemma total_write_payload: "encodable env buf \<Longrightarrow> total (out_ok closed) (write_payload env buf) (inv_post (out_ok closed))"
  by (auto simp: total_def write_payload_def extendByteSlice_def out_ok_def Let_def encodable_def)

lemma half_write_rest:
  obtains rest where "half_write env code buf = bindS (write_payload env buf) rest"
    "\<And>closed payload. total (out_ok closed) (rest payload) (inv_post (out_ok closed))"
proof -
  have tail: "total (out_ok closed) (bindS (conn_Write h) (\<lambda>_. bindS (updateMacWithHeader env) (\<lambda>mac. bindS (conn_Write mac) (\<lambda>_.
     bindS (writeData p) (\<lambda>_. bindS (modify (\<lambda>s. s\<lparr>hc_buf := fst (XORKeyStream (hc_stream s) q)\<rparr>)) (\<lambda>_. bindS (writeData q) (\<lambda>_.
     bindS (if 0 < n mod 16 then writeData (replicate (16 - n mod 16) 0) else ret ()) (\<lambda>_.
     bindS (updateMac env) (\<lambda>mac. conn_Write mac)))))))) ) (inv_post (out_ok closed))" for closed h p q n
    by (intro total_rules total_conn_Write total_writeData total_macs) (simp add: out_ok_def)
  have head: "total (out_ok closed) (bindS (gets (\<lambda>s. XORKeyStream (hc_stream s) (take 16 (hc_header s)))) (\<lambda>(h, st).
     bindS (modify (\<lambda>s. s\<lparr>hc_header := h @ drop 16 (hc_header s), hc_stream := st\<rparr>)) (\<lambda>_. f h)))  (inv_post (out_ok closed))"
    if "\<And>h. total (out_ok closed) (f h) (inv_post (out_ok closed))" for closed and f :: "bytes \<Rightarrow> unit half"
  proof (rule totalI)
    fix s assume s: "out_ok closed s"
    obtain h st where x: "XORKeyStream (hc_stream s) (take 16 (hc_header s)) = (h, st)"
      by (cases "XORKeyStream (hc_stream s) (take 16 (hc_header s))")
    then have "length h = 16" using length_XORKeyStream [of "hc_stream s" "take 16 (hc_header s)"] s by (auto simp: out_ok_def)
    then have "out_ok closed (s\<lparr>hc_header := h @ drop 16 (hc_header s), hc_stream := st\<rparr>)" using s by (simp add: out_ok_def)
    from totalD [OF that this] show "\<exists>s' r. bindS (gets (\<lambda>s. XORKeyStream (hc_stream s) (take 16 (hc_header s)))) (\<lambda>(h, st).
     bindS (modify (\<lambda>s. s\<lparr>hc_header := h @ drop 16 (hc_header s), hc_stream := st\<rparr>)) (\<lambda>_. f h)) s = Some (s', r) \<and> out_ok closed s'"
      using x by auto
  qed
  show ?thesis
    by (rule that, unfold half_write_def Let_def, rule refl, rule total_if, rule total_simple, rule total_inv_bindS)
      (rule total_modify, simp add: out_ok_def, rule head, rule tail)
qed

lemma total_half_write:
  assumes "encodable env buf"
  shows "total (out_ok closed) (half_write env code buf) (inv_post (out_ok closed))"
proof -
  obtain rest where rest: "half_write env code buf = bindS (write_payload env buf) rest"
    "\<And>closed payload. total (out_ok closed) (rest payload) (inv_post (out_ok closed))" by (rule half_write_rest) blast
  show ?thesis unfolding rest(1) by (rule total_inv_bindS [OF total_write_payload [OF assms] rest(2)])
qed

lemma keeps_half_write: "keeps (out_ok closed) (half_write env code buf) (inv_post (out_ok closed))"
proof -
  have pay: "keeps (out_ok closed) (write_payload env buf) (inv_post (out_ok closed))"
    unfolding write_payload_def Let_def by (intro keeps_rules) (simp add: out_ok_def)
  obtain rest where rest: "half_write env code buf = bindS (write_payload env buf) rest"
    "\<And>closed payload. total (out_ok closed) (rest payload) (inv_post (out_ok closed))" by (rule half_write_rest) blast
  show ?thesis unfolding rest(1) by (rule keeps_inv_bindS [OF pay total_keeps [OF rest(2)]])
qed

subsection \<open>The invariant of a session\<close>

text \<open>
  After the encryption handshake: both halves are there and well formed, the shutdown channel is closed exactly when the
  session is shut down, which is when its state is closed, and then it has a reason and a dead connection.
\<close>

definition session_ok :: "'k Session \<Rightarrow> bool" where
  "session_ok s \<longleftrightarrow> (\<exists>hi ho. ss_in s = Some hi \<and> ss_out s = Some ho \<and> in_ok (ss_shutdown s) hi \<and> out_ok (ss_shutdown s) ho) \<and>
     ss_shutdownCh s = Some (ss_shutdown s) \<and> (ss_state s = sessionClosed \<longleftrightarrow> ss_shutdown s) \<and> (ss_shutdown s \<longrightarrow> ss_shutdownErr s \<noteq> None)"

text \<open>What no operation after the handshake changes: the number of streams and their ranges, and who the peer is.\<close>

definition ranges :: "'k Session \<Rightarrow> (uint64 \<times> uint64) list" where
  "ranges s = map (\<lambda>st. (st_offset st, st_length st)) (ss_streams s)"

definition same_ranges :: "'k Session \<Rightarrow> 'k Session \<Rightarrow> bool" where
  "same_ranges s s' \<longleftrightarrow> ranges s' = ranges s \<and> (ss_shutdown s \<longrightarrow> ss_shutdown s') \<and> ss_enode s' = ss_enode s \<and>
     (ss_remoteInfo s \<noteq> None \<longrightarrow> ss_remoteInfo s' \<noteq> None)"

lemma same_ranges_refl [simp]: "same_ranges s s" by (simp add: same_ranges_def)

lemma same_ranges_trans: "same_ranges s t \<Longrightarrow> same_ranges t u \<Longrightarrow> same_ranges s u"
  by (simp add: same_ranges_def)

text \<open>The commands that keep the invariant, and those that return as well.\<close>

definition kept :: "('k, 'a) sess \<Rightarrow> bool" where
  "kept m \<longleftrightarrow> (\<forall>s s' r. session_ok s \<longrightarrow> m s = Some (s', r) \<longrightarrow> session_ok s' \<and> same_ranges s s')"

definition returns :: "('k, 'a) sess \<Rightarrow> bool" where
  "returns m \<longleftrightarrow> (\<forall>s. session_ok s \<longrightarrow> (\<exists>s' r. m s = Some (s', r) \<and> session_ok s' \<and> same_ranges s s'))"

lemma returns_kept: "returns m \<Longrightarrow> kept m"
  by (fastforce simp: returns_def kept_def)

lemma keptD: "kept m \<Longrightarrow> session_ok s \<Longrightarrow> m s = Some (s', r) \<Longrightarrow> session_ok s' \<and> same_ranges s s'"
  by (auto simp: kept_def)

lemma returnsE:
  assumes "returns m" and "session_ok s" obtains s' r where "m s = Some (s', r)" "session_ok s'" "same_ranges s s'"
  using assms by (auto simp: returns_def)

lemma kept_bindS:
  assumes "kept m" and "\<And>a. kept (f a)" shows "kept (bindS m f)"
  unfolding kept_def
proof (intro allI impI)
  fix s s' r assume s: "session_ok s" and run: "bindS m f s = Some (s', r)"
  from run show "session_ok s' \<and> same_ranges s s'"
  proof (cases rule: bindS_Some_cases)
    case (error e)
    then show ?thesis using keptD [OF assms(1) s] by simp
  next
    case (result a t)
    then show ?thesis using keptD [OF assms(1) s result(1)] keptD [OF assms(2)] same_ranges_trans by blast
  qed
qed

lemma kept_attempt: "kept m \<Longrightarrow> kept (attempt m)"
  by (fastforce simp: kept_def attempt_def split: option.splits)

lemma kept_simple: "kept (ret a)" "kept (fail e)" "kept panic" "kept (gets g)" "kept (pureO x)" "kept (pureR y)" "kept (pureP z)"
  by (auto simp: kept_def pureO_def pureP_def split: option.splits)

lemma kept_if: "kept m \<Longrightarrow> kept n \<Longrightarrow> kept (if c then m else n)"
  by simp

lemma returns_bindS:
  fixes m :: "('k, 'a) sess"
  assumes "returns m" and "\<And>a. returns (f a)" shows "returns (bindS m f)"
  unfolding returns_def
proof (intro allI impI)
  fix s :: "'k Session" assume "session_ok s"
  with assms(1) obtain t r where t: "m s = Some (t, r)" "session_ok t" "same_ranges s t" by (rule returnsE)
  show "\<exists>s' r. bindS m f s = Some (s', r) \<and> session_ok s' \<and> same_ranges s s'"
  proof (cases r)
    case (Inr a)
    from assms(2) t(2) obtain u q where "f a t = Some (u, q)" "session_ok u" "same_ranges t u" by (rule returnsE)
    then show ?thesis using t Inr same_ranges_trans [OF t(3)] by (simp add: bindS_def)
  qed (use t in \<open>simp add: bindS_def\<close>)
qed

lemma returns_simple: "returns (ret a)" "returns (fail e)" "returns (gets g)" "returns (pureR y)"
  by (auto simp: returns_def)

lemma returns_attempt: "returns m \<Longrightarrow> returns (attempt m)"
  by (fastforce simp: returns_def attempt_def)

lemma returns_on_out:
  fixes m :: "'a half"
  assumes "\<And>closed. total (out_ok closed) m (inv_post (out_ok closed))"
  shows "returns (on_out m :: ('k, 'a) sess)"
  unfolding returns_def
proof (intro allI impI)
  fix s :: "'k Session" assume s: "session_ok s"
  then obtain ho where ho: "ss_out s = Some ho" "out_ok (ss_shutdown s) ho" by (auto simp: session_ok_def)
  from totalD [OF assms ho(2)] obtain h' r where "m ho = Some (h', r)" "out_ok (ss_shutdown s) h'" by auto
  then show "\<exists>s' r. on_out m s = Some (s', r) \<and> session_ok s' \<and> same_ranges s s'"
    using s ho by (simp add: on_out_def session_ok_def same_ranges_def ranges_def)
qed

lemma kept_on_in:
  fixes m :: "'a half"
  assumes "\<And>closed. keeps (in_ok closed) m (inv_post (in_ok closed))"
  shows "kept (on_in m :: ('k, 'a) sess)"
  unfolding kept_def
proof (intro allI impI)
  fix s s' :: "'k Session" and r assume s: "session_ok s" and run: "on_in m s = Some (s', r)"
  then obtain hi h' where "ss_in s = Some hi" "in_ok (ss_shutdown s) hi" "m hi = Some (h', r)" "s' = s\<lparr>ss_in := Some h'\<rparr>"
    by (auto simp: session_ok_def on_in_def split: option.splits)
  moreover from this have "in_ok (ss_shutdown s) h'" using keepsD [OF assms] by blast
  ultimately show "session_ok s' \<and> same_ranges s s'" using s by (simp add: session_ok_def same_ranges_def ranges_def)
qed

lemma map_update_same:
  assumes "f y = f (xs ! i)" shows "map f (xs[i := y]) = map f xs"
proof (cases "i < length xs")
  case True
  then have "map f (xs[i := y]) = (map f xs)[i := map f xs ! i]" using assms by (simp add: map_update)
  then show ?thesis by (simp only: list_update_id)
qed (simp add: list_update_beyond)

context rlpx_laws
begin

lemma encodable: "length buf \<le> maxUint24 \<Longrightarrow> encodable env buf"
  by (simp add: encodable_def sn_MaxEncodedLen_nonneg)

lemma returns_WriteRawMsg:
  assumes "length buf \<le> maxUint24"
  shows "returns (WriteRawMsg env code buf)"
proof -
  have "returns (on_out (half_write env code buf) :: ('k, unit) sess)"
    by (rule returns_on_out) (rule total_half_write [OF encodable [OF assms]])
  then show ?thesis
    unfolding WriteRawMsg_def by (intro returns_bindS returns_simple) (simp add: returns_simple)
qed

lemma returns_writeCode: "returns (writeCode env code)"
  unfolding writeCode_def by (rule returns_WriteRawMsg) (simp add: emptyRlp_def maxUint24_def)

text \<open>Once a session is shut down, \<open>Disconnect\<close> does nothing; before, it closes everything and does not panic.\<close>

lemma Disconnect_closed: "ss_shutdown s \<Longrightarrow> Disconnect env reason s = Some (s, Inr ())"
  by (simp add: Disconnect_def)

lemma Disconnect_open:
  assumes s: "session_ok s" and "\<not> ss_shutdown s"
  shows "\<exists>s'. Disconnect env reason s = Some (s', Inr ()) \<and> session_ok s' \<and> ss_shutdown s' \<and> same_ranges s s' \<and>
    ss_shutdownErr s' = (if ss_shutdownErr s = None then Some (Disc reason) else ss_shutdownErr s)"
proof -
  obtain hi ho where h: "ss_in s = Some hi" "ss_out s = Some ho" "in_ok False hi" "out_ok False ho" "ss_shutdownCh s = Some False" "ss_state s \<noteq> sessionClosed"
    using assms by (auto simp: session_ok_def)
  let ?e = "if ss_shutdownErr s = None then Some (Disc reason) else ss_shutdownErr s"
  let ?s1 = "s\<lparr>ss_shutdown := True, ss_shutdownErr := ?e\<rparr>"
  have "encodable env [0xc1, ucast reason]" by (rule encodable) (simp add: maxUint24_def)
  then obtain h' r where w: "half_write env discMsg [0xc1, ucast reason] ho = Some (h', r)" "out_ok False h'"
    using totalD [OF total_half_write h(4), of env "[0xc1, ucast reason]" discMsg] by auto
  have "WriteRawMsg env discMsg [0xc1, ucast reason] ?s1 = Some (?s1\<lparr>ss_out := Some h'\<rparr>, r)"
    using h w by (simp add: WriteRawMsg_def on_out_def)
  then have "Disconnect env reason s = Some (close_conn (?s1\<lparr>ss_out := Some h', ss_state := sessionClosed, ss_shutdownCh := Some True\<rparr>), Inr ())"
    using assms(2) h(5) by (simp add: Disconnect_def bindS_def attempt_def close_shutdownCh_def, cases s, simp)
  moreover have "session_ok (close_conn (?s1\<lparr>ss_out := Some h', ss_state := sessionClosed, ss_shutdownCh := Some True\<rparr>))"
    using h w by (simp add: session_ok_def close_conn_def in_ok_def out_ok_def)
  ultimately show ?thesis by (simp add: close_conn_def ranges_def same_ranges_def)
qed

lemma returns_Disconnect: "returns (Disconnect env reason)"
  unfolding returns_def
proof (intro allI impI)
  fix s :: "'k Session" assume "session_ok s"
  then show "\<exists>s' r. Disconnect env reason s = Some (s', r) \<and> session_ok s' \<and> same_ranges s s'"
    using Disconnect_open [of s reason] Disconnect_closed [of s reason] by (cases "ss_shutdown s") (auto simp: same_ranges_def)
qed

lemma returns_exitErr: "returns (exitErr env err)"
proof -
  have "returns (modify (\<lambda>s. s\<lparr>ss_shutdownErr := (if ss_shutdownErr s = None then Some err else ss_shutdownErr s)\<rparr>) :: ('k, unit) sess)"
    by (auto simp: returns_def session_ok_def same_ranges_def ranges_def)
  moreover have "returns (modify (\<lambda>s. s\<lparr>ss_streams := map (send_error err) (ss_streams s)\<rparr>) :: ('k, unit) sess)"
    by (simp add: returns_def session_ok_def same_ranges_def ranges_def send_error_def o_def if_distrib cong: if_cong)
  ultimately show ?thesis
    unfolding exitErr_def Session_Close_def by (intro returns_bindS returns_Disconnect)
qed

lemma kept_handleStreamMessage: "kept (handleStreamMessage code buf :: ('k, unit) sess)"
proof -
  have "ranges (s\<lparr>ss_streams := (ss_streams s)[i := readData code buf (ss_streams s ! i)]\<rparr>) = ranges s" for s :: "'k Session" and i
    by (simp add: ranges_def map_update_same readData_def asyncNotify_def Let_def)
  then have "kept (modify (\<lambda>s. s\<lparr>ss_streams := (ss_streams s)[i := readData code buf (ss_streams s ! i)]\<rparr>) :: ('k, unit) sess)" for i
    by (simp add: kept_def session_ok_def same_ranges_def)
  then show ?thesis unfolding handleStreamMessage_def by (intro kept_bindS kept_simple)
qed

lemma kept_recv_step: "kept (recv_step env)"
proof -
  have read: "kept (Session_ReadMsg env)" unfolding Session_ReadMsg_def by (rule kept_on_in) (rule keeps_half_read)
  have "kept (recv_once env)"
    unfolding recv_once_def using returns_kept [OF returns_writeCode] kept_handleStreamMessage
    by (intro kept_bindS read) (auto simp: kept_simple split: prod.splits)
  moreover have "kept (case r of Inl err \<Rightarrow> bindS (exitErr env err) (\<lambda>_. ret False) | Inr _ \<Rightarrow> ret True)" for r :: "rlpx_error + unit"
    using returns_kept [OF returns_exitErr] by (cases r) (auto intro!: kept_bindS kept_simple)
  ultimately show ?thesis unfolding recv_step_def by (intro kept_bindS kept_attempt)
qed

lemma returns_keepalive: "returns (keepalive_ping env)" "returns (keepalive_timeout env)"
proof -
  have "returns (case r of Inl err \<Rightarrow> bindS (exitErr env err) (\<lambda>_. ret False) | Inr _ \<Rightarrow> ret True)" for r :: "rlpx_error + unit"
    by (cases r) (auto intro!: returns_bindS returns_simple returns_exitErr)
  then show "returns (keepalive_ping env)"
    unfolding keepalive_ping_def by (intro returns_bindS returns_attempt returns_writeCode)
  show "returns (keepalive_timeout env)"
    unfolding keepalive_timeout_def by (intro returns_bindS returns_simple returns_exitErr)
qed

end

lemma kept_on_out:
  fixes m :: "'a half"
  assumes "\<And>closed. keeps (out_ok closed) m (inv_post (out_ok closed))"
  shows "kept (on_out m :: ('k, 'a) sess)"
  unfolding kept_def
proof (intro allI impI)
  fix s s' :: "'k Session" and r assume s: "session_ok s" and run: "on_out m s = Some (s', r)"
  then obtain ho h' where "ss_out s = Some ho" "out_ok (ss_shutdown s) ho" "m ho = Some (h', r)" "s' = s\<lparr>ss_out := Some h'\<rparr>"
    by (auto simp: session_ok_def on_out_def split: option.splits)
  moreover from this have "out_ok (ss_shutdown s) h'" using keepsD [OF assms] by blast
  ultimately show "session_ok s' \<and> same_ranges s s'" using s by (simp add: session_ok_def same_ranges_def ranges_def)
qed

lemma kept_WriteRawMsg: "kept (WriteRawMsg env code buf)"
  unfolding WriteRawMsg_def by (intro kept_bindS kept_simple kept_if kept_on_out keeps_half_write)

lemma kept_Session_ReadMsg: "kept (Session_ReadMsg env)"
  unfolding Session_ReadMsg_def by (intro kept_on_in keeps_half_read)

lemma kept_case_prod: "(\<And>a b. kept (f a b)) \<Longrightarrow> kept (case x of (a, b) \<Rightarrow> f a b)"
  by (cases x) simp

lemma kept_case_option: "kept m \<Longrightarrow> (\<And>a. kept (f a)) \<Longrightarrow> kept (case x of None \<Rightarrow> m | Some a \<Rightarrow> f a)"
  by (cases x) simp_all

lemma kept_case_sum: "(\<And>e. kept (m e)) \<Longrightarrow> (\<And>a. kept (f a)) \<Longrightarrow> kept (case x of Inl e \<Rightarrow> m e | Inr a \<Rightarrow> f a)"
  by (cases x) simp_all

lemmas kept_rules = kept_bindS kept_attempt kept_simple kept_if kept_case_prod kept_case_option kept_case_sum
  kept_WriteRawMsg kept_Session_ReadMsg

text \<open>Changing one stream, but not its range.\<close>

lemma kept_update_stream:
  assumes "\<And>st. st_offset (f st) = st_offset st \<and> st_length (f st) = st_length st"
  shows "kept (modify (\<lambda>s. s\<lparr>ss_streams := (ss_streams s)[i := f (ss_streams s ! i)]\<rparr>))"
  using assms by (simp add: kept_def session_ok_def same_ranges_def ranges_def map_update_same)

lemma kept_set_header: "kept (set_header i h)"
  unfolding set_header_def by (rule kept_update_stream) simp

lemma kept_Stream_Write: "kept (Stream_Write env i b)"
  unfolding Stream_Write_def Stream_Write_body_def by (intro kept_rules kept_set_header)

lemma stream_ReadMsg_range: "stream_ReadMsg st = Some (st', r) \<Longrightarrow> st_offset st' = st_offset st \<and> st_length st' = st_length st"
  by (auto simp: stream_ReadMsg_def stream_read_def asyncNotify_def Let_def elim!: bindS_Some_cases split: if_splits option.splits list.splits)

lemma kept_Stream_ReadMsg: "kept (Stream_ReadMsg i)"
  by (auto simp: kept_def Stream_ReadMsg_def session_ok_def same_ranges_def ranges_def map_update_same dest: stream_ReadMsg_range split: option.splits)

lemma kept_SetSnappy: "kept SetSnappy"
  by (auto simp: kept_def SetSnappy_def session_ok_def in_ok_def out_ok_def same_ranges_def ranges_def)

lemma kept_doProtocolHandshake: "kept (doProtocolHandshake env readFirst arrived info)"
proof -
  have "kept (case decodeDiscMsg (rx_F env) buf of (msg, None) \<Rightarrow> fail (Disconnected msg) | (msg, Some e) \<Rightarrow> fail e)" for buf
    by (auto simp: kept_simple split: prod.split option.split)
  then have "kept (readProtocolHandshake env)" unfolding readProtocolHandshake_def by (intro kept_rules)
  then show ?thesis unfolding doProtocolHandshake_def Let_def by (intro kept_rules kept_SetSnappy)
qed

subsection \<open>How a session begins\<close>

lemma run_handshake_fields:
  "run_handshake env d s = Some (s', r) \<Longrightarrow> \<exists>segs sent. s' = s\<lparr>ss_segs := segs, ss_sent := sent\<rparr>"
  by (auto simp: run_handshake_def Let_def split: option.splits if_splits)

lemma p2pHandshake_ok:
  assumes run: "p2pHandshake env d s = Some (s', Inr ())" and "\<not> ss_shutdown s"
  shows "session_ok s' \<and> \<not> ss_shutdown s'"
proof -
  obtain secrets s1 where s1: "run_handshake env d s = Some (s1, Inr secrets)"
    using run unfolding p2pHandshake_def by (rule bindS_Some_cases) simp_all
  then have "\<not> ss_shutdown s1" using run_handshake_fields assms(2) by fastforce
  then show ?thesis
    using run s1
    by (auto simp: p2pHandshake_def bindS_def pureO_def pureP_def session_ok_def in_ok_def out_ok_def newHalf_def split: option.splits sum.splits)
qed

lemma Handshake_ok:
  assumes run: "Handshake env d readFirst arrived s = Some (s', Inr ())" and "\<not> ss_shutdown s"
  shows "session_ok s'"
proof -
  obtain s1 where s1: "p2pHandshake env d s = Some (s1, Inr ())"
    and rest: "bindS (gets ss_Info) (\<lambda>info. bindS (doProtocolHandshake env readFirst arrived info) (\<lambda>info.
      modify (\<lambda>s. s\<lparr>ss_remoteInfo := Some info\<rparr>))) s1 = Some (s', Inr ())"
    using run unfolding Handshake_def by (rule bindS_Some_cases) auto
  have "kept (bindS (gets ss_Info) (\<lambda>info. bindS (doProtocolHandshake env readFirst arrived info) (\<lambda>info.
      modify (\<lambda>s. s\<lparr>ss_remoteInfo := Some info\<rparr>))))"
    by (intro kept_rules kept_doProtocolHandshake) (simp add: kept_def session_ok_def same_ranges_def ranges_def)
  from keptD [OF this _ rest] show ?thesis using p2pHandshake_ok [OF s1 assms(2)] by simp
qed

lemma negotiateProtocols_eq:
  "negotiateProtocols s = (case ss_remoteInfo s of None \<Rightarrow> None
     | Some info \<Rightarrow> let streams = ss_streams s @ layout (ss_protocols s) (info_Caps info) BaseProtocolLength in
         Some (s\<lparr>ss_streams := streams\<rparr>, if streams = [] then Inl NoMatchingProtocols else Inr ()))"
  by (cases "ss_remoteInfo s") (simp_all add: negotiateProtocols_def negotiate_layout bindS_def [of "negotiate _ _"])

lemma negotiateProtocols_ok:
  assumes "negotiateProtocols s = Some (s', r)" and "session_ok s"
  shows "session_ok s'"
  using assms by (auto simp: negotiateProtocols_eq session_ok_def Let_def split: option.splits)

lemma opened_ok:
  assumes "bindS (Handshake env d readFirst arrived) (\<lambda>_. negotiateProtocols) s = Some (s', Inr x)" and "\<not> ss_shutdown s"
  shows "session_ok s'"
  using assms(1)
proof (cases rule: bindS_Some_cases)
  case (result a t)
  then have "session_ok t" using Handshake_ok [OF _ assms(2)] by simp
  with result(2) show ?thesis by (rule negotiateProtocols_ok)
qed simp

lemma connect_ok:
  assumes "rlpx_connect env d readFirst arrived priv backends info conn enode = Some (Inr s)"
  shows "session_ok s"
proof -
  obtain pub x where "bindS (Handshake env d readFirst arrived) (\<lambda>_. negotiateProtocols) (rlpx_Client backends conn priv pub (networkInfoToLocalInfo info)) = Some (s, Inr x)"
    using assms unfolding rlpx_connect_def by (simp split: sum.splits option.splits prod.splits)
  from opened_ok [OF this] show ?thesis by (simp add: rlpx_Client_def rlpx_Server_def)
qed

lemma accept_ok:
  assumes "rlpx_accept env d readFirst arrived priv backends info conn = Some (Inr s)"
  shows "session_ok s"
proof -
  obtain x where "bindS (Handshake env d readFirst arrived) (\<lambda>_. negotiateProtocols) (rlpx_Server backends conn priv (networkInfoToLocalInfo info)) = Some (s, Inr x)"
    using assms unfolding rlpx_accept_def by (simp split: sum.splits option.splits prod.splits)
  from opened_ok [OF this] show ?thesis by (simp add: rlpx_Server_def)
qed

section \<open>Runs of a session\<close>

text \<open>
  The steps of a session in any order: the goroutines \<open>recv\<close> and \<open>keepalive\<close>, the protocols that read and write their
  streams, a call of \<open>Disconnect\<close> or \<open>Close\<close>, and bytes that arrive.
\<close>

inductive sess_step :: "('k, 'v) rlpx_env \<Rightarrow> 'k Session \<Rightarrow> 'k Session \<Rightarrow> bool" for env where
  receive: "recv_step env s = Some (s', r) \<Longrightarrow> sess_step env s s'"
| ping: "keepalive_ping env s = Some (s', r) \<Longrightarrow> sess_step env s s'"
| pong_timeout: "keepalive_timeout env s = Some (s', r) \<Longrightarrow> sess_step env s s'"
| disconnect: "Disconnect env reason s = Some (s', r) \<Longrightarrow> sess_step env s s'"
| write_msg: "Stream_WriteMsg env i code b s = Some (s', r) \<Longrightarrow> sess_step env s s'"
| write_framed: "Stream_Write env i b s = Some (s', r) \<Longrightarrow> sess_step env s s'"
| read_msg: "Stream_ReadMsg i s = Some (s', r) \<Longrightarrow> sess_step env s s'"
| arrive: "ss_in s = Some h \<Longrightarrow> \<not> ss_shutdown s \<Longrightarrow> sess_step env s (s\<lparr>ss_in := Some (h\<lparr>hc_in := hc_in h @ [seg]\<rparr>)\<rparr>)"

context rlpx_laws
begin

lemma sess_step_kept:
  assumes "sess_step env s s'" and "session_ok s"
  shows "session_ok s' \<and> same_ranges s s'"
  using assms(1)
proof cases
  case (write_msg i code b r)
  have "kept (Stream_WriteMsg env i code b)" unfolding Stream_WriteMsg_def by (intro kept_rules)
  then show ?thesis using keptD assms(2) write_msg by blast
next
  case (arrive h seg)
  then show ?thesis using assms(2) by (auto simp: session_ok_def in_ok_def same_ranges_def ranges_def)
qed (use assms(2) kept_recv_step returns_kept [OF returns_keepalive(1)] returns_kept [OF returns_keepalive(2)] returns_kept [OF returns_Disconnect]
    kept_Stream_Write kept_Stream_ReadMsg keptD in blast)+

lemma sess_steps_kept:
  assumes "(sess_step env)\<^sup>*\<^sup>* s s'" and "session_ok s"
  shows "session_ok s' \<and> same_ranges s s'"
  using assms
proof (induction rule: rtranclp_induct)
  case (step t u)
  then show ?case using sess_step_kept [OF step.hyps(2)] same_ranges_trans by blast
qed simp

end

end
