(* ===== verification/RlpxLink.thy ===== *)
theory RlpxLink
  imports RlpxProps
begin

text \<open>
  Two sessions at the ends of a connection: the handshakes leave their halves in step, the negotiation gives them streams,
  and a message written to a stream of one is read from the stream of the other.
\<close>

section \<open>The encryption handshake links two sessions\<close>

text \<open>Addresses that \<open>p2pHandshake\<close> can turn into an enode.\<close>

definition addr_ok :: "string \<Rightarrow> bool" where
  "addr_ok a \<longleftrightarrow> a = ''pipe'' \<or> (\<exists>p port. length p = 4 \<and> port < 2 ^ 16 \<and> a = IPv4_String p @ '':'' @ dec_string port)"

definition dial_addr :: "string \<Rightarrow> string" where
  "dial_addr a = (if a \<noteq> ''pipe'' then a else ''127.0.0.1:30303'')"

lemma dec_string_samples: "dec_string 127 = ''127''" "dec_string 0 = ''0''" "dec_string (Suc 0) = ''1''" "dec_string 30303 = ''30303''"
  by (simp_all add: dec_string.simps [of 127] dec_string.simps [of 12] dec_string.simps [of "Suc 0"] dec_string.simps [of 0] dec_string.simps [of 30303]
      dec_string.simps [of 3030] dec_string.simps [of 303] dec_string.simps [of 30] dec_string.simps [of 3] dec_digit_def char_of_def bit_iff_odd)

lemma dial_addr_v4:
  assumes "addr_ok a"
  obtains p port where "length p = 4" "port < 2 ^ 16" "dial_addr a = IPv4_String p @ '':'' @ dec_string port"
proof (cases "a = ''pipe''")
  case True
  have "dial_addr a = IPv4_String [127, 0, 0, 1] @ '':'' @ dec_string 30303"
    by (simp add: dial_addr_def True IPv4_String_def dec_string_samples)
  then show ?thesis by (intro that [of "[127, 0, 0, 1]" 30303]) simp_all
next
  case False
  then show ?thesis using assms that by (auto simp: addr_ok_def dial_addr_def)
qed

lemma ParseURL_addr:
  assumes "addr_ok a" and "length i = 64"
  obtains n where "ParseURL (''enode://'' @ ID_String i @ ''@'' @ dial_addr a) = Some (Inr n)" "en_ID n = i"
proof -
  obtain p port where p: "length p = 4" "port < 2 ^ 16" "dial_addr a = IPv4_String p @ '':'' @ dec_string port"
    using assms(1) by (rule dial_addr_v4)
  from ParseURL_v4 [OF assms(2) p(1,2,2)]
  have "ParseURL (''enode://'' @ ID_String i @ ''@'' @ dial_addr a) =
    Some (Inr \<lparr>en_ID = i, en_TCP = word_of_nat port, en_UDP = word_of_nat port, en_IP = v4InV6Prefix @ p\<rparr>)" by (simp add: p(3))
  then show ?thesis by (rule that) simp
qed

text \<open>The session after the encryption handshake.\<close>

definition established :: "Secrets \<Rightarrow> point \<Rightarrow> Enode \<Rightarrow> bytes \<Rightarrow> bytes \<Rightarrow> bytes list \<Rightarrow> bytes list \<Rightarrow> 'k Session \<Rightarrow> 'k Session" where
  "established sec p n ingress egress segs sent s = s\<lparr>ss_segs := segs, ss_sent := sent, ss_RemoteID := Some p,
     ss_id := ID_String (PubkeyToEnode p), ss_streams := [], ss_shutdownCh := Some False, ss_state := sessionEstablished, ss_enode := Some n,
     ss_in := Some (newHalf (aes_Encrypt (sec_MAC sec)) (aes_Encrypt (sec_AES sec)) ingress segs [] (\<lambda>_. False)),
     ss_out := Some (newHalf (aes_Encrypt (sec_MAC sec)) (aes_Encrypt (sec_AES sec)) egress [] sent (ss_wok s))\<rparr>"

lemma p2pHandshake_run:
  assumes run: "run_handshake env d s = Some (s\<lparr>ss_segs := segs, ss_sent := sent\<rparr>, Inr sec)"
    and sec: "sec_RemoteID sec = Some p" "length (sec_AES sec) = 32" "length (sec_MAC sec) = 32"
      "sec_IngressMAC sec = Some ingress" "sec_EgressMAC sec = Some egress" and addr: "addr_ok (ss_addr s)"
  shows "\<exists>n. p2pHandshake env d s = Some (established sec p n ingress egress segs sent s, Inr ()) \<and> en_ID n = PubkeyToEnode p"
proof -
  obtain n where n: "ParseURL (''enode://'' @ ID_String (PubkeyToEnode p) @ ''@'' @ dial_addr (ss_addr s)) = Some (Inr n)" "en_ID n = PubkeyToEnode p"
    by (rule ParseURL_addr [OF addr length_PubkeyToEnode])
  show ?thesis
    using n unfolding p2pHandshake_def dial_addr_def [symmetric] bindS_eval(3) [of "run_handshake env d", OF run]
    by (intro exI [of _ n]) (simp add: sec aes_NewCipher_def established_def)
qed

text \<open>One direction of a link: what \<open>c\<close> writes, \<open>s\<close> can read.\<close>

definition flows :: "'k Session \<Rightarrow> 'k Session \<Rightarrow> bool" where
  "flows c s \<longleftrightarrow> (\<exists>ho hi. ss_out c = Some ho \<and> ss_in s = Some hi \<and> synced ho hi \<and> (\<forall>n. hc_ok ho n))"

lemma synced_newHalf: "synced (newHalf m e mac segs sent wok) (newHalf m e mac segs' sent' wok')"
  by (simp add: synced_def newHalf_def)

text \<open>What an end has after the encryption handshake.\<close>

definition ready :: "'k Session \<Rightarrow> 'k Session \<Rightarrow> point \<Rightarrow> halfConn \<Rightarrow> halfConn \<Rightarrow> bool" where
  "ready s0 s p hi ho \<longleftrightarrow> ss_RemoteID s = Some p \<and> ss_streams s = [] \<and> ss_protocols s = ss_protocols s0 \<and> ss_Info s = ss_Info s0 \<and>
     ss_state s = sessionEstablished \<and> (\<exists>n. ss_enode s = Some n \<and> en_ID n = PubkeyToEnode p) \<and> ss_in s = Some hi \<and> ss_out s = Some ho"

text \<open>Two halves of one direction, before anything was read, with the packet that was written before.\<close>

definition fresh_pair :: "halfConn \<Rightarrow> halfConn \<Rightarrow> bytes \<Rightarrow> bool" where
  "fresh_pair ho hi packet \<longleftrightarrow> synced ho hi \<and> \<not> hc_snappy ho \<and> hc_ok ho = (\<lambda>_. True) \<and> hc_out ho = [packet]"

context handshake_laws
begin

lemma p2p_linked:
  assumes "can_draw dc" and "can_draw ds" and "signs_auth env dc kc ks" and "addr_ok ac" and "addr_ok as"
  shows "\<exists>A R hoc hic hos his. fresh_pair hoc his A \<and> fresh_pair hos hic R \<and> (\<forall>rc rs. \<exists>c s.
    p2pHandshake env dc (rlpx_Client psc \<lparr>nc_segs = R # rc, nc_wok = (\<lambda>_. True), nc_addr = ac\<rparr> kc (PublicKey (rx_C env) ks) ic) = Some (c, Inr ()) \<and>
    p2pHandshake env ds (rlpx_Server pss \<lparr>nc_segs = A # rs, nc_wok = (\<lambda>_. True), nc_addr = as\<rparr> ks is) = Some (s, Inr ()) \<and>
    ready (rlpx_Client psc \<lparr>nc_segs = R # rc, nc_wok = (\<lambda>_. True), nc_addr = ac\<rparr> kc (PublicKey (rx_C env) ks) ic) c (PublicKey (rx_C env) ks) (hic\<lparr>hc_in := rc\<rparr>) hoc \<and>
    ready (rlpx_Server pss \<lparr>nc_segs = A # rs, nc_wok = (\<lambda>_. True), nc_addr = as\<rparr> ks is) s (PublicKey (rx_C env) kc) (his\<lparr>hc_in := rs\<rparr>) hos)"
proof -
  note len = length_Keccak256 [OF crypto_laws_axioms]
  obtain A R x ni nr where run: "\<And>rc rs. \<exists>c' s'.
    handshakeClient env dc kc (client_state kc (PublicKey (rx_C env) ks) (R # rc) (\<lambda>_. True)) =
      Some (c', Inr (secrets_of env True (PublicKey (rx_C env) ks) x ni nr A R)) \<and> hs_out c' = [A] \<and> hs_in c' = rc \<and>
    handshakeServer env ds ks (server_state ks (A # rs) (\<lambda>_. True)) =
      Some (s', Inr (secrets_of env False (PublicKey (rx_C env) kc) x ni nr A R)) \<and> hs_out s' = [R] \<and> hs_in s' = rs"
    using handshake_secrets [OF assms(1-3)] by blast
  let ?c0 = "\<lambda>rc. rlpx_Client psc \<lparr>nc_segs = R # rc, nc_wok = (\<lambda>_. True), nc_addr = ac\<rparr> kc (PublicKey (rx_C env) ks) ic"
  let ?s0 = "\<lambda>rs. rlpx_Server pss \<lparr>nc_segs = A # rs, nc_wok = (\<lambda>_. True), nc_addr = as\<rparr> ks is"
  let ?m1 = "map2 (XOR) (mac_of env x ni nr) nr @ A" and ?m2 = "map2 (XOR) (mac_of env x ni nr) ni @ R"
  let ?Sc = "secrets_of env True (PublicKey (rx_C env) ks) x ni nr A R" and ?Ss = "secrets_of env False (PublicKey (rx_C env) kc) x ni nr A R"
  let ?half = "newHalf (aes_Encrypt (mac_of env x ni nr)) (aes_Encrypt (aes_of env x ni nr))"
  have client: "\<exists>n. p2pHandshake env dc (?c0 rc) = Some (established ?Sc (PublicKey (rx_C env) ks) n ?m2 ?m1 rc [A] (?c0 rc), Inr ()) \<and>
      en_ID n = PubkeyToEnode (PublicKey (rx_C env) ks)" for rc
  proof (rule p2pHandshake_run)
    show "run_handshake env dc (?c0 rc) = Some ((?c0 rc)\<lparr>ss_segs := rc, ss_sent := [A]\<rparr>, Inr ?Sc)"
      using run [of rc "[]"] by (auto simp: run_handshake_def rlpx_Client_def rlpx_Server_def)
  qed (simp_all add: secrets_of_def Let_def mac_of_def aes_of_def len assms(4) rlpx_Client_def rlpx_Server_def)
  have server: "\<exists>n. p2pHandshake env ds (?s0 rs) = Some (established ?Ss (PublicKey (rx_C env) kc) n ?m1 ?m2 rs [R] (?s0 rs), Inr ()) \<and>
      en_ID n = PubkeyToEnode (PublicKey (rx_C env) kc)" for rs
  proof (rule p2pHandshake_run)
    show "run_handshake env ds (?s0 rs) = Some ((?s0 rs)\<lparr>ss_segs := rs, ss_sent := [R]\<rparr>, Inr ?Ss)"
      using run [of "[]" rs] by (auto simp: run_handshake_def rlpx_Server_def)
  qed (simp_all add: secrets_of_def Let_def mac_of_def aes_of_def len assms(5) rlpx_Server_def)
  have ready_c: "en_ID n = PubkeyToEnode p \<Longrightarrow> ready (?c0 rc) (established ?Sc p n ?m2 ?m1 rc [A] (?c0 rc)) p
      ((?half ?m2 [] [] (\<lambda>_. False))\<lparr>hc_in := rc\<rparr>) (?half ?m1 [] [A] (\<lambda>_. True))" for n p rc
    by (simp add: ready_def established_def secrets_of_def Let_def newHalf_def rlpx_Client_def rlpx_Server_def)
  have ready_s: "en_ID n = PubkeyToEnode p \<Longrightarrow> ready (?s0 rs) (established ?Ss p n ?m1 ?m2 rs [R] (?s0 rs)) p
      ((?half ?m1 [] [] (\<lambda>_. False))\<lparr>hc_in := rs\<rparr>) (?half ?m2 [] [R] (\<lambda>_. True))" for n p rs
    by (simp add: ready_def established_def secrets_of_def Let_def newHalf_def rlpx_Server_def)
  have pair: "fresh_pair (?half m [] [P] (\<lambda>_. True)) (?half m [] [] (\<lambda>_. False)) P" for m P
    by (simp add: fresh_pair_def synced_newHalf) (simp add: newHalf_def)
  show ?thesis
    apply (rule exI [of _ A], rule exI [of _ R], rule exI [of _ "?half ?m1 [] [A] (\<lambda>_. True)"], rule exI [of _ "?half ?m2 [] [] (\<lambda>_. False)"])
    apply (rule exI [of _ "?half ?m2 [] [R] (\<lambda>_. True)"], rule exI [of _ "?half ?m1 [] [] (\<lambda>_. False)"])
    apply (rule conjI [OF pair conjI [OF pair]], intro allI)
    using client ready_c server ready_s by meson
qed

end

section \<open>The protocol handshake\<close>

lemma doProtocolHandshake_run:
  assumes "ss_state s = sessionEstablished" and "ss_out s = Some ho" and "ss_in s = Some hi" and "ss_RemoteID s = Some p"
    and "half_write env handshakeMsg (Info_MarshalRLP (rx_F env) info []) ho = Some (ho', Inr ())"
    and "half_read env hi = Some (hi', Inr (handshakeMsg, buf))" and "length buf \<le> baseProtocolMaxMsgSize"
    and "Info_UnmarshalRLP (rx_F env) buf = Inr peer" and "info_ID peer = PubkeyToEnode p" and "PubkeyToEnode p \<noteq> replicate 64 0"
    and "snappyProtocolVersion \<le> info_Version peer" and "2 \<le> arrived"
  shows "doProtocolHandshake env readFirst arrived info s =
    Some (s\<lparr>ss_out := Some (ho'\<lparr>hc_snappy := True\<rparr>), ss_in := Some (hi'\<lparr>hc_snappy := True\<rparr>)\<rparr>, Inr peer)"
proof -
  have w: "attempt (WriteRawMsg env handshakeMsg (Info_MarshalRLP (rx_F env) info [])) s =
      Some (s\<lparr>ss_out := Some ho'\<rparr>, Inr (Inr () :: rlpx_error + unit))"
    using assms(1,2,5) by (simp add: attempt_def WriteRawMsg_def on_out_def)
  have r: "attempt (readProtocolHandshake env) (s\<lparr>ss_out := Some ho'\<rparr>) =
      Some (s\<lparr>ss_out := Some ho', ss_in := Some hi'\<rparr>, Inr (Inr peer :: rlpx_error + Info))"
    using assms by (simp add: attempt_def readProtocolHandshake_def Session_ReadMsg_def on_in_def bindS_def handshakeMsg_def discMsg_def)
  show ?thesis
    unfolding doProtocolHandshake_def bindS_eval(3) [of "attempt _", OF w] bindS_eval(3) [of "attempt _", OF r]
    using assms(11,12) by (cases s) (simp add: SetSnappy_def Let_def)
qed

text \<open>Information that a node may send in its hello message: its own identity, a version with compression, and not too long.\<close>

definition hello_ok :: "('k, 'v) rlpx_env \<Rightarrow> 'k \<Rightarrow> Info \<Rightarrow> bool" where
  "hello_ok env k i \<longleftrightarrow> info_ID i = PubkeyToEnode (PublicKey (rx_C env) k) \<and> info_ID i \<noteq> replicate 64 0 \<and>
     snappyProtocolVersion \<le> info_Version i \<and> length (Info_MarshalRLP (rx_F env) i []) \<le> baseProtocolMaxMsgSize"

lemma Handshake_run:
  assumes p2p: "p2pHandshake env d s0 = Some (s, Inr ())" and rdy: "ready s0 s (PublicKey (rx_C env) k) hi ho" and hello: "hello_ok env k peer"
    and wr: "half_write env handshakeMsg (Info_MarshalRLP (rx_F env) (ss_Info s0) []) ho = Some (ho', Inr ())"
    and rd: "half_read env hi = Some (hi', Inr (handshakeMsg, Info_MarshalRLP (rx_F env) peer []))"
    and dec: "Info_UnmarshalRLP (rx_F env) (Info_MarshalRLP (rx_F env) peer []) = Inr peer"
  shows "Handshake env d readFirst 2 s0 = Some (s\<lparr>ss_out := Some (ho'\<lparr>hc_snappy := True\<rparr>), ss_in := Some (hi'\<lparr>hc_snappy := True\<rparr>),
    ss_remoteInfo := Some peer\<rparr>, Inr ())"
proof -
  have "doProtocolHandshake env readFirst 2 (ss_Info s) s = Some (s\<lparr>ss_out := Some (ho'\<lparr>hc_snappy := True\<rparr>),
      ss_in := Some (hi'\<lparr>hc_snappy := True\<rparr>)\<rparr>, Inr peer)"
    by (rule doProtocolHandshake_run [OF _ _ _ _ _ rd _ dec]) (use rdy hello wr in \<open>auto simp: ready_def hello_ok_def\<close>)
  then show ?thesis
    unfolding Handshake_def bindS_eval(3) [of "p2pHandshake env d", OF p2p] by (simp add: bindS_def [of "doProtocolHandshake _ _ _ _"])
qed

context rlpx_laws
begin

lemma hello_passes:
  assumes pair: "fresh_pair ho hi P" and hello: "hello_ok env k i"
  obtains ho' hi' w where "half_write env handshakeMsg (Info_MarshalRLP (rx_F env) i []) ho = Some (ho', Inr ())"
    "half_read env (hi\<lparr>hc_in := [w]\<rparr>) = Some (hi', Inr (handshakeMsg, Info_MarshalRLP (rx_F env) i []))"
    "concat (hc_out ho') = P @ w" "concat (hc_in hi') = []" "synced ho' hi'" "hc_ok ho' = (\<lambda>_. True)"
    "Info_UnmarshalRLP (rx_F env) (Info_MarshalRLP (rx_F env) i []) = Inr i"
proof -
  let ?b = "Info_MarshalRLP (rx_F env) i []"
  have len: "length ?b \<le> 2048" using hello by (simp add: hello_ok_def baseProtocolMaxMsgSize_def)
  have ho: "\<And>n. hc_ok ho n" "length (hc_header ho) = 32" "hc_out ho = [P]" "sendable env (hc_snappy ho) (handshakeMsg, ?b)"
    using pair len by (auto simp: fresh_pair_def synced_def sendable_def handshakeMsg_def maxUint24_def)
  have pre: "handshakeMsg < 0x80" "length ?b \<le> maxUint24" using ho(4) by (simp_all add: sendable_def)
  have sync: "synced ho (hi\<lparr>hc_in := [w]\<rparr>)" for w using pair by (simp add: fresh_pair_def synced_def)
  obtain ho' w where w: "half_write env handshakeMsg ?b ho = Some (ho', Inr ())" "concat (hc_out ho') = concat (hc_out ho) @ w" "hc_ok ho' = hc_ok ho"
    "\<And>t rest. synced ho t \<Longrightarrow> concat (hc_in t) = w @ rest \<Longrightarrow> \<exists>t'. half_read env t = Some (t', Inr (handshakeMsg, ?b)) \<and> concat (hc_in t') = rest \<and> synced ho' t'"
    using message_roundtrip [OF ho(1,2) pre length_body [OF ho(4)]] by metis
  obtain hi' where hi': "half_read env (hi\<lparr>hc_in := [w]\<rparr>) = Some (hi', Inr (handshakeMsg, ?b))" "concat (hc_in hi') = []" "synced ho' hi'"
    using w(4) [OF sync [of w], of "[]"] by auto
  have "Info_UnmarshalRLP (rx_F env) ?b = Inr i"
    using Info_wire [OF fastrlp_laws_axioms, of i] len hello by (simp add: hello_ok_def)
  then show ?thesis using w(1-3) hi' ho(3) pair by (intro that) (simp_all add: fresh_pair_def)
qed

end

section \<open>Two nodes open a session\<close>

definition open_session :: "('k, 'v) rlpx_env \<Rightarrow> 'k draws \<Rightarrow> bool \<Rightarrow> nat \<Rightarrow> ('k, unit) sess" where
  "open_session env d readFirst arrived = bindS (Handshake env d readFirst arrived) (\<lambda>_. negotiateProtocols)"

text \<open>A session after its handshakes: what it has sent, what it knows of the other end, and its streams.\<close>

definition opened :: "'k Session \<Rightarrow> bytes \<Rightarrow> Info \<Rightarrow> ProtocolSpec list \<Rightarrow> bool" where
  "opened s sent peer ps \<longleftrightarrow> (\<exists>ho hi. ss_out s = Some ho \<and> concat (hc_out ho) = sent \<and> hc_snappy ho \<and> ss_in s = Some hi \<and> concat (hc_in hi) = []) \<and>
     ss_remoteInfo s = Some peer \<and> ss_streams s = layout ps (info_Caps peer) BaseProtocolLength \<and> ss_state s = sessionEstablished"

lemma open_session_run:
  assumes p2p: "p2pHandshake env d s0 = Some (s, Inr ())" and rdy: "ready s0 s (PublicKey (rx_C env) k) hi ho" and hello: "hello_ok env k peer"
    and wr: "half_write env handshakeMsg (Info_MarshalRLP (rx_F env) (ss_Info s0) []) ho = Some (ho', Inr ())"
    and rd: "half_read env hi = Some (hi', Inr (handshakeMsg, Info_MarshalRLP (rx_F env) peer []))"
    and dec: "Info_UnmarshalRLP (rx_F env) (Info_MarshalRLP (rx_F env) peer []) = Inr peer"
    and match: "layout (ss_protocols s0) (info_Caps peer) BaseProtocolLength \<noteq> []" and rest: "concat (hc_in hi') = []"
  shows "\<exists>t. open_session env d readFirst 2 s0 = Some (t, Inr ()) \<and> opened t (concat (hc_out ho')) peer (ss_protocols s0) \<and>
    ss_out t = Some (ho'\<lparr>hc_snappy := True\<rparr>) \<and> ss_in t = Some (hi'\<lparr>hc_snappy := True\<rparr>)"
  using Handshake_run [OF p2p rdy hello wr rd dec, of readFirst] rdy match rest
  by (simp add: open_session_def bindS_def negotiateProtocols_eq ready_def opened_def)

definition pipe_to :: "bytes list \<Rightarrow> string \<Rightarrow> net_conn" where
  "pipe_to segs addr = \<lparr>nc_segs = segs, nc_wok = (\<lambda>_. True), nc_addr = addr\<rparr>"

definition linked :: "'k Session \<Rightarrow> 'k Session \<Rightarrow> bool" where
  "linked c s \<longleftrightarrow> flows c s \<and> flows s c"

lemma synced_snappy: "synced ho hi \<Longrightarrow> synced (ho\<lparr>hc_snappy := b\<rparr>) (hi\<lparr>hc_snappy := b\<rparr>)"
  by (simp add: synced_def)

context handshake_laws
begin

lemma open_linked:
  assumes "can_draw dc" and "can_draw ds" and "signs_auth env dc kc ks" and "addr_ok ac" and "addr_ok as"
    and hc: "hello_ok env kc ic" and hs: "hello_ok env ks is"
    and mc: "layout psc (info_Caps is) BaseProtocolLength \<noteq> []" and ms: "layout pss (info_Caps ic) BaseProtocolLength \<noteq> []"
  shows "\<exists>toc tos c s.
    open_session env dc rfc 2 (rlpx_Client psc (pipe_to toc ac) kc (PublicKey (rx_C env) ks) ic) = Some (c, Inr ()) \<and>
    open_session env ds rfs 2 (rlpx_Server pss (pipe_to tos as) ks is) = Some (s, Inr ()) \<and>
    opened c (concat tos) is psc \<and> opened s (concat toc) ic pss \<and> linked c s"
proof -
  obtain A R hoc hic hos his where pc: "fresh_pair hoc his A" and ps: "fresh_pair hos hic R" and p2p: "\<And>rc rs. \<exists>c s.
    p2pHandshake env dc (rlpx_Client psc (pipe_to (R # rc) ac) kc (PublicKey (rx_C env) ks) ic) = Some (c, Inr ()) \<and>
    p2pHandshake env ds (rlpx_Server pss (pipe_to (A # rs) as) ks is) = Some (s, Inr ()) \<and>
    ready (rlpx_Client psc (pipe_to (R # rc) ac) kc (PublicKey (rx_C env) ks) ic) c (PublicKey (rx_C env) ks) (hic\<lparr>hc_in := rc\<rparr>) hoc \<and>
    ready (rlpx_Server pss (pipe_to (A # rs) as) ks is) s (PublicKey (rx_C env) kc) (his\<lparr>hc_in := rs\<rparr>) hos"
    using p2p_linked [OF assms(1-5)] unfolding pipe_to_def by blast
  obtain hoc' his' wc where c: "half_write env handshakeMsg (Info_MarshalRLP (rx_F env) ic []) hoc = Some (hoc', Inr ())"
    "half_read env (his\<lparr>hc_in := [wc]\<rparr>) = Some (his', Inr (handshakeMsg, Info_MarshalRLP (rx_F env) ic []))"
    "concat (hc_out hoc') = A @ wc" "concat (hc_in his') = []" "synced hoc' his'" "hc_ok hoc' = (\<lambda>_. True)"
    "Info_UnmarshalRLP (rx_F env) (Info_MarshalRLP (rx_F env) ic []) = Inr ic"
    by (rule hello_passes [OF pc hc])
  obtain hos' hic' ws where s: "half_write env handshakeMsg (Info_MarshalRLP (rx_F env) is []) hos = Some (hos', Inr ())"
    "half_read env (hic\<lparr>hc_in := [ws]\<rparr>) = Some (hic', Inr (handshakeMsg, Info_MarshalRLP (rx_F env) is []))"
    "concat (hc_out hos') = R @ ws" "concat (hc_in hic') = []" "synced hos' hic'" "hc_ok hos' = (\<lambda>_. True)"
    "Info_UnmarshalRLP (rx_F env) (Info_MarshalRLP (rx_F env) is []) = Inr is"
    by (rule hello_passes [OF ps hs])
  let ?c0 = "rlpx_Client psc (pipe_to [R, ws] ac) kc (PublicKey (rx_C env) ks) ic" and ?s0 = "rlpx_Server pss (pipe_to [A, wc] as) ks is"
  have fields: "ss_Info ?c0 = ic" "ss_Info ?s0 = is" "ss_protocols ?c0 = psc" "ss_protocols ?s0 = pss"
    by (simp_all add: rlpx_Client_def rlpx_Server_def)
  obtain c1 s1 where run: "p2pHandshake env dc ?c0 = Some (c1, Inr ())" "p2pHandshake env ds ?s0 = Some (s1, Inr ())"
    "ready ?c0 c1 (PublicKey (rx_C env) ks) (hic\<lparr>hc_in := [ws]\<rparr>) hoc" "ready ?s0 s1 (PublicKey (rx_C env) kc) (his\<lparr>hc_in := [wc]\<rparr>) hos"
    using p2p [of "[ws]" "[wc]"] by blast
  obtain c' where c': "open_session env dc rfc 2 ?c0 = Some (c', Inr ())" "opened c' (concat [A, wc]) is psc"
    "ss_out c' = Some (hoc'\<lparr>hc_snappy := True\<rparr>)" "ss_in c' = Some (hic'\<lparr>hc_snappy := True\<rparr>)"
    using open_session_run [OF run(1,3) hs _ s(2,7), unfolded fields, OF c(1) mc s(4)] c(3) by auto
  obtain s' where s': "open_session env ds rfs 2 ?s0 = Some (s', Inr ())" "opened s' (concat [R, ws]) ic pss"
    "ss_out s' = Some (hos'\<lparr>hc_snappy := True\<rparr>)" "ss_in s' = Some (his'\<lparr>hc_snappy := True\<rparr>)"
    using open_session_run [OF run(2,4) hc _ c(2,7), unfolded fields, OF s(1) ms c(4)] s(3) by auto
  have "linked c' s'"
    using c'(3,4) s'(3,4) c(5,6) s(5,6) synced_snappy by (simp add: linked_def flows_def)
  then show ?thesis using c'(1,2) s'(1,2) by blast
qed

end

section \<open>A message from stream to stream\<close>

definition arrives :: "bytes \<Rightarrow> 'k Session \<Rightarrow> 'k Session" where
  "arrives w s = s\<lparr>ss_in := map_option (\<lambda>h. h\<lparr>hc_in := hc_in h @ [w]\<rparr>) (ss_in s)\<rparr>"

definition has_sent :: "'k Session \<Rightarrow> bytes" where
  "has_sent s = (case ss_out s of None \<Rightarrow> [] | Some h \<Rightarrow> concat (hc_out h))"

definition drained :: "'k Session \<Rightarrow> bool" where
  "drained s \<longleftrightarrow> (\<forall>h. ss_in s = Some h \<longrightarrow> concat (hc_in h) = [])"

lemma opened_drained: "opened s sent peer ps \<Longrightarrow> drained s \<and> has_sent s = sent"
  by (auto simp: opened_def drained_def has_sent_def)

definition compressing :: "'k Session \<Rightarrow> bool" where
  "compressing s \<longleftrightarrow> (\<forall>h. ss_out s = Some h \<longrightarrow> hc_snappy h)"

text \<open>Two ends that can both send and receive.\<close>

definition duplex :: "'k Session \<Rightarrow> 'k Session \<Rightarrow> bool" where
  "duplex c s \<longleftrightarrow> linked c s \<and> ss_state c = sessionEstablished \<and> ss_state s = sessionEstablished \<and> compressing c \<and> compressing s \<and> drained c \<and> drained s"

lemma opened_duplex: "opened c a is psc \<Longrightarrow> opened s b ic pss \<Longrightarrow> linked c s \<Longrightarrow> duplex c s"
  by (frule opened_drained, frule opened_drained [of s]) (auto simp: duplex_def opened_def compressing_def)

lemma Session_ReadMsg_run:
  assumes "half_read env hi = Some (hi', Inr (code, buf))" and "ss_in s = Some hi"
  shows "Session_ReadMsg env s = Some (s\<lparr>ss_in := Some hi'\<rparr>, Inr (code, buf))"
  using assms by (simp add: Session_ReadMsg_def on_in_def)

lemma recv_step_stream:
  assumes rd: "Session_ReadMsg env s = Some (s', Inr (code, buf))" and "code \<notin> {pingMsg, pongMsg, discMsg}"
    and j: "getStream (ss_streams s') code = Some j"
  shows "recv_step env s = Some (s'\<lparr>ss_streams := (ss_streams s')[j := readData code buf (ss_streams s' ! j)]\<rparr>, Inr True)"
proof -
  have "recv_once env s = Some (s'\<lparr>ss_streams := (ss_streams s')[j := readData code buf (ss_streams s' ! j)]\<rparr>, Inr ())"
    unfolding recv_once_def bindS_eval(3) [of "Session_ReadMsg env", OF rd] using assms(2) j by (simp add: handleStreamMessage_def)
  then show ?thesis by (simp add: recv_step_def attempt_def bindS_def)
qed

text \<open>A message with a code that no stream has makes the receive loop panic; before the negotiation that is every code of a
  protocol, though the loop runs already.\<close>

lemma unknown_code_panics:
  assumes rd: "Session_ReadMsg env s = Some (s', Inr (code, buf))" and "code \<notin> {pingMsg, pongMsg, discMsg}" and "getStream (ss_streams s') code = None"
  shows "recv_step env s = None"
proof -
  have "recv_once env s = None"
    unfolding recv_once_def bindS_eval(3) [of "Session_ReadMsg env", OF rd] using assms(2,3) by (simp add: handleStreamMessage_def pureO_def bindS_def)
  then show ?thesis by (simp add: recv_step_def attempt_def bindS_def)
qed

context rlpx_laws
begin

lemma raw_message_passes:
  assumes flow: "flows c s" and c: "ss_state c = sessionEstablished" "compressing c" and drained: "drained s" and send: "sendable env True (code, b)"
  obtains c' s' w where "WriteRawMsg env code b c = Some (c', Inr ())" "has_sent c' = has_sent c @ w" "ss_streams c' = ss_streams c"
    "ss_state c' = ss_state c" "Session_ReadMsg env (arrives w s) = Some (s', Inr (code, b))" "ss_streams s' = ss_streams s" "drained s'" "flows c' s'"
    "ss_in c' = ss_in c" "compressing c'" "ss_out s' = ss_out s" "ss_state s' = ss_state s"
proof -
  obtain ho hi where h: "ss_out c = Some ho" "ss_in s = Some hi" "synced ho hi" "\<And>n. hc_ok ho n" using flow by (auto simp: flows_def)
  have head: "length (hc_header ho) = 32" using h(3) by (simp add: synced_def)
  have pre: "code < 0x80" "length b \<le> maxUint24" using send by (simp_all add: sendable_def)
  have "sendable env (hc_snappy ho) (code, b)" using c(2) h(1) send by (simp add: compressing_def)
  from message_roundtrip [OF h(4) head pre length_body [OF this]] obtain ho' w where w: "half_write env code b ho = Some (ho', Inr ())"
    "concat (hc_out ho') = concat (hc_out ho) @ w" "hc_ok ho' = hc_ok ho \<and> hc_snappy ho' = hc_snappy ho"
    "\<And>t rest. synced ho t \<Longrightarrow> concat (hc_in t) = w @ rest \<Longrightarrow> \<exists>t'. half_read env t = Some (t', Inr (code, b)) \<and> concat (hc_in t') = rest \<and> synced ho' t'"
    by metis
  have "synced ho (hi\<lparr>hc_in := hc_in hi @ [w]\<rparr>)" using h(3) by (simp add: synced_def)
  moreover have "concat (hc_in (hi\<lparr>hc_in := hc_in hi @ [w]\<rparr>)) = w @ []" using drained h(2) by (simp add: drained_def)
  ultimately obtain hi' where hi': "half_read env (hi\<lparr>hc_in := hc_in hi @ [w]\<rparr>) = Some (hi', Inr (code, b))" "concat (hc_in hi') = []" "synced ho' hi'"
    using w(4) by blast
  have ok: "All (hc_ok ho)" using h(4) by blast
  show ?thesis
  proof (rule that)
    show "WriteRawMsg env code b c = Some (c\<lparr>ss_out := Some ho'\<rparr>, Inr ())" using c(1) h(1) w(1) by (simp add: WriteRawMsg_def on_out_def)
    have "ss_in (arrives w s) = Some (hi\<lparr>hc_in := hc_in hi @ [w]\<rparr>)" using h(2) by (simp add: arrives_def)
    from Session_ReadMsg_run [OF hi'(1) this]
    show "Session_ReadMsg env (arrives w s) = Some ((arrives w s)\<lparr>ss_in := Some hi'\<rparr>, Inr (code, b))" .
  qed (use h ok w hi' c(2) in \<open>simp_all add: has_sent_def arrives_def drained_def flows_def compressing_def\<close>)
qed

text \<open>A message from a stream to the stream of the same range at the other end; both ends are ready for more.\<close>

lemma stream_passes:
  assumes duplex: "duplex c s" and send: "sendable env True (code + st_offset (ss_streams c ! i), b)" and base: "16 \<le> code + st_offset (ss_streams c ! i)"
    and j: "getStream (ss_streams s) (code + st_offset (ss_streams c ! i)) = Some j"
    and same: "st_offset (ss_streams s ! j) = st_offset (ss_streams c ! i)" and clear: "unread (ss_streams s ! j) = []"
  obtains c' w s1 s2 st where "Stream_WriteMsg env i code b c = Some (c', Inr ())" "has_sent c' = has_sent c @ w" "ss_streams c' = ss_streams c"
    "recv_step env (arrives w s) = Some (s1, Inr True)" "Stream_ReadMsg j s1 = Some (s2, Inr (b, ucast code))" "duplex c' s2"
    "ss_streams s2 = (ss_streams s)[j := st]" "unread st = []" "st_offset st = st_offset (ss_streams s ! j)" "st_length st = st_length (ss_streams s ! j)" "j < length (ss_streams s)"
proof -
  let ?code = "code + st_offset (ss_streams c ! i)"
  have d: "flows c s" "flows s c" "ss_state c = sessionEstablished" "compressing c" "drained s"
    and d': "ss_state s = sessionEstablished" "compressing s" "drained c"
    using duplex by (simp_all add: duplex_def linked_def)
  obtain c' s' w where w: "WriteRawMsg env ?code b c = Some (c', Inr ())" "has_sent c' = has_sent c @ w" "ss_streams c' = ss_streams c" "ss_state c' = ss_state c"
    "Session_ReadMsg env (arrives w s) = Some (s', Inr (?code, b))" "ss_streams s' = ss_streams s" "drained s'" "flows c' s'"
    "ss_in c' = ss_in c" "compressing c'" "ss_out s' = ss_out s" "ss_state s' = ss_state s"
    by (rule raw_message_passes [OF d(1,3,4,5) send])
  let ?st = "readData ?code b (ss_streams s ! j)"
  let ?s1 = "s'\<lparr>ss_streams := (ss_streams s)[j := ?st]\<rparr>"
  have jl: "j < length (ss_streams s)" using getStream_sound [OF j] by simp
  have "?code \<notin> {pingMsg, pongMsg, discMsg}" using base by (auto simp: pingMsg_def pongMsg_def discMsg_def word_le_nat_alt)
  from recv_step_stream [OF w(5) this, of j] have step: "recv_step env (arrives w s) = Some (?s1, Inr True)" using j w(6) by simp
  have len: "length b < 2 ^ 32" using send by (simp add: sendable_def maxUint24_def)
  have q: "unread ?st = queued (ucast code, b) @ []" using clear same by (simp add: readData_queued)
  let ?st' = "?st\<lparr>st_recvBuf := Some [], st_recvNotifyCh := True\<rparr>"
  have read: "stream_ReadMsg ?st = Some (?st', Inr (b, ucast code))" by (rule stream_ReadMsg_queued [OF q len])
  let ?s2 = "?s1\<lparr>ss_streams := (ss_streams s)[j := ?st']\<rparr>"
  show ?thesis
  proof (rule that [OF _ w(2,3) step _ _ _ _ _ _ jl])
    show "Stream_WriteMsg env i code b c = Some (c', Inr ())" using w(1) by (simp add: Stream_WriteMsg_def)
    show "Stream_ReadMsg j ?s1 = Some (?s2, Inr (b, ucast code))" using read jl by (simp add: Stream_ReadMsg_def)
    show "ss_streams ?s2 = (ss_streams s)[j := ?st']" by simp
    show "duplex c' ?s2" using w d d' by (simp add: duplex_def linked_def flows_def drained_def compressing_def)
  qed (simp_all add: unread_def readData_def asyncNotify_def Let_def)
qed

end

section \<open>An instance\<close>

definition demo_spec :: ProtocolSpec where
  "demo_spec = \<lparr>ps_Name = ''eth'', ps_Version = 63, ps_Length = 17\<rparr>"

definition demo_info :: "bool \<Rightarrow> network_info" where
  "demo_info k = \<lparr>ni_Client = ''demo'', ni_Enode = \<lparr>en_ID = PubkeyToEnode (demo_point k), en_TCP = 0, en_UDP = 0, en_IP = []\<rparr>, ni_Capabilities = [demo_spec]\<rparr>"

lemma be_value_zeros: "be_value (replicate n 0) = 0"
  by (induction n) (simp_all add: be_value_def)

lemma demo_point_id: "PubkeyToEnode (demo_point k) \<noteq> replicate 64 0"
proof
  assume "PubkeyToEnode (demo_point k) = replicate 64 0"
  then have "take 32 (PubkeyToEnode (demo_point k)) = take 32 (replicate 64 0)" by simp
  then have "FillBytes 32 (pt_X (demo_point k)) = replicate 32 0" by (simp add: PubkeyToEnode_parts del: FillBytes.simps)
  moreover have "be_value (FillBytes 32 (pt_X (demo_point k))) = pt_X (demo_point k)" by (rule be_value_FillBytes) (simp add: demo_point_def)
  ultimately show False using be_value_zeros [of 32] by (simp add: demo_point_def split: if_splits)
qed

text \<open>Bounds for the length of an encoding.\<close>

lemma length_rlp_header: "n < 256 ^ 8 \<Longrightarrow> length (rlp_header off n) \<le> 9"
  using length_be_digits [of n 8] by (simp add: rlp_header_def)

lemma length_encode_Str: "length b \<le> n \<Longrightarrow> n < 2 ^ 60 \<Longrightarrow> length (rlp_encode (Str b)) \<le> 9 + n"
  using length_rlp_header [of "length b" 128] by simp

lemma length_encode_Items:
  assumes "sum_list (map (\<lambda>x. length (rlp_encode x)) xs) \<le> n" and "n < 2 ^ 60"
  shows "length (rlp_encode (Items xs)) \<le> 9 + n"
  using length_rlp_header [of "length (concat (map rlp_encode xs))" 192] assms
  by (simp add: Let_def length_concat o_def)

lemma demo_hello: "hello_ok demo_env k (networkInfoToLocalInfo (demo_info k))"
proof -
  have u: "length (rlp_encode (Str (be_digits (unat w)))) \<le> 9 + 8" for w :: uint64
    by (rule length_encode_Str [OF length_be_digits_uint64]) simp
  have c: "length (rlp_encode (Items [Str (bytes_of_string ''eth''), Str (be_digits (unat w))])) \<le> 9 + 29" for w :: uint64
    using u [of w] length_encode_Str [of "bytes_of_string ''eth''" 3] by (intro length_encode_Items) (simp_all add: bytes_of_string_def)
  have cs: "length (rlp_encode (Items [Items [Str (bytes_of_string ''eth''), Str (be_digits (unat w))]])) \<le> 9 + 38" for w :: uint64
    using c [of w] by (intro length_encode_Items) simp_all
  have i: "length (rlp_encode (Str (PubkeyToEnode (demo_point k)))) \<le> 9 + 64" by (rule length_encode_Str) simp_all
  have n: "length (rlp_encode (Str (bytes_of_string ''demo''))) \<le> 9 + 4" by (rule length_encode_Str) (simp_all add: bytes_of_string_def)
  have "length (rlp_encode (Items [Str (be_digits (unat v)), Str (bytes_of_string ''demo''),
      Items [Items [Str (bytes_of_string ''eth''), Str (be_digits (unat w))]], Str (be_digits (unat x)), Str (PubkeyToEnode (demo_point k))])) \<le> 9 + 167"
    for v w x :: uint64
    using u [of v] u [of x] cs [of w] i n by (intro length_encode_Items) (simp_all del: rlp_encode.simps)
  from this [of BaseProtocolVersion 63 0] have "length (Info_MarshalRLP rlp_ref (networkInfoToLocalInfo (demo_info k)) []) \<le> 176"
    by (simp add: Info_MarshalRLP_def Info_value_def Cap_value_def rlp_ref_def demo_spec_def networkInfoToLocalInfo_def demo_info_def del: rlp_encode.simps)
  moreover have "PublicKey demo_lib k = demo_point k" by (simp add: demo_lib_def)
  ultimately show ?thesis
    using demo_point_id [of k]
    by (simp add: hello_ok_def baseProtocolMaxMsgSize_def networkInfoToLocalInfo_def demo_info_def snappyProtocolVersion_def BaseProtocolVersion_def)
qed

section \<open>Properties\<close>

text \<open>Property C28. Two nodes open a session. One dials the other, each reads what the other wrote, and both run
  the encryption handshake, the exchange of hello messages and the negotiation; then neither fails nor panics, each knows the
  other's information and has opened the streams of the matching protocols, nothing is left unread, and in both directions what one end writes the
  other can decrypt and authenticate.\<close>

theorem sessions_open:
  assumes laws: "handshake_laws env view" and "can_draw dc" and "can_draw ds" and "signs_auth env dc kc ks" and "addr_ok ac" and "addr_ok as"
    and "hello_ok env kc (networkInfoToLocalInfo ic)" and "hello_ok env ks (networkInfoToLocalInfo is)"
    and "layout psc (info_Caps (networkInfoToLocalInfo is)) BaseProtocolLength \<noteq> []"
    and "layout pss (info_Caps (networkInfoToLocalInfo ic)) BaseProtocolLength \<noteq> []"
    and "Enode_PublicKey (rx_C env) node = Inr (PublicKey (rx_C env) ks)"
  shows "\<exists>toc tos c s.
    rlpx_connect env dc rfc 2 kc psc ic (pipe_to toc ac) node = Some (Inr c) \<and>
    rlpx_accept env ds rfs 2 ks pss is (pipe_to tos as) = Some (Inr s) \<and>
    opened c (concat tos) (networkInfoToLocalInfo is) psc \<and> opened s (concat toc) (networkInfoToLocalInfo ic) pss \<and> linked c s"
proof -
  obtain toc tos c s where run:
    "open_session env dc rfc 2 (rlpx_Client psc (pipe_to toc ac) kc (PublicKey (rx_C env) ks) (networkInfoToLocalInfo ic)) = Some (c, Inr ())"
    "open_session env ds rfs 2 (rlpx_Server pss (pipe_to tos as) ks (networkInfoToLocalInfo is)) = Some (s, Inr ())"
    "opened c (concat tos) (networkInfoToLocalInfo is) psc" "opened s (concat toc) (networkInfoToLocalInfo ic) pss" "linked c s"
    using handshake_laws.open_linked [OF laws assms(2-10), of rfc rfs] by blast
  then show ?thesis
    using assms(11) by (intro exI [of _ toc] exI [of _ tos] exI [of _ c] exI [of _ s]) (simp add: rlpx_connect_def rlpx_accept_def open_session_def)
qed

lemma demo_sessions:
  "can_draw (demo_draws k)" "signs_auth demo_env (demo_draws True) True False" "addr_ok ''pipe''" "PublicKey demo_lib k = demo_point k"
  "layout [demo_spec] (info_Caps (networkInfoToLocalInfo (demo_info k))) BaseProtocolLength = [NewStream 16 17 \<lparr>st_protocol := demo_spec\<rparr>]"
  "Enode_PublicKey demo_lib (ni_Enode (demo_info k)) = Inr (demo_point k)"
  using NodeIDToPubKey_PubkeyToEnode [OF demo.crypto_laws_axioms, of "demo_point k"]
  by (simp_all add: can_draw_def signs_auth_def demo_draws_def demo_ecies_def demo_lib_def addr_ok_def networkInfoToLocalInfo_def demo_info_def
      demo_spec_def BaseProtocolLength_def Enode_PublicKey_def on_curve_def demo_point_def)

theorem sessions_open_witness:
  "\<exists>toc tos c s.
    rlpx_connect demo_env (demo_draws True) False 2 True [demo_spec] (demo_info True) (pipe_to toc ''pipe'') (ni_Enode (demo_info False)) = Some (Inr c) \<and>
    rlpx_accept demo_env (demo_draws False) True 2 False [demo_spec] (demo_info False) (pipe_to tos ''pipe'') = Some (Inr s) \<and>
    has_sent c = concat tos \<and> has_sent s = concat toc \<and> linked c s"
proof -
  have "layout [demo_spec] (info_Caps (networkInfoToLocalInfo (demo_info k))) BaseProtocolLength \<noteq> []" for k by (simp add: demo_sessions)
  from sessions_open [OF demo_hs.handshake_laws_axioms demo_sessions(1) demo_sessions(1) demo_sessions(2) demo_sessions(3) demo_sessions(3)
      demo_hello demo_hello this this, unfolded demo_env_simps demo_sessions(4), OF demo_sessions(6)]
  show ?thesis using opened_drained by metis
qed


text \<open>Property C29. A message goes from stream to stream. What a protocol writes to its stream with \<open>WriteMsg\<close>, the
  receive loop of the other end puts into the stream that has the code, and \<open>ReadMsg\<close> there returns it, with the protocol's own code;
  this holds when both ends gave the stream the same offset. Afterwards the ends are still in step and nothing is unread.\<close>

theorem stream_message_delivered:
  assumes laws: "rlpx_laws env view" and duplex: "duplex c s"
    and send: "sendable env True (code + st_offset (ss_streams c ! i), b)" and base: "16 \<le> code + st_offset (ss_streams c ! i)"
    and j: "getStream (ss_streams s) (code + st_offset (ss_streams c ! i)) = Some j"
    and same: "st_offset (ss_streams s ! j) = st_offset (ss_streams c ! i)" and clear: "unread (ss_streams s ! j) = []"
  shows "\<exists>c' w s1 s2. Stream_WriteMsg env i code b c = Some (c', Inr ()) \<and> has_sent c' = has_sent c @ w \<and>
    recv_step env (arrives w s) = Some (s1, Inr True) \<and> Stream_ReadMsg j s1 = Some (s2, Inr (b, ucast code)) \<and>
    duplex c' s2 \<and> unread (ss_streams s2 ! j) = []"
proof -
  obtain c' w s1 s2 st where r: "Stream_WriteMsg env i code b c = Some (c', Inr ())" "has_sent c' = has_sent c @ w"
    "recv_step env (arrives w s) = Some (s1, Inr True)" "Stream_ReadMsg j s1 = Some (s2, Inr (b, ucast code))" "duplex c' s2"
    "ss_streams s2 = (ss_streams s)[j := st]" "unread st = []" "j < length (ss_streams s)"
    by (rule rlpx_laws.stream_passes [OF laws duplex send base j same clear])
  then show ?thesis by (intro exI [of _ c'] exI [of _ w] exI [of _ s1] exI [of _ s2]) simp
qed

text \<open>The two sessions of the instance.\<close>

lemma demo_linked:
  obtains toc tos c s where
    "rlpx_connect demo_env (demo_draws True) False 2 True [demo_spec] (demo_info True) (pipe_to toc ''pipe'') (ni_Enode (demo_info False)) = Some (Inr c)"
    "duplex c s"
    "ss_streams c = [NewStream 16 17 \<lparr>st_protocol := demo_spec\<rparr>]" "ss_streams s = [NewStream 16 17 \<lparr>st_protocol := demo_spec\<rparr>]"
proof -
  have m: "layout [demo_spec] (info_Caps (networkInfoToLocalInfo (demo_info k))) BaseProtocolLength \<noteq> []" for k by (simp add: demo_sessions)
  obtain toc tos c s where run:
    "open_session demo_env (demo_draws True) False 2 (rlpx_Client [demo_spec] (pipe_to toc ''pipe'') True (demo_point False) (networkInfoToLocalInfo (demo_info True))) = Some (c, Inr ())"
    "opened c (concat tos) (networkInfoToLocalInfo (demo_info False)) [demo_spec]" "opened s (concat toc) (networkInfoToLocalInfo (demo_info True)) [demo_spec]" "linked c s"
    using demo_hs.open_linked [OF demo_sessions(1) demo_sessions(1) demo_sessions(2) demo_sessions(3) demo_sessions(3)
      demo_hello demo_hello m m, unfolded demo_env_simps demo_sessions(4), of False] by blast
  show ?thesis
  proof (rule that)
    show "rlpx_connect demo_env (demo_draws True) False 2 True [demo_spec] (demo_info True) (pipe_to toc ''pipe'') (ni_Enode (demo_info False)) = Some (Inr c)"
      using run(1) by (simp add: rlpx_connect_def open_session_def demo_sessions(6))
  qed (use run(2-3) opened_duplex [OF run(2-4)] in \<open>auto simp: opened_def demo_sessions(5)\<close>)
qed

theorem stream_message_delivered_witness:
  "\<exists>c s c' w s1 s2. Stream_WriteMsg demo_env 0 3 [7, 8] c = Some (c', Inr ()) \<and> has_sent c' = has_sent c @ w \<and>
    recv_step demo_env (arrives w s) = Some (s1, Inr True) \<and> Stream_ReadMsg 0 s1 = Some (s2, Inr ([7, 8], 3))"
proof -
  obtain c s :: "bool Session" where l: "duplex c s"
    "ss_streams c = [NewStream 16 17 \<lparr>st_protocol := demo_spec\<rparr>]" "ss_streams s = [NewStream 16 17 \<lparr>st_protocol := demo_spec\<rparr>]"
    by (rule demo_linked)
  have "\<exists>c' w s1 s2. Stream_WriteMsg demo_env 0 3 [7, 8] c = Some (c', Inr ()) \<and> has_sent c' = has_sent c @ w \<and>
      recv_step demo_env (arrives w s) = Some (s1, Inr True) \<and> Stream_ReadMsg 0 s1 = Some (s2, Inr ([7, 8], 3))"
    using stream_message_delivered [OF demo_rlpx.rlpx_laws_axioms l(1), of 3 0 "[7, 8]" 0] l(2,3)
    by (auto simp: NewStream_def unread_def covers_def sendable_def stored_snappy_def maxUint24_def)
  then show ?thesis by blast
qed

text \<open>Property C32. Message codes after the negotiation. With the matching protocols' codes together below \<open>2^64\<close>, the negotiation gives
  every code from 16 up to the end of the last protocol to exactly one stream, and no other code to any; without a matching
  protocol it fails with \<open>errNoMatchingProtocols\<close>. It changes nothing but the streams.\<close>

theorem negotiated_codes:
  assumes "ss_remoteInfo s = Some info" and "ss_streams s = []" and "16 + total_length (ss_protocols s) (info_Caps info) < 2 ^ 64"
  shows "\<exists>streams. negotiateProtocols s = Some (s\<lparr>ss_streams := streams\<rparr>, if streams = [] then Inl NoMatchingProtocols else Inr ()) \<and>
    (streams = [] \<longleftrightarrow> (\<forall>c \<in> set (info_Caps info). getProtocol (ss_protocols s) (cap_Name c) (cap_Version c) = None)) \<and>
    (\<forall>code. case getStream streams code of
       None \<Rightarrow> unat code < 16 \<or> 16 + total_length (ss_protocols s) (info_Caps info) \<le> unat code
     | Some i \<Rightarrow> i < length streams \<and> covers (streams ! i) code \<and> 16 \<le> unat code \<and> (\<forall>j < length streams. covers (streams ! j) code \<longrightarrow> j = i))"
proof -
  let ?ps = "ss_protocols s" and ?L = "layout (ss_protocols s) (info_Caps info) BaseProtocolLength"
  have small: "unat BaseProtocolLength + total_length ?ps (info_Caps info) < 2 ^ 64" "unat BaseProtocolLength = 16"
    using assms(3) by (simp_all add: BaseProtocolLength_def)
  have "layout ps caps off = [] \<longleftrightarrow> (\<forall>c \<in> set caps. getProtocol ps (cap_Name c) (cap_Version c) = None)" for ps caps off
    by (induction caps) (auto split: option.splits)
  moreover have "case getStream ?L code of
       None \<Rightarrow> unat code < 16 \<or> 16 + total_length ?ps (info_Caps info) \<le> unat code
     | Some i \<Rightarrow> i < length ?L \<and> covers (?L ! i) code \<and> 16 \<le> unat code \<and> (\<forall>j < length ?L. covers (?L ! j) code \<longrightarrow> j = i)" for code
    using getStream_layout [OF small(1), of code] getStream_sound [of ?L code] layout_unique [OF small(1)] small(2)
    by (auto split: option.splits)
  ultimately show ?thesis using assms(1,2) by (intro exI [of _ ?L]) (simp add: negotiateProtocols_eq Let_def)
qed

theorem negotiated_codes_witness:
  "\<exists>(s :: bool Session) streams. negotiateProtocols s = Some (s\<lparr>ss_streams := streams\<rparr>, Inr ()) \<and> getStream streams 20 = Some 0 \<and> getStream streams 33 = None"
proof -
  let ?s = "rlpx_Server [demo_spec] (pipe_to [] []) True (networkInfoToLocalInfo (demo_info True)) \<lparr>ss_remoteInfo := Some (networkInfoToLocalInfo (demo_info False))\<rparr>"
  obtain streams where st: "negotiateProtocols ?s = Some (?s\<lparr>ss_streams := streams\<rparr>, if streams = [] then Inl NoMatchingProtocols else Inr ())"
    using negotiated_codes [of ?s "networkInfoToLocalInfo (demo_info False)"]
    by (auto simp: rlpx_Server_def networkInfoToLocalInfo_def demo_info_def demo_spec_def)
  then have "streams = [NewStream 16 17 \<lparr>st_protocol := demo_spec\<rparr>]"
    by (simp add: negotiateProtocols_eq rlpx_Server_def demo_sessions(5))
  with st show ?thesis by (intro exI [of _ ?s] exI [of _ streams]) (simp add: covers_def NewStream_def)
qed

text \<open>Property C30. Sessions stay well formed. From the opening of a session on, after any steps of its two loops, of the
  protocols on its streams, of calls to \<open>Disconnect\<close>, and of the network, in any order: the session is well formed (its two halves exist with buffers of the
  right size; its shutdown flag, shutdown channel and state agree; a session that is shut down has a reason and a closed connection),
  its streams have kept their ranges, and \<open>Disconnect\<close> returns and leaves it closed: the channel is never closed twice.\<close>

theorem session_typed:
  assumes laws: "rlpx_laws env view"
    and "rlpx_connect env d readFirst arrived priv backends info conn enode = Some (Inr s) \<or> rlpx_accept env d readFirst arrived priv backends info conn = Some (Inr s)"
    and "(sess_step env)\<^sup>*\<^sup>* s s'"
  shows "session_ok s' \<and> ranges s' = ranges s \<and> (\<exists>s''. Disconnect env reason s' = Some (s'', Inr ()) \<and> session_ok s'' \<and> Session_IsClosed s'')"
proof -
  have "session_ok s" using assms(2) by (auto intro: connect_ok accept_ok)
  then have ok: "session_ok s'" "ranges s' = ranges s"
    using rlpx_laws.sess_steps_kept [OF laws assms(3)] by (simp_all add: same_ranges_def)
  moreover have "\<exists>s''. Disconnect env reason s' = Some (s'', Inr ()) \<and> session_ok s'' \<and> ss_shutdown s''"
    using ok(1) rlpx_laws.Disconnect_closed [OF laws, of s' reason] rlpx_laws.Disconnect_open [OF laws ok(1), of reason] by (cases "ss_shutdown s'") blast+
  ultimately show ?thesis by (auto simp: session_ok_def Session_IsClosed_def)
qed

theorem session_typed_witness:
  "\<exists>s s' s'' :: bool Session. (sess_step demo_env)\<^sup>*\<^sup>* s s' \<and> session_ok s' \<and> Disconnect demo_env DiscQuitting s' = Some (s'', Inr ()) \<and> Session_IsClosed s''"
proof -
  obtain toc and c :: "bool Session" where c:
    "rlpx_connect demo_env (demo_draws True) False 2 True [demo_spec] (demo_info True) (pipe_to toc ''pipe'') (ni_Enode (demo_info False)) = Some (Inr c)"
    by (rule demo_linked)
  show ?thesis using session_typed [OF demo_rlpx.rlpx_laws_axioms disjI1 [OF c], of c DiscQuitting] by blast
qed

end
