(* ===== verification/GoHeap.thy ===== *)
theory GoHeap
  imports Prelude
begin

text \<open>
  The algorithms of Go's \<open>container/heap\<close>, over any state with the operations \<open>Less\<close> and
  \<open>Swap\<close> of \<open>heap.Interface\<close>. The locale \<open>heap_interface\<close> says what an implementation of that
  interface promises; inside it, sifting up and down restore the heap order.
\<close>

section \<open>The algorithms\<close>

text \<open>\<open>(j - 1) / 2\<close> is 0 for \<open>j = 0\<close> in Go too, where the division truncates.\<close>

definition parent :: "nat \<Rightarrow> nat" where
  "parent j = (j - 1) div 2"

function heap_up :: "('s \<Rightarrow> nat \<Rightarrow> nat \<Rightarrow> bool) \<Rightarrow> ('s \<Rightarrow> nat \<Rightarrow> nat \<Rightarrow> 's) \<Rightarrow> 's \<Rightarrow> nat \<Rightarrow> 's" where
  "heap_up Less Swap s j =
     (if parent j = j \<or> \<not> Less s j (parent j) then s
      else heap_up Less Swap (Swap s (parent j) j) (parent j))"
  by pat_completeness auto

termination
  by (relation "measure (\<lambda>(Less, Swap, s, j). j)") (auto simp: parent_def)

text \<open>The state after sifting down and the index where the element came to rest.\<close>

function heap_down ::
  "('s \<Rightarrow> nat \<Rightarrow> nat \<Rightarrow> bool) \<Rightarrow> ('s \<Rightarrow> nat \<Rightarrow> nat \<Rightarrow> 's) \<Rightarrow> 's \<Rightarrow> nat \<Rightarrow> nat \<Rightarrow> 's \<times> nat" where
  "heap_down Less Swap s i n =
     (if n \<le> 2 * i + 1 then (s, i)
      else let j = (if 2 * i + 2 < n \<and> Less s (2 * i + 2) (2 * i + 1) then 2 * i + 2 else 2 * i + 1)
           in if \<not> Less s j i then (s, i) else heap_down Less Swap (Swap s i j) j n)"
  by pat_completeness auto

termination
  by (relation "measure (\<lambda>(Less, Swap, s, i, n). n - i)") auto

declare heap_up.simps [simp del] heap_down.simps [simp del]

text \<open>The common end of \<open>Fix\<close> and \<open>Remove\<close>: sift down, and up if that did not move the element.\<close>

definition heap_sift ::
  "('s \<Rightarrow> nat \<Rightarrow> nat \<Rightarrow> bool) \<Rightarrow> ('s \<Rightarrow> nat \<Rightarrow> nat \<Rightarrow> 's) \<Rightarrow> 's \<Rightarrow> nat \<Rightarrow> nat \<Rightarrow> 's" where
  "heap_sift Less Swap s i n =
     (let (s', i') = heap_down Less Swap s i n in if i < i' then s' else heap_up Less Swap s' i)"

section \<open>What swaps preserve\<close>

lemma heap_up_invariant:
  assumes "P s" and "j < n" and "\<And>s a b. P s \<Longrightarrow> a < n \<Longrightarrow> b < n \<Longrightarrow> P (Swap s a b)"
  shows "P (heap_up Less Swap s j)"
  using assms
proof (induction Less Swap s j rule: heap_up.induct)
  case (1 Less Swap s j)
  show ?case
  proof (cases "parent j = j \<or> \<not> Less s j (parent j)")
    case True
    with 1 show ?thesis by (simp add: heap_up.simps [of Less Swap s])
  next
    case False
    have "parent j < n" using 1(3) by (simp add: parent_def)
    then have "P (heap_up Less Swap (Swap s (parent j) j) (parent j))"
      using 1 False by simp
    then show ?thesis using False by (simp add: heap_up.simps [of Less Swap s j])
  qed
qed

lemma heap_down_invariant:
  assumes "P s" and "i < n" and "n \<le> m" and "\<And>s a b. P s \<Longrightarrow> a < m \<Longrightarrow> b < m \<Longrightarrow> P (Swap s a b)"
  shows "P (fst (heap_down Less Swap s i n)) \<and> i \<le> snd (heap_down Less Swap s i n) \<and>
    snd (heap_down Less Swap s i n) < n"
  using assms
proof (induction Less Swap s i n rule: heap_down.induct)
  case (1 Less Swap s i n)
  define j where "j = (if 2 * i + 2 < n \<and> Less s (2 * i + 2) (2 * i + 1) then 2 * i + 2 else 2 * i + 1)"
  show ?case
  proof (cases "n \<le> 2 * i + 1 \<or> \<not> Less s j i")
    case True
    then have "heap_down Less Swap s i n = (s, i)"
      by (auto simp: heap_down.simps [of Less Swap s i n] j_def Let_def)
    with 1 show ?thesis by simp
  next
    case False
    then have j: "i < j" "j < n" by (auto simp: j_def)
    have "heap_down Less Swap s i n = heap_down Less Swap (Swap s i j) j n"
      using False by (simp add: heap_down.simps [of Less Swap s i n] j_def Let_def)
    moreover have "P (Swap s i j)" using 1(5) [OF 1(2)] j 1(3,4) by simp
    ultimately show ?thesis using 1(1) [OF _ j_def _ _ j(2) 1(4) 1(5)] False j by auto
  qed
qed

lemma heap_sift_invariant:
  assumes "P s" and "i < n" and "n \<le> m" and "\<And>s a b. P s \<Longrightarrow> a < m \<Longrightarrow> b < m \<Longrightarrow> P (Swap s a b)"
  shows "P (heap_sift Less Swap s i n)"
proof -
  obtain s' i' where d: "heap_down Less Swap s i n = (s', i')" by fastforce
  then have s': "P s'" using heap_down_invariant [of P s i n m Swap Less] assms by simp
  have "P (heap_up Less Swap s' i)"
    by (rule heap_up_invariant [where P = P and n = m]) (use s' assms in simp_all)
  with s' d show ?thesis by (simp add: heap_sift_def)
qed

section \<open>The interface\<close>

text \<open>\<open>keys\<close> is the array as \<open>Less\<close> sees it. \<open>Less\<close> is a strict weak order, \<open>Swap\<close> exchanges two
  positions.\<close>

locale heap_interface =
  fixes keys :: "'s \<Rightarrow> 'k list" and Less :: "'s \<Rightarrow> nat \<Rightarrow> nat \<Rightarrow> bool"
    and Swap :: "'s \<Rightarrow> nat \<Rightarrow> nat \<Rightarrow> 's" and lt :: "'k \<Rightarrow> 'k \<Rightarrow> bool"
  assumes Less_keys: "i < length (keys s) \<Longrightarrow> j < length (keys s) \<Longrightarrow>
      Less s i j \<longleftrightarrow> lt (keys s ! i) (keys s ! j)"
    and keys_Swap: "i < length (keys s) \<Longrightarrow> j < length (keys s) \<Longrightarrow>
      keys (Swap s i j) = (keys s)[i := keys s ! j, j := keys s ! i]"
    and lt_asym: "lt x y \<Longrightarrow> \<not> lt y x"
    and lt_negtrans: "\<not> lt x y \<Longrightarrow> \<not> lt y z \<Longrightarrow> \<not> lt x z"
begin

text \<open>The heap order at position \<open>c\<close>, and on the first \<open>n\<close> positions.\<close>

definition good :: "'k list \<Rightarrow> nat \<Rightarrow> bool" where
  "good k c \<longleftrightarrow> \<not> lt (k ! c) (k ! parent c)"

definition heap :: "nat \<Rightarrow> 'k list \<Rightarrow> bool" where
  "heap n k \<longleftrightarrow> (\<forall>c. 0 < c \<longrightarrow> c < n \<longrightarrow> good k c)"

text \<open>The heap order but for one position, with its children not below its parent.\<close>

definition below_ok :: "nat \<Rightarrow> 'k list \<Rightarrow> nat \<Rightarrow> bool" where
  "below_ok n k i \<longleftrightarrow> (\<forall>c. 0 < c \<longrightarrow> c < n \<longrightarrow> parent c = i \<longrightarrow> 0 < i \<longrightarrow> \<not> lt (k ! c) (k ! parent i))"

definition heap_but :: "nat \<Rightarrow> 'k list \<Rightarrow> nat \<Rightarrow> bool" where
  "heap_but n k i \<longleftrightarrow> (\<forall>c. 0 < c \<longrightarrow> c < n \<longrightarrow> c \<noteq> i \<longrightarrow> parent c \<noteq> i \<longrightarrow> good k c) \<and> below_ok n k i"

definition up_inv :: "nat \<Rightarrow> 'k list \<Rightarrow> nat \<Rightarrow> bool" where
  "up_inv n k j \<longleftrightarrow> (\<forall>c. 0 < c \<longrightarrow> c < n \<longrightarrow> c \<noteq> j \<longrightarrow> good k c) \<and> below_ok n k j"

definition down_inv :: "nat \<Rightarrow> 'k list \<Rightarrow> nat \<Rightarrow> bool" where
  "down_inv n k i \<longleftrightarrow> (\<forall>c. 0 < c \<longrightarrow> c < n \<longrightarrow> parent c \<noteq> i \<longrightarrow> good k c) \<and> below_ok n k i"

lemma lt_irrefl: "\<not> lt x x"
  using lt_asym by blast

lemma up_step:
  assumes inv: "up_inv n k j" and j: "j < n" "n \<le> length k" "0 < j" and less: "lt (k ! j) (k ! parent j)"
  shows "up_inv n (k[parent j := k ! j, j := k ! parent j]) (parent j)"
proof -
  let ?i = "parent j"
  define k' where "k' = k[parent j := k ! j, j := k ! parent j]"
  have i: "?i < j" using j(3) by (simp add: parent_def)
  have nth: "k' ! c = (if c = j then k ! ?i else if c = ?i then k ! j else k ! c)" if "c < n" for c
    using that j i by (simp add: k'_def nth_list_update)
  have old: "\<not> lt (k ! c) (k ! parent c)" if "0 < c" "c < n" "c \<noteq> j" for c
    using inv that by (simp add: up_inv_def good_def)
  have sub: "\<not> lt (k ! c) (k ! ?i)" if "0 < c" "c < n" "parent c = j" for c
    using inv that j(3) by (simp add: up_inv_def below_ok_def)
  have par: "parent c < n" if "c < n" for c using that by (simp add: parent_def)
  have ij: "\<not> lt (k ! ?i) (k ! j)" using less by (rule lt_asym)
  have "good k' c" if c: "0 < c" "c < n" "c \<noteq> ?i" for c
  proof -
    have pc: "parent c < c" using c(1) by (simp add: parent_def)
    consider "c = j" | "c \<noteq> j" "parent c = j" | "c \<noteq> j" "parent c = ?i" | "c \<noteq> j" "parent c \<noteq> j" "parent c \<noteq> ?i"
      by blast
    then show ?thesis
    proof cases
      case 1
      then show ?thesis using ij i j(1) by (simp add: good_def nth par)
    next
      case 2
      then show ?thesis using sub [OF c(1,2)] c i j(1) by (simp add: good_def nth par)
    next
      case 3
      then have "\<not> lt (k ! c) (k ! ?i)" using old [OF c(1,2)] by simp
      then have "\<not> lt (k ! c) (k ! j)" using ij by (rule lt_negtrans)
      then show ?thesis using 3 c i j(1) by (simp add: good_def nth par)
    next
      case 4
      then show ?thesis using old [OF c(1,2)] c by (simp add: good_def nth par)
    qed
  qed
  moreover have "\<not> lt (k' ! c) (k' ! parent ?i)" if c: "0 < c" "c < n" "parent c = ?i" "0 < ?i" for c
  proof -
    have pi: "parent ?i < ?i" using c(4) by (simp add: parent_def)
    have top: "\<not> lt (k ! ?i) (k ! parent ?i)" using old [of ?i] c(4) i j(1) by simp
    have ci: "c \<noteq> ?i" using c by (auto simp: parent_def)
    show ?thesis
    proof (cases "c = j")
      case True
      then show ?thesis using top pi i j(1) by (simp add: nth)
    next
      case False
      then have "\<not> lt (k ! c) (k ! ?i)" using old [OF c(1,2)] c(3) by simp
      then have "\<not> lt (k ! c) (k ! parent ?i)" using top by (rule lt_negtrans)
      then show ?thesis using False ci pi i j(1) c(2) by (simp add: nth)
    qed
  qed
  ultimately show ?thesis by (simp add: up_inv_def below_ok_def flip: k'_def)
qed

lemma heap_up_heap:
  assumes "up_inv n (keys s) j" and "j < n" and "n \<le> length (keys s)"
  shows "heap n (keys (heap_up Less Swap s j))"
  using assms
proof (induction j arbitrary: s rule: less_induct)
  case (less j)
  have p: "parent j < n" using less.prems(2) by (simp add: parent_def)
  have Less: "Less s j (parent j) \<longleftrightarrow> lt (keys s ! j) (keys s ! parent j)"
    using less.prems(2,3) p by (intro Less_keys) simp_all
  show ?case
  proof (cases "parent j = j \<or> \<not> Less s j (parent j)")
    case True
    have zero: "j = 0" if "parent j = j" using that by (cases j) (simp_all add: parent_def)
    have "good (keys s) c" if "0 < c" "c < n" for c
      using less.prems(1) that True Less zero by (cases "c = j") (auto simp: up_inv_def good_def)
    then show ?thesis using True by (simp add: heap_up.simps [of Less Swap s j] heap_def)
  next
    case False
    then have j: "0 < j" by (cases j) (simp_all add: parent_def)
    then have lt: "parent j < j" by (simp add: parent_def)
    have k: "keys (Swap s (parent j) j) = (keys s)[parent j := keys s ! j, j := keys s ! parent j]"
      using less.prems(2,3) p by (intro keys_Swap) simp_all
    have "up_inv n (keys (Swap s (parent j) j)) (parent j)"
      unfolding k using up_step [OF less.prems(1-3) j] False Less by simp
    then have "heap n (keys (heap_up Less Swap (Swap s (parent j) j) (parent j)))"
      using less.IH [OF lt] p less.prems(3) by (simp add: k)
    then show ?thesis using False by (simp add: heap_up.simps [of Less Swap s j])
  qed
qed

text \<open>Exchanging a position with its least child, which is below it.\<close>

lemma down_step:
  assumes inv: "heap_but n k i" and i: "i < n" "n \<le> length k"
    and j: "j < n" "parent j = i" "0 < j" and less: "lt (k ! j) (k ! i)"
    and least: "\<And>c. 0 < c \<Longrightarrow> c < n \<Longrightarrow> parent c = i \<Longrightarrow> \<not> lt (k ! c) (k ! j)"
  shows "down_inv n (k[i := k ! j, j := k ! i]) j"
proof -
  define k' where "k' = k[i := k ! j, j := k ! i]"
  have ij: "i < j" using j(2,3) by (auto simp: parent_def)
  have nth: "k' ! c = (if c = j then k ! i else if c = i then k ! j else k ! c)" if "c < n" for c
    using that i ij by (simp add: k'_def nth_list_update)
  have old: "\<not> lt (k ! c) (k ! parent c)" if "0 < c" "c < n" "c \<noteq> i" "parent c \<noteq> i" for c
    using inv that by (simp add: heap_but_def good_def)
  have sub: "\<not> lt (k ! c) (k ! parent i)" if "0 < c" "c < n" "parent c = i" "0 < i" for c
    using inv that by (simp add: heap_but_def below_ok_def)
  have par: "parent c < n" if "c < n" for c using that by (simp add: parent_def)
  have ji: "\<not> lt (k ! i) (k ! j)" using less by (rule lt_asym)
  have "good k' c" if c: "0 < c" "c < n" "parent c \<noteq> j" for c
  proof -
    have pc: "parent c < c" using c(1) by (simp add: parent_def)
    consider "c = j" | "c = i" | "c \<noteq> j" "c \<noteq> i" "parent c = i" | "c \<noteq> j" "c \<noteq> i" "parent c \<noteq> i" by blast
    then show ?thesis
    proof cases
      case 1
      then show ?thesis using ji ij j i by (simp add: good_def nth)
    next
      case 2
      then have "parent i \<noteq> i" "parent i \<noteq> j" "0 < i" using c pc ij by auto
      then show ?thesis using 2 sub [OF j(3,1,2)] ij i c by (simp add: good_def nth par)
    next
      case 3
      then show ?thesis using least [OF c(1,2)] ij i c by (simp add: good_def nth)
    next
      case 4
      then show ?thesis using old [OF c(1,2)] c by (simp add: good_def nth par)
    qed
  qed
  moreover have "\<not> lt (k' ! c) (k' ! parent j)" if c: "0 < c" "c < n" "parent c = j" for c
  proof -
    have "parent c < c" using c(1) by (simp add: parent_def)
    then have ne: "c \<noteq> j" "c \<noteq> i" "parent c \<noteq> i" using c(3) ij by auto
    then show ?thesis using old [OF c(1,2)] c(2,3) j(2) i(1) ij by (simp add: nth)
  qed
  ultimately show ?thesis by (simp add: down_inv_def below_ok_def flip: k'_def)
qed

text \<open>The child that sifting down compares with.\<close>

definition child :: "'s \<Rightarrow> nat \<Rightarrow> nat \<Rightarrow> nat" where
  "child s i n = (if 2 * i + 2 < n \<and> Less s (2 * i + 2) (2 * i + 1) then 2 * i + 2 else 2 * i + 1)"

lemma parent_eq: "0 < c \<Longrightarrow> parent c = i \<longleftrightarrow> c = 2 * i + 1 \<or> c = 2 * i + 2"
  by (auto simp: parent_def)

lemma child:
  assumes "\<not> n \<le> 2 * i + 1" and "n \<le> length (keys s)"
  shows "child s i n < n" "parent (child s i n) = i" "0 < child s i n" "i < child s i n"
    and "0 < c \<Longrightarrow> c < n \<Longrightarrow> parent c = i \<Longrightarrow> \<not> lt (keys s ! c) (keys s ! child s i n)"
    and "Less s (child s i n) i \<longleftrightarrow> lt (keys s ! child s i n) (keys s ! i)"
proof -
  show c: "child s i n < n" "parent (child s i n) = i" "0 < child s i n" "i < child s i n"
    using assms(1) by (auto simp: child_def parent_def)
  have "Less s (2 * i + 2) (2 * i + 1) \<longleftrightarrow> lt (keys s ! (2 * i + 2)) (keys s ! (2 * i + 1))" if "2 * i + 2 < n"
    using that assms(2) by (intro Less_keys) simp_all
  then show "0 < c \<Longrightarrow> c < n \<Longrightarrow> parent c = i \<Longrightarrow> \<not> lt (keys s ! c) (keys s ! child s i n)"
    by (auto simp: child_def parent_eq lt_irrefl lt_asym)
  show "Less s (child s i n) i \<longleftrightarrow> lt (keys s ! child s i n) (keys s ! i)"
    using c assms(2) by (intro Less_keys) simp_all
qed

lemma heap_down_stop:
  assumes "n \<le> 2 * i + 1 \<or> \<not> Less s (child s i n) i" and "n \<le> length (keys s)"
  shows "heap_down Less Swap s i n = (s, i)"
    and "0 < c \<Longrightarrow> c < n \<Longrightarrow> parent c = i \<Longrightarrow> good (keys s) c"
proof -
  show "heap_down Less Swap s i n = (s, i)"
    using assms(1) by (auto simp: heap_down.simps [of Less Swap s i n] child_def Let_def)
  assume c: "0 < c" "c < n" "parent c = i"
  then have n: "\<not> n \<le> 2 * i + 1" by (auto simp: parent_eq)
  note ch = child [OF n assms(2)]
  have "\<not> lt (keys s ! c) (keys s ! child s i n)" by (rule ch(5) [OF c])
  moreover have "\<not> lt (keys s ! child s i n) (keys s ! i)" using assms(1) n ch(6) by simp
  ultimately have "\<not> lt (keys s ! c) (keys s ! i)" by (rule lt_negtrans)
  then show "good (keys s) c" using c(3) by (simp add: good_def)
qed

lemma heap_down_step:
  assumes "\<not> n \<le> 2 * i + 1" and "Less s (child s i n) i"
  shows "heap_down Less Swap s i n = heap_down Less Swap (Swap s i (child s i n)) (child s i n) n"
  using assms by (simp add: heap_down.simps [of Less Swap s i n] child_def Let_def)

lemma down_inv_Swap:
  assumes "heap_but n (keys s) i" and "\<not> n \<le> 2 * i + 1" and "n \<le> length (keys s)"
    and "Less s (child s i n) i"
  shows "down_inv n (keys (Swap s i (child s i n))) (child s i n)"
    and "length (keys (Swap s i (child s i n))) = length (keys s)"
proof -
  note ch = child [OF assms(2,3)]
  have k: "keys (Swap s i (child s i n)) = (keys s)[i := keys s ! child s i n, child s i n := keys s ! i]"
    using ch(1,4) assms(3) by (intro keys_Swap) simp_all
  have i: "i < n" using assms(2) by simp
  have "lt (keys s ! child s i n) (keys s ! i)" using assms(4) ch(6) by simp
  from down_step [OF assms(1) i assms(3) ch(1-3) this ch(5)]
  show "down_inv n (keys (Swap s i (child s i n))) (child s i n)" unfolding k .
  show "length (keys (Swap s i (child s i n))) = length (keys s)" by (simp add: k)
qed

lemma down_inv_heap_but: "down_inv n k i \<Longrightarrow> heap_but n k i"
  by (simp add: down_inv_def heap_but_def)

lemma heap_down_heap:
  assumes "down_inv n (keys s) i" and "n \<le> length (keys s)"
  shows "heap n (keys (fst (heap_down Less Swap s i n)))"
  using assms
proof (induction "n - i" arbitrary: s i rule: less_induct)
  case (less i s)
  show ?case
  proof (cases "n \<le> 2 * i + 1 \<or> \<not> Less s (child s i n) i")
    case True
    note stop = heap_down_stop [OF True less.prems(2)]
    have "good (keys s) c" if "0 < c" "c < n" for c
      using less.prems(1) stop(2) that by (cases "parent c = i") (auto simp: down_inv_def)
    then show ?thesis by (simp add: stop(1) heap_def)
  next
    case False
    note inv = down_inv_Swap [OF down_inv_heap_but [OF less.prems(1)] _ less.prems(2)]
    have "n - child s i n < n - i" using child(1,4) [of n i s] False less.prems(2) by auto
    then have "heap n (keys (fst (heap_down Less Swap (Swap s i (child s i n)) (child s i n) n)))"
      using less.hyps inv False less.prems(2) by simp
    then show ?thesis using False by (simp add: heap_down_step)
  qed
qed

text \<open>After any change of one key, \<open>heap_sift\<close> restores the order.\<close>

lemma heap_sift_heap:
  assumes "heap_but n (keys s) i" and "i < n" and "n \<le> length (keys s)"
  shows "heap n (keys (heap_sift Less Swap s i n))"
proof (cases "n \<le> 2 * i + 1 \<or> \<not> Less s (child s i n) i")
  case True
  note stop = heap_down_stop [OF True assms(3)]
  have "good (keys s) c" if "0 < c" "c < n" "c \<noteq> i" for c
    using assms(1) stop(2) that by (cases "parent c = i") (auto simp: heap_but_def)
  then have "up_inv n (keys s) i" using assms(1) by (simp add: up_inv_def heap_but_def)
  then show ?thesis using heap_up_heap [OF _ assms(2,3)] by (simp add: heap_sift_def stop(1))
next
  case False
  let ?s = "Swap s i (child s i n)" and ?j = "child s i n"
  have inv: "down_inv n (keys ?s) ?j" "length (keys ?s) = length (keys s)"
    using down_inv_Swap [OF assms(1) _ assms(3)] False by simp_all
  have j: "i < ?j" "?j < n" using child(1,4) [of n i s] False assms(3) by auto
  have "?j \<le> snd (heap_down Less Swap ?s ?j n)"
    using heap_down_invariant [of "\<lambda>_. True" ?s ?j n n] j(2) by simp
  then show ?thesis
    using heap_down_heap [OF inv(1)] inv(2) assms(3) False j(1)
    by (simp add: heap_sift_def heap_down_step split: prod.split) auto
qed

lemma heap_but_change:
  assumes "heap n k" and "\<And>c. c < n \<Longrightarrow> c \<noteq> i \<Longrightarrow> k' ! c = k ! c" and "i < n"
  shows "heap_but n k' i"
proof -
  have par: "parent c < n" if "c < n" for c using that by (simp add: parent_def)
  have "good k' c" if "0 < c" "c < n" "c \<noteq> i" "parent c \<noteq> i" for c
    using assms(1,2) that par by (simp add: heap_def good_def)
  moreover have "\<not> lt (k' ! c) (k' ! parent i)" if c: "0 < c" "c < n" "parent c = i" "0 < i" for c
  proof -
    have ne: "c \<noteq> i" "parent i \<noteq> i" using c by (auto simp: parent_def)
    have "\<not> lt (k ! c) (k ! i)" "\<not> lt (k ! i) (k ! parent i)"
      using assms(1,3) c by (auto simp: heap_def good_def)
    then have "\<not> lt (k ! c) (k ! parent i)" by (rule lt_negtrans)
    then show ?thesis using assms(2,3) ne c(2) par by simp
  qed
  ultimately show ?thesis by (simp add: heap_but_def below_ok_def)
qed

lemma heap_append:
  assumes "heap (length k) k"
  shows "up_inv (Suc (length k)) (k @ [x]) (length k)"
proof -
  have par: "parent c < length k" if "c < length k" for c using that by (simp add: parent_def)
  have "c \<noteq> length k \<Longrightarrow> c < Suc (length k) \<Longrightarrow> 0 < c \<Longrightarrow> good (k @ [x]) c" for c
    using assms par by (simp add: heap_def good_def nth_append)
  then show ?thesis by (auto simp: up_inv_def below_ok_def parent_eq)
qed

lemma heap_prefix: "heap n k \<Longrightarrow> m \<le> n \<Longrightarrow> heap m k"
  by (simp add: heap_def)

lemma heap_take: "heap n k \<Longrightarrow> heap n (take n k)"
  by (simp add: heap_def good_def parent_def)

text \<open>The first key is a least one.\<close>

lemma heap_least:
  assumes "heap n k" and "c < n"
  shows "\<not> lt (k ! c) (k ! 0)"
  using assms(2)
proof (induction c rule: less_induct)
  case (less c)
  show ?case
  proof (cases "c = 0")
    case False
    then have "parent c < c" by (simp add: parent_def)
    with less have "\<not> lt (k ! parent c) (k ! 0)" by simp
    moreover have "\<not> lt (k ! c) (k ! parent c)" using assms(1) less.prems False by (simp add: heap_def good_def)
    ultimately show ?thesis using lt_negtrans by blast
  qed (simp add: lt_irrefl)
qed

end

end
