(* ===== verification/PeriodicHeap.thy ===== *)
theory PeriodicHeap
  imports GoHeap
begin

text \<open>
  The heap of scheduled jobs in \<open>periodic.go\<close>. The index map and the heap array share pointers to
  the \<open>periodicpJob\<close> structs, so the structs live in an explicit store: a reference is a number,
  \<open>ph_fresh\<close> is the next one to allocate. A job is represented by what its method \<open>ID\<close> returns.
\<close>

section \<open>Definitions\<close>

type_synonym Job = string

record pJob =
  job :: Job
  period :: duration

record periodicpJob =
  pp_id :: string
  pp_value :: pJob
  pp_next :: time
  pp_index :: int

type_synonym ref = nat

record periodicHeap =
  ph_index :: "string \<Rightarrow> ref option"
  ph_heap :: "ref list"
  ph_store :: "ref \<Rightarrow> periodicpJob"
  ph_fresh :: ref

datatype heap_error = JobAlreadyExists string | HeapDoesNotContain string

subsection \<open>The methods of \<open>periodicHeapImp\<close>\<close>

definition next_before :: "time \<Rightarrow> time \<Rightarrow> bool" where
  "next_before iNext jNext =
     (let iZero = iNext = 0; jZero = jNext = 0 in
      if iZero \<and> jZero then False
      else if iZero then False
      else if jZero then True
      else iNext < jNext)"

definition imp_Less :: "periodicHeap \<Rightarrow> nat \<Rightarrow> nat \<Rightarrow> bool" where
  "imp_Less h i j = next_before (pp_next (ph_store h (ph_heap h ! i))) (pp_next (ph_store h (ph_heap h ! j)))"

definition set_index :: "periodicHeap \<Rightarrow> ref \<Rightarrow> int \<Rightarrow> periodicHeap" where
  "set_index h r i = h\<lparr>ph_store := (ph_store h)(r := (ph_store h r)\<lparr>pp_index := i\<rparr>)\<rparr>"

definition imp_Swap :: "periodicHeap \<Rightarrow> nat \<Rightarrow> nat \<Rightarrow> periodicHeap" where
  "imp_Swap h i j =
     (let h = h\<lparr>ph_heap := (ph_heap h)[i := ph_heap h ! j, j := ph_heap h ! i]\<rparr>;
          h = set_index h (ph_heap h ! i) (int i)
      in set_index h (ph_heap h ! j) (int j))"

definition imp_Push :: "periodicHeap \<Rightarrow> ref \<Rightarrow> periodicHeap" where
  "imp_Push h x =
     (let n = length (ph_heap h); h = set_index h x (int n) in h\<lparr>ph_heap := ph_heap h @ [x]\<rparr>)"

text \<open>\<open>old[n-1]\<close> panics on an empty slice.\<close>

definition imp_Pop :: "periodicHeap \<Rightarrow> (ref \<times> periodicHeap) option" where
  "imp_Pop h =
     (let n = length (ph_heap h) in
      if n = 0 then None
      else let r = ph_heap h ! (n - 1); h = set_index h r (-1)
           in Some (r, h\<lparr>ph_heap := take (n - 1) (ph_heap h)\<rparr>))"

subsection \<open>\<open>container/heap\<close> on \<open>periodicHeapImp\<close>\<close>

definition heap_Push :: "periodicHeap \<Rightarrow> ref \<Rightarrow> periodicHeap" where
  "heap_Push h x = (let h = imp_Push h x in heap_up imp_Less imp_Swap h (length (ph_heap h) - 1))"

definition heap_Pop :: "periodicHeap \<Rightarrow> (ref \<times> periodicHeap) option" where
  "heap_Pop h =
     (if ph_heap h = [] then None
      else let n = length (ph_heap h) - 1; h = imp_Swap h 0 n
           in imp_Pop (fst (heap_down imp_Less imp_Swap h 0 n)))"

text \<open>
  The index of \<open>Remove\<close> and \<open>Fix\<close> is the one stored in the struct. Out of range, \<open>Remove\<close>
  panics; \<open>Fix\<close> panics unless its two loops end at once, which they do at index \<open>-1\<close> (an element that
  was popped) and at 0.
\<close>

definition heap_Remove :: "periodicHeap \<Rightarrow> int \<Rightarrow> (ref \<times> periodicHeap) option" where
  "heap_Remove h i =
     (if 0 \<le> i \<and> i < int (length (ph_heap h)) then
        let n = length (ph_heap h) - 1
        in imp_Pop (if n \<noteq> nat i then heap_sift imp_Less imp_Swap (imp_Swap h (nat i) n) (nat i) n else h)
      else None)"

definition heap_Fix :: "periodicHeap \<Rightarrow> int \<Rightarrow> periodicHeap option" where
  "heap_Fix h i =
     (if 0 \<le> i \<and> i < int (length (ph_heap h)) then
        Some (heap_sift imp_Less imp_Swap h (nat i) (length (ph_heap h)))
      else if i = 0 \<or> i = -1 then Some h else None)"

subsection \<open>The methods of \<open>periodicHeap\<close>\<close>

definition zero_job :: periodicpJob where
  "zero_job = \<lparr>pp_id = '''', pp_value = \<lparr>job = '''', period = 0\<rparr>, pp_next = 0, pp_index = 0\<rparr>"

definition newPeriodicHeap :: periodicHeap where
  "newPeriodicHeap = \<lparr>ph_index = Map.empty, ph_heap = [], ph_store = (\<lambda>_. zero_job), ph_fresh = 0\<rparr>"

definition periodicHeap_Push ::
  "periodicHeap \<Rightarrow> pJob \<Rightarrow> time \<Rightarrow> periodicHeap \<times> (heap_error + unit)" where
  "periodicHeap_Push p pj nxt =
     (if ph_index p (job pj) \<noteq> None then (p, Inl (JobAlreadyExists (job pj)))
      else let r = ph_fresh p;
               p = p\<lparr>ph_fresh := Suc r,
                     ph_store := (ph_store p)(r := \<lparr>pp_id = job pj, pp_value = pj, pp_next = nxt, pp_index = 0\<rparr>),
                     ph_index := (ph_index p)(job pj \<mapsto> r)\<rparr>
           in (heap_Push p r, Inr ()))"

definition periodicHeap_Pop :: "periodicHeap \<Rightarrow> (periodicpJob option \<times> periodicHeap) option" where
  "periodicHeap_Pop p =
     (if ph_heap p = [] then Some (None, p)
      else do {
        (r, p) \<leftarrow> heap_Pop p;
        let pp = ph_store p r;
        Some (Some pp, p\<lparr>ph_index := (ph_index p)(pp_id pp := None)\<rparr>)
      })"

definition periodicHeap_Peek :: "periodicHeap \<Rightarrow> periodicpJob option" where
  "periodicHeap_Peek p = (if ph_heap p = [] then None else Some (ph_store p (ph_heap p ! 0)))"

definition periodicHeap_Contains :: "periodicHeap \<Rightarrow> string \<Rightarrow> bool" where
  "periodicHeap_Contains p i = (ph_index p i \<noteq> None)"

definition periodicHeap_Update ::
  "periodicHeap \<Rightarrow> string \<Rightarrow> time \<Rightarrow> (periodicHeap \<times> (heap_error + unit)) option" where
  "periodicHeap_Update p i nxt =
     (case ph_index p i of
        Some r \<Rightarrow> do {
          let p = p\<lparr>ph_store := (ph_store p)(r := (ph_store p r)\<lparr>pp_id := i, pp_next := nxt\<rparr>)\<rparr>;
          p \<leftarrow> heap_Fix p (pp_index (ph_store p r));
          Some (p, Inr ())
        }
      | None \<Rightarrow> Some (p, Inl (HeapDoesNotContain i)))"

definition periodicHeap_Remove :: "periodicHeap \<Rightarrow> string \<Rightarrow> (periodicHeap \<times> (heap_error + unit)) option" where
  "periodicHeap_Remove p i =
     (case ph_index p i of
        Some r \<Rightarrow> do {
          (_, p) \<leftarrow> heap_Remove p (pp_index (ph_store p r));
          Some (p\<lparr>ph_index := (ph_index p)(i := None)\<rparr>, Inr ())
        }
      | None \<Rightarrow> Some (p, Inl (HeapDoesNotContain i)))"

definition periodicHeap_Length :: "periodicHeap \<Rightarrow> nat" where
  "periodicHeap_Length p = length (ph_heap p)"

section \<open>The implementation of \<open>heap.Interface\<close>\<close>

definition ph_keys :: "periodicHeap \<Rightarrow> time list" where
  "ph_keys h = map (\<lambda>r. pp_next (ph_store h r)) (ph_heap h)"

lemma length_ph_keys [simp]: "length (ph_keys h) = length (ph_heap h)"
  by (simp add: ph_keys_def)

lemma set_index_fields [simp]:
  "ph_index (set_index h r i) = ph_index h" "ph_heap (set_index h r i) = ph_heap h"
  "ph_fresh (set_index h r i) = ph_fresh h"
  "pp_id (ph_store (set_index h r i) q) = pp_id (ph_store h q)"
  "pp_value (ph_store (set_index h r i) q) = pp_value (ph_store h q)"
  "pp_next (ph_store (set_index h r i) q) = pp_next (ph_store h q)"
  "pp_index (ph_store (set_index h r i) q) = (if q = r then i else pp_index (ph_store h q))"
  by (simp_all add: set_index_def)

lemma imp_Swap_fields [simp]:
  "ph_index (imp_Swap h i j) = ph_index h" "ph_fresh (imp_Swap h i j) = ph_fresh h"
  "ph_heap (imp_Swap h i j) = (ph_heap h)[i := ph_heap h ! j, j := ph_heap h ! i]"
  "pp_id (ph_store (imp_Swap h i j) q) = pp_id (ph_store h q)"
  "pp_value (ph_store (imp_Swap h i j) q) = pp_value (ph_store h q)"
  "pp_next (ph_store (imp_Swap h i j) q) = pp_next (ph_store h q)"
  by (simp_all add: imp_Swap_def Let_def)

lemma next_before_iff: "next_before a b \<longleftrightarrow> a \<noteq> 0 \<and> (b = 0 \<or> a < b)"
  by (auto simp: next_before_def Let_def)

interpretation pheap: heap_interface ph_keys imp_Less imp_Swap next_before
proof
  fix i j h assume "i < length (ph_keys h)" "j < length (ph_keys h)"
  then show "imp_Less h i j \<longleftrightarrow> next_before (ph_keys h ! i) (ph_keys h ! j)"
    and "ph_keys (imp_Swap h i j) = (ph_keys h)[i := ph_keys h ! j, j := ph_keys h ! i]"
    by (simp_all add: ph_keys_def imp_Less_def map_update)
qed (auto simp: next_before_iff)

section \<open>The invariant\<close>

text \<open>The structs of the array know their positions; the index map leads exactly to the structs of the
  array; the array is a heap.\<close>

definition positions_ok :: "periodicHeap \<Rightarrow> bool" where
  "positions_ok h \<longleftrightarrow> distinct (ph_heap h) \<and>
     (\<forall>i < length (ph_heap h). pp_index (ph_store h (ph_heap h ! i)) = int i)"

definition linked :: "periodicHeap \<Rightarrow> bool" where
  "linked h \<longleftrightarrow> (\<forall>i r. ph_index h i = Some r \<longleftrightarrow> r \<in> set (ph_heap h) \<and> pp_id (ph_store h r) = i) \<and>
     (\<forall>r \<in> set (ph_heap h). job (pp_value (ph_store h r)) = pp_id (ph_store h r) \<and> r < ph_fresh h)"

definition heap_ok :: "periodicHeap \<Rightarrow> bool" where
  "heap_ok h \<longleftrightarrow> positions_ok h \<and> linked h \<and> pheap.heap (length (ph_heap h)) (ph_keys h)"

text \<open>What the heap is for: a map from identifiers to jobs and the times they are due.\<close>

definition scheduled :: "periodicHeap \<Rightarrow> string \<Rightarrow> (pJob \<times> time) option" where
  "scheduled h i = map_option (\<lambda>r. (pp_value (ph_store h r), pp_next (ph_store h r))) (ph_index h i)"

text \<open>Two heaps that differ in the order of the array and the positions only.\<close>

definition reordered :: "periodicHeap \<Rightarrow> periodicHeap \<Rightarrow> bool" where
  "reordered h h' \<longleftrightarrow> set (ph_heap h') = set (ph_heap h) \<and> length (ph_heap h') = length (ph_heap h) \<and>
     ph_index h' = ph_index h \<and> ph_fresh h' = ph_fresh h \<and>
     (\<forall>q. pp_id (ph_store h' q) = pp_id (ph_store h q) \<and> pp_value (ph_store h' q) = pp_value (ph_store h q) \<and>
          pp_next (ph_store h' q) = pp_next (ph_store h q))"

lemma reordered_refl [simp]: "reordered h h"
  by (simp add: reordered_def)

lemma reordered_scheduled: "reordered h h' \<Longrightarrow> scheduled h' = scheduled h"
  by (simp add: reordered_def scheduled_def fun_eq_iff)

lemma reordered_linked: "reordered h h' \<Longrightarrow> linked h' = linked h"
  by (simp add: reordered_def linked_def)

lemma positions_imp_Swap:
  assumes "positions_ok h" and "i < length (ph_heap h)" and "j < length (ph_heap h)"
  shows "positions_ok (imp_Swap h i j)"
proof -
  define xs where "xs = (ph_heap h)[i := ph_heap h ! j, j := ph_heap h ! i]"
  have d: "distinct xs" and len: "length xs = length (ph_heap h)"
    using assms by (simp_all add: xs_def positions_ok_def distinct_swap)
  have ix: "pp_index (ph_store (imp_Swap h i j) q) =
      (if q = xs ! j then int j else if q = xs ! i then int i else pp_index (ph_store h q))" for q
    by (simp add: imp_Swap_def Let_def xs_def)
  have "pp_index (ph_store (imp_Swap h i j) (xs ! k)) = int k" if k: "k < length xs" for k
  proof (cases "k = j \<or> k = i")
    case True
    then show ?thesis using ix d len assms(2,3) nth_eq_iff_index_eq [OF d] by auto
  next
    case False
    then have "xs ! k = ph_heap h ! k" by (simp add: xs_def)
    moreover have "xs ! k \<noteq> xs ! j" "xs ! k \<noteq> xs ! i"
      using False k len assms(2,3) nth_eq_iff_index_eq [OF d] by simp_all
    ultimately show ?thesis using ix k len assms(1) by (simp add: positions_ok_def)
  qed
  then show ?thesis using d by (simp add: positions_ok_def flip: xs_def)
qed

text \<open>The invariant of every sequence of swaps below \<open>m\<close>, which leave the rest of the array alone.\<close>

definition swaps_inv :: "periodicHeap \<Rightarrow> nat \<Rightarrow> periodicHeap \<Rightarrow> bool" where
  "swaps_inv h m h' \<longleftrightarrow> positions_ok h' \<and> reordered h h' \<and> drop m (ph_heap h') = drop m (ph_heap h)"

lemma swaps_inv_start: "positions_ok h \<Longrightarrow> swaps_inv h m h"
  by (simp add: swaps_inv_def)

lemma swaps_inv_Swap:
  assumes "m \<le> length (ph_heap h)" and "swaps_inv h m h'" and "a < m" and "b < m"
  shows "swaps_inv h m (imp_Swap h' a b)"
proof -
  have "a < length (ph_heap h')" "b < length (ph_heap h')"
    using assms by (simp_all add: swaps_inv_def reordered_def)
  then show ?thesis
    using assms positions_imp_Swap [of h' a b]
    by (simp add: swaps_inv_def reordered_def)
qed

lemma swaps_inv_up:
  assumes "m \<le> length (ph_heap h)" and "positions_ok h" and "j < m"
  shows "swaps_inv h m (heap_up imp_Less imp_Swap h j)"
  by (rule heap_up_invariant [where P = "swaps_inv h m" and n = m])
    (use assms in \<open>auto intro: swaps_inv_start swaps_inv_Swap\<close>)

lemma swaps_inv_sift:
  assumes "m \<le> length (ph_heap h)" and "positions_ok h" and "i < m"
  shows "swaps_inv h m (heap_sift imp_Less imp_Swap h i m)"
  by (rule heap_sift_invariant [where P = "swaps_inv h m" and m = m])
    (use assms in \<open>auto intro: swaps_inv_start swaps_inv_Swap\<close>)

lemma swaps_inv_down:
  assumes "m \<le> length (ph_heap h)" and "positions_ok h"
  shows "swaps_inv h m (fst (heap_down imp_Less imp_Swap h 0 m))"
proof (cases "0 < m")
  case True
  then show ?thesis
    using heap_down_invariant [of "swaps_inv h m" h 0 m m imp_Swap imp_Less] assms
      swaps_inv_Swap [OF assms(1)] swaps_inv_start [OF assms(2)] by blast
next
  case False
  then show ?thesis using assms by (simp add: heap_down.simps swaps_inv_def)
qed

lemma drop_last_one: "length xs = Suc n \<Longrightarrow> drop n xs = [xs ! n]"
  by (metis Cons_nth_drop_Suc drop_all lessI order_refl)

lemma reordered_trans: "reordered a b \<Longrightarrow> reordered b c \<Longrightarrow> reordered a c"
  by (simp add: reordered_def)

lemma reordered_Swap:
  "i < length (ph_heap h) \<Longrightarrow> j < length (ph_heap h) \<Longrightarrow> reordered h (imp_Swap h i j)"
  by (simp add: reordered_def)

lemma imp_Pop_ok:
  assumes "positions_ok h" and "ph_heap h \<noteq> []"
  obtains h' where "imp_Pop h = Some (last (ph_heap h), h')" "positions_ok h'"
    "ph_heap h' = butlast (ph_heap h)" "ph_index h' = ph_index h" "ph_fresh h' = ph_fresh h"
    "\<And>q. pp_id (ph_store h' q) = pp_id (ph_store h q)"
    "\<And>q. pp_value (ph_store h' q) = pp_value (ph_store h q)"
    "\<And>q. pp_next (ph_store h' q) = pp_next (ph_store h q)"
proof -
  let ?n = "length (ph_heap h) - 1" and ?r = "last (ph_heap h)"
  let ?h = "(set_index h ?r (-1))\<lparr>ph_heap := butlast (ph_heap h)\<rparr>"
  have last: "ph_heap h ! ?n = ?r" using assms(2) by (simp add: last_conv_nth)
  have "imp_Pop h = Some (?r, ?h)"
    using assms(2) last by (simp add: imp_Pop_def Let_def butlast_conv_take)
  moreover have "ph_heap h ! i \<noteq> ?r" if "i < ?n" for i
    using assms(1) that nth_eq_iff_index_eq [of "ph_heap h" i ?n]
    by (simp add: positions_ok_def flip: last)
  then have "positions_ok ?h"
    using assms(1) by (simp add: positions_ok_def distinct_butlast nth_butlast)
  ultimately show ?thesis by (rule that) simp_all
qed

text \<open>Taking out the struct at the end of a reordered array and forgetting its identifier.\<close>

lemma take_out_last:
  assumes "linked h" and "reordered h h2" and "positions_ok h2" and "ph_heap h2 \<noteq> []"
    and "pheap.heap (length (ph_heap h2) - 1) (ph_keys h2)" and "last (ph_heap h2) = r"
  obtains h3 where "imp_Pop h2 = Some (r, h3)"
    "heap_ok (h3\<lparr>ph_index := (ph_index h3)(pp_id (ph_store h r) := None)\<rparr>)"
    "scheduled (h3\<lparr>ph_index := (ph_index h3)(pp_id (ph_store h r) := None)\<rparr>) =
      (scheduled h)(pp_id (ph_store h r) := None)"
    "pp_id (ph_store h3 r) = pp_id (ph_store h r)" "pp_value (ph_store h3 r) = pp_value (ph_store h r)"
    "pp_next (ph_store h3 r) = pp_next (ph_store h r)"
proof -
  obtain h3 where h3: "imp_Pop h2 = Some (r, h3)" "positions_ok h3"
    "ph_heap h3 = butlast (ph_heap h2)" "ph_index h3 = ph_index h2" "ph_fresh h3 = ph_fresh h2"
    "\<And>q. pp_id (ph_store h3 q) = pp_id (ph_store h2 q)"
    "\<And>q. pp_value (ph_store h3 q) = pp_value (ph_store h2 q)"
    "\<And>q. pp_next (ph_store h3 q) = pp_next (ph_store h2 q)"
    using imp_Pop_ok [OF assms(3,4)] assms(6) by metis
  let ?i = "pp_id (ph_store h r)"
  let ?h = "h3\<lparr>ph_index := (ph_index h3)(?i := None)\<rparr>"
  have fields: "ph_index h3 = ph_index h" "ph_fresh h3 = ph_fresh h"
    "\<And>q. pp_id (ph_store h3 q) = pp_id (ph_store h q)"
    "\<And>q. pp_value (ph_store h3 q) = pp_value (ph_store h q)"
    "\<And>q. pp_next (ph_store h3 q) = pp_next (ph_store h q)"
    using h3(4-8) assms(2) by (simp_all add: reordered_def)
  have "ph_heap h2 = butlast (ph_heap h2) @ [r]" using assms(4,6) append_butlast_last_id by metis
  then have "set (ph_heap h) = insert r (set (ph_heap h3))" "r \<notin> set (ph_heap h3)"
    using assms(2,3) h3(3) unfolding reordered_def positions_ok_def
    by (metis list.simps(15) rotate1.simps(2) set_rotate1, metis distinct_append disjoint_insert(1) list.simps(15) inf.commute)
  then have r: "q \<in> set (ph_heap h3) \<longleftrightarrow> q \<in> set (ph_heap h) \<and> q \<noteq> r" for q by blast
  have uniq: "q = r" if "q \<in> set (ph_heap h)" "pp_id (ph_store h q) = ?i" for q
    using assms(1) that \<open>set (ph_heap h) = insert r (set (ph_heap h3))\<close>
    unfolding linked_def by (metis insertI1 option.inject)
  have "linked ?h"
    using assms(1) uniq unfolding linked_def by (auto simp: fields r)
  moreover have "ph_keys ?h = take (length (ph_heap h2) - 1) (ph_keys h2)"
    using h3(3,8) by (simp add: ph_keys_def butlast_conv_take take_map)
  then have "pheap.heap (length (ph_heap ?h)) (ph_keys ?h)"
    using pheap.heap_take [OF assms(5)] h3(3) by simp
  moreover have "positions_ok ?h" using h3(2) by (simp add: positions_ok_def)
  ultimately have "heap_ok ?h" by (simp add: heap_ok_def)
  moreover have "scheduled ?h = (scheduled h)(?i := None)"
    by (auto simp: scheduled_def fun_eq_iff fields)
  ultimately show ?thesis using that [OF h3(1)] fields by simp
qed

section \<open>The operations on the heap\<close>

lemma heap_okD:
  assumes "heap_ok h"
  shows "positions_ok h" "linked h" "pheap.heap (length (ph_heap h)) (ph_keys h)" "distinct (ph_heap h)"
  using assms by (simp_all add: heap_ok_def positions_ok_def)

lemma linkedD:
  assumes "linked h"
  shows "ph_index h i = Some r \<Longrightarrow> r \<in> set (ph_heap h) \<and> pp_id (ph_store h r) = i"
    and "r \<in> set (ph_heap h) \<Longrightarrow> ph_index h (pp_id (ph_store h r)) = Some r"
    and "r \<in> set (ph_heap h) \<Longrightarrow> job (pp_value (ph_store h r)) = pp_id (ph_store h r)"
  using assms by (auto simp: linked_def)

lemma newPeriodicHeap_ok: "heap_ok newPeriodicHeap" "scheduled newPeriodicHeap = Map.empty"
  by (auto simp: newPeriodicHeap_def heap_ok_def positions_ok_def linked_def scheduled_def pheap.heap_def)

lemma Push_ok:
  assumes "heap_ok h" and "ph_index h (job pj) = None"
  obtains h' where "periodicHeap_Push h pj nxt = (h', Inr ())" "heap_ok h'"
    "scheduled h' = (scheduled h)(job pj \<mapsto> (pj, nxt))"
proof -
  note ok = heap_okD [OF assms(1)]
  let ?r = "ph_fresh h" and ?n = "length (ph_heap h)"
  let ?pp = "\<lparr>pp_id = job pj, pp_value = pj, pp_next = nxt, pp_index = 0\<rparr>"
  define h1 where "h1 = imp_Push (h\<lparr>ph_fresh := Suc ?r, ph_store := (ph_store h)(?r := ?pp),
      ph_index := (ph_index h)(job pj \<mapsto> ?r)\<rparr>) ?r"
  have new: "?r \<notin> set (ph_heap h)" using ok(2) by (auto simp: linked_def)
  have fields: "ph_heap h1 = ph_heap h @ [?r]" "ph_index h1 = (ph_index h)(job pj \<mapsto> ?r)" "ph_fresh h1 = Suc ?r"
    "pp_id (ph_store h1 q) = (if q = ?r then job pj else pp_id (ph_store h q))"
    "pp_value (ph_store h1 q) = (if q = ?r then pj else pp_value (ph_store h q))"
    "pp_next (ph_store h1 q) = (if q = ?r then nxt else pp_next (ph_store h q))"
    "pp_index (ph_store h1 q) = (if q = ?r then int ?n else pp_index (ph_store h q))" for q
    by (simp_all add: h1_def imp_Push_def Let_def)
  have "ph_heap h ! i \<noteq> ?r" if "i < ?n" for i using new nth_mem [OF that] by auto
  then have pos: "positions_ok h1"
    using ok(1) new by (auto simp: positions_ok_def fields nth_append less_Suc_eq)
  have other: "pp_id (ph_store h r) \<noteq> job pj" if "r \<in> set (ph_heap h)" for r
    using linkedD(2) [OF ok(2) that] assms(2) by auto
  have lnk: "linked h1"
    using ok(2) new other unfolding linked_def by (auto simp: fields)
  have "ph_keys h1 = ph_keys h @ [nxt]"
    using new by (auto simp: ph_keys_def fields)
  then have up: "pheap.up_inv (Suc ?n) (ph_keys h1) ?n" "Suc ?n \<le> length (ph_keys h1)"
    using pheap.heap_append [of "ph_keys h" nxt] ok(3) by simp_all
  let ?h = "heap_up imp_Less imp_Swap h1 ?n"
  have inv: "swaps_inv h1 (Suc ?n) ?h" by (rule swaps_inv_up) (simp_all add: fields pos)
  have "pheap.heap (Suc ?n) (ph_keys ?h)" using pheap.heap_up_heap [OF up(1) _ up(2)] by simp
  then have "heap_ok ?h"
    using inv lnk reordered_linked [of h1 ?h] by (simp add: heap_ok_def swaps_inv_def reordered_def fields)
  moreover have "scheduled ?h = scheduled h1" using inv reordered_scheduled by (simp add: swaps_inv_def)
  moreover have "scheduled h1 = (scheduled h)(job pj \<mapsto> (pj, nxt))"
  proof
    fix i
    have "ph_index h i \<noteq> Some ?r" using new linkedD(1) [OF ok(2)] by blast
    then show "scheduled h1 i = ((scheduled h)(job pj \<mapsto> (pj, nxt))) i"
      by (cases "ph_index h i") (auto simp: scheduled_def fields)
  qed
  moreover have "periodicHeap_Push h pj nxt = (?h, Inr ())"
    using assms(2) by (simp add: periodicHeap_Push_def heap_Push_def Let_def fields flip: h1_def)
  ultimately show ?thesis using that by simp
qed

text \<open>The position of a scheduled struct.\<close>

lemma index_position:
  assumes "heap_ok h" and "ph_index h i = Some r"
  obtains k where "k < length (ph_heap h)" "ph_heap h ! k = r" "pp_index (ph_store h r) = int k"
    "pp_id (ph_store h r) = i"
proof -
  note r = linkedD(1) [OF heap_okD(2) [OF assms(1)] assms(2)]
  then obtain k where k: "k < length (ph_heap h)" "ph_heap h ! k = r" by (auto simp: in_set_conv_nth)
  then have "pp_index (ph_store h r) = int k" using heap_okD(1) [OF assms(1)] by (auto simp: positions_ok_def)
  with k r show ?thesis by (intro that) auto
qed

lemma Update_heap_ok:
  assumes "heap_ok h" and "ph_index h i = Some r"
  obtains h' where "periodicHeap_Update h i nxt = Some (h', Inr ())" "heap_ok h'"
    "scheduled h' = (scheduled h)(i \<mapsto> (pp_value (ph_store h r), nxt))"
proof -
  note ok = heap_okD [OF assms(1)]
  obtain k where k: "k < length (ph_heap h)" "ph_heap h ! k = r" "pp_index (ph_store h r) = int k"
    "pp_id (ph_store h r) = i" by (rule index_position [OF assms])
  let ?n = "length (ph_heap h)"
  define h1 where "h1 = h\<lparr>ph_store := (ph_store h)(r := (ph_store h r)\<lparr>pp_id := i, pp_next := nxt\<rparr>)\<rparr>"
  have fields: "ph_heap h1 = ph_heap h" "ph_index h1 = ph_index h" "ph_fresh h1 = ph_fresh h"
    "pp_id (ph_store h1 q) = pp_id (ph_store h q)" "pp_value (ph_store h1 q) = pp_value (ph_store h q)"
    "pp_next (ph_store h1 q) = (if q = r then nxt else pp_next (ph_store h q))"
    "pp_index (ph_store h1 q) = pp_index (ph_store h q)" for q
    using k(4) by (simp_all add: h1_def)
  have pos: "positions_ok h1" using ok(1) by (simp add: positions_ok_def fields)
  have lnk: "linked h1" using ok(2) by (simp add: linked_def fields)
  have "ph_keys h1 ! c = ph_keys h ! c" if "c < ?n" "c \<noteq> k" for c
    using that k nth_eq_iff_index_eq [OF ok(4)] by (auto simp: ph_keys_def fields)
  then have but: "pheap.heap_but ?n (ph_keys h1) k" by (rule pheap.heap_but_change [OF ok(3) _ k(1)])
  let ?h = "heap_sift imp_Less imp_Swap h1 k ?n"
  have inv: "swaps_inv h1 ?n ?h" by (rule swaps_inv_sift) (simp_all add: fields pos k(1))
  have "pheap.heap ?n (ph_keys ?h)" using pheap.heap_sift_heap [OF but k(1)] by (simp add: fields)
  then have "heap_ok ?h"
    using inv lnk reordered_linked [of h1 ?h] by (simp add: heap_ok_def swaps_inv_def reordered_def fields)
  moreover have "scheduled ?h = scheduled h1" using inv reordered_scheduled by (simp add: swaps_inv_def)
  moreover have "scheduled h1 = (scheduled h)(i \<mapsto> (pp_value (ph_store h r), nxt))"
  proof
    fix j
    have "ph_index h j = Some r \<longleftrightarrow> j = i" using linkedD(1) [OF ok(2), of j r] assms(2) k(4) by auto
    then show "scheduled h1 j = ((scheduled h)(i \<mapsto> (pp_value (ph_store h r), nxt))) j"
      by (cases "ph_index h j") (auto simp: scheduled_def fields)
  qed
  moreover have "heap_Fix h1 (int k) = Some ?h" using k(1) by (simp add: heap_Fix_def fields)
  then have "periodicHeap_Update h i nxt = Some (?h, Inr ())"
    using assms(2) k(3) by (simp add: periodicHeap_Update_def Let_def fields flip: h1_def)
  ultimately show ?thesis using that by simp
qed

lemma Remove_heap_ok:
  assumes "heap_ok h" and "ph_index h i = Some r"
  obtains h' where "periodicHeap_Remove h i = Some (h', Inr ())" "heap_ok h'"
    "scheduled h' = (scheduled h)(i := None)"
proof -
  note ok = heap_okD [OF assms(1)]
  obtain k where k: "k < length (ph_heap h)" "ph_heap h ! k = r" "pp_index (ph_store h r) = int k"
    "pp_id (ph_store h r) = i" by (rule index_position [OF assms])
  have ne: "ph_heap h \<noteq> []" using k(1) by auto
  then obtain n where n: "length (ph_heap h) = Suc n" by (cases "ph_heap h") auto
  define h2 where "h2 = (if n \<noteq> k then heap_sift imp_Less imp_Swap (imp_Swap h k n) k n else h)"
  have h2: "reordered h h2 \<and> positions_ok h2 \<and> last (ph_heap h2) = r \<and> pheap.heap n (ph_keys h2)"
  proof (cases "n = k")
    case True
    then have "h2 = h" by (simp add: h2_def)
    then show ?thesis using ok ne n k(2) True pheap.heap_prefix [OF ok(3), of n] by (simp add: last_conv_nth)
  next
    case False
    let ?h = "imp_Swap h k n"
    have kn: "k < n" "n < length (ph_heap h)" using False k(1) n by auto
    have keys: "ph_keys ?h = (ph_keys h)[k := ph_keys h ! n, n := ph_keys h ! k]"
      using kn by (intro pheap.keys_Swap) simp_all
    have but: "pheap.heap_but n (ph_keys ?h) k"
      using kn n by (intro pheap.heap_but_change [OF pheap.heap_prefix [OF ok(3)]]) (simp_all add: keys)
    have inv: "swaps_inv ?h n h2"
      using False kn positions_imp_Swap [OF ok(1)] by (simp add: h2_def swaps_inv_sift)
    have "pheap.heap n (ph_keys h2)"
      using pheap.heap_sift_heap [OF but kn(1)] False kn by (simp add: h2_def)
    moreover have "reordered h h2"
      using reordered_trans [OF reordered_Swap [of k h n]] kn inv by (simp add: swaps_inv_def)
    moreover have "drop n (ph_heap h2) = [r]"
      using inv kn k(2) n drop_last_one [of "ph_heap ?h" n] by (simp add: swaps_inv_def)
    then have "last (ph_heap h2) = r" by (metis last_ConsL last_drop drop_eq_Nil not_le neq_Nil_conv)
    ultimately show ?thesis using inv by (simp add: swaps_inv_def)
  qed
  then have ne2: "ph_heap h2 \<noteq> []" "length (ph_heap h2) = length (ph_heap h)" using ne by (auto simp: reordered_def)
  obtain h3 where h3: "imp_Pop h2 = Some (r, h3)" "heap_ok (h3\<lparr>ph_index := (ph_index h3)(i := None)\<rparr>)"
    "scheduled (h3\<lparr>ph_index := (ph_index h3)(i := None)\<rparr>) = (scheduled h)(i := None)"
    using take_out_last [OF ok(2), of h2 r] h2 ne2 k(4) n by (simp, blast)
  have "heap_Remove h (int k) = Some (r, h3)"
    using k(1) h3(1) n by (simp add: heap_Remove_def Let_def h2_def split: if_splits)
  then show ?thesis using that h3(2,3) assms(2) k(3) by (simp add: periodicHeap_Remove_def)
qed

lemma keys_scheduled:
  assumes "heap_ok h" and "scheduled h i = Some (v, t)"
  obtains k where "k < length (ph_heap h)" "ph_keys h ! k = t"
proof -
  obtain r where r: "ph_index h i = Some r" "pp_next (ph_store h r) = t"
    using assms(2) by (auto simp: scheduled_def)
  obtain k where "k < length (ph_heap h)" "ph_heap h ! k = r"
    by (rule index_position [OF assms(1) r(1)])
  with r(2) show ?thesis by (intro that [of k]) (simp_all add: ph_keys_def)
qed

text \<open>The first struct of the array is scheduled, and none is due before it.\<close>

lemma first_least:
  assumes "heap_ok h" and "ph_heap h \<noteq> []" and "pp = ph_store h (ph_heap h ! 0)"
  shows "scheduled h (pp_id pp) = Some (pp_value pp, pp_next pp)" "job (pp_value pp) = pp_id pp"
    and "scheduled h i = Some (v, t) \<Longrightarrow> \<not> next_before t (pp_next pp)"
proof -
  note ok = heap_okD [OF assms(1)]
  have first: "ph_heap h ! 0 \<in> set (ph_heap h)" using assms(2) by simp
  show "scheduled h (pp_id pp) = Some (pp_value pp, pp_next pp)" "job (pp_value pp) = pp_id pp"
    using linkedD(2,3) [OF ok(2) first] assms(3) by (simp_all add: scheduled_def)
  assume "scheduled h i = Some (v, t)"
  then obtain k where "k < length (ph_heap h)" "ph_keys h ! k = t" by (rule keys_scheduled [OF assms(1)])
  then show "\<not> next_before t (pp_next pp)"
    using pheap.heap_least [OF ok(3), of k] assms(2,3) by (simp add: ph_keys_def)
qed

lemma heap_but_root: "pheap.heap_but n k 0 \<Longrightarrow> pheap.down_inv n k 0"
  by (simp add: pheap.heap_but_def pheap.down_inv_def)

lemma Pop_heap_ok:
  assumes "heap_ok h" and "ph_heap h \<noteq> []" and "pp = ph_store h (ph_heap h ! 0)"
  obtains pp' h' where "periodicHeap_Pop h = Some (Some pp', h')" "heap_ok h'"
    "pp_id pp' = pp_id pp" "pp_value pp' = pp_value pp" "pp_next pp' = pp_next pp"
    "scheduled h' = (scheduled h)(pp_id pp := None)"
proof -
  note ok = heap_okD [OF assms(1)]
  let ?r = "ph_heap h ! 0"
  obtain n where n: "length (ph_heap h) = Suc n" using assms(2) by (cases "ph_heap h") auto
  let ?h = "imp_Swap h 0 n"
  define h2 where "h2 = fst (heap_down imp_Less imp_Swap ?h 0 n)"
  have keys: "ph_keys ?h = (ph_keys h)[0 := ph_keys h ! n, n := ph_keys h ! 0]"
    using n by (intro pheap.keys_Swap) simp_all
  have hp: "pheap.heap n (ph_keys h2)"
  proof (cases "n = 0")
    case False
    have "pheap.heap_but n (ph_keys ?h) 0"
      using False n by (intro pheap.heap_but_change [OF pheap.heap_prefix [OF ok(3)]]) (simp_all add: keys)
    then show ?thesis using pheap.heap_down_heap [OF heap_but_root] n by (simp add: h2_def)
  qed (simp add: pheap.heap_def)
  have inv: "swaps_inv ?h n h2"
    unfolding h2_def using n positions_imp_Swap [OF ok(1), of 0 n] by (intro swaps_inv_down) simp_all
  have re: "reordered h h2"
    using reordered_trans [OF reordered_Swap [of 0 h n]] n inv by (simp add: swaps_inv_def)
  have "drop n (ph_heap h2) = [?r]"
    using inv n drop_last_one [of "ph_heap ?h" n] by (simp add: swaps_inv_def)
  then have "last (ph_heap h2) = ?r" by (metis last_ConsL last_drop drop_eq_Nil not_le neq_Nil_conv)
  moreover have ne: "ph_heap h2 \<noteq> []" "length (ph_heap h2) = Suc n" using re n by (auto simp: reordered_def)
  ultimately obtain h3 where h3: "imp_Pop h2 = Some (?r, h3)"
    "heap_ok (h3\<lparr>ph_index := (ph_index h3)(pp_id (ph_store h ?r) := None)\<rparr>)"
    "scheduled (h3\<lparr>ph_index := (ph_index h3)(pp_id (ph_store h ?r) := None)\<rparr>) =
      (scheduled h)(pp_id (ph_store h ?r) := None)"
    "pp_id (ph_store h3 ?r) = pp_id (ph_store h ?r)" "pp_value (ph_store h3 ?r) = pp_value (ph_store h ?r)"
    "pp_next (ph_store h3 ?r) = pp_next (ph_store h ?r)"
    using take_out_last [OF ok(2) re _ ne(1), of ?r] inv hp unfolding swaps_inv_def by (simp, blast)
  have "heap_Pop h = Some (?r, h3)" using assms(2) h3(1) n by (simp add: heap_Pop_def Let_def h2_def)
  then show ?thesis
    using that [of "ph_store h3 ?r"] h3(2-) assms(2,3) by (simp add: periodicHeap_Pop_def Let_def)
qed

section \<open>Properties\<close>

lemma scheduled_index: "ph_index h i = None \<longleftrightarrow> scheduled h i = None"
  by (simp add: scheduled_def)

definition sample_heap :: periodicHeap where
  "sample_heap = fst (periodicHeap_Push newPeriodicHeap \<lparr>job = ''a'', period = 5\<rparr> 7)"

lemma sample_heap_ok: "heap_ok sample_heap" "scheduled sample_heap = [''a'' \<mapsto> (\<lparr>job = ''a'', period = 5\<rparr>, 7)]"
proof -
  let ?pj = "\<lparr>job = ''a'', period = 5\<rparr>"
  have none: "ph_index newPeriodicHeap (job ?pj) = None" by (simp add: newPeriodicHeap_def)
  obtain h where "periodicHeap_Push newPeriodicHeap ?pj 7 = (h, Inr ())" "heap_ok h"
    "scheduled h = (scheduled newPeriodicHeap)(job ?pj \<mapsto> (?pj, 7))"
    by (rule Push_ok [OF newPeriodicHeap_ok(1) none])
  then show "heap_ok sample_heap" "scheduled sample_heap = [''a'' \<mapsto> (?pj, 7)]"
    by (simp_all add: sample_heap_def newPeriodicHeap_ok(2))
qed

text \<open>Property C10. The heap of jobs implements a map from identifiers to jobs and due times. On a
  well-formed heap no operation panics, the heap stays well-formed, \<open>Push\<close> adds a job whose
  identifier is new and otherwise fails without any change, \<open>Update\<close> changes the due time of a
  scheduled job, \<open>Remove\<close> takes a job out, and both fail without any change on an identifier that
  is not scheduled.\<close>

theorem periodicHeap_refines_map:
  assumes "heap_ok h"
  shows "(case periodicHeap_Push h pj t of (h', r) \<Rightarrow> heap_ok h' \<and>
      (if scheduled h (job pj) = None
       then r = Inr () \<and> scheduled h' = (scheduled h)(job pj \<mapsto> (pj, t))
       else r = Inl (JobAlreadyExists (job pj)) \<and> h' = h)) \<and>
    (\<exists>h' r. periodicHeap_Update h i t = Some (h', r) \<and> heap_ok h' \<and>
      (case scheduled h i of
         Some (v, _) \<Rightarrow> r = Inr () \<and> scheduled h' = (scheduled h)(i \<mapsto> (v, t))
       | None \<Rightarrow> r = Inl (HeapDoesNotContain i) \<and> h' = h)) \<and>
    (\<exists>h' r. periodicHeap_Remove h i = Some (h', r) \<and> heap_ok h' \<and> scheduled h' = (scheduled h)(i := None) \<and>
      r = (if scheduled h i = None then Inl (HeapDoesNotContain i) else Inr ()))"
proof (intro conjI)
  show "case periodicHeap_Push h pj t of (h', r) \<Rightarrow> heap_ok h' \<and>
      (if scheduled h (job pj) = None
       then r = Inr () \<and> scheduled h' = (scheduled h)(job pj \<mapsto> (pj, t))
       else r = Inl (JobAlreadyExists (job pj)) \<and> h' = h)"
  proof (cases "ph_index h (job pj)")
    case None
    obtain h' where "periodicHeap_Push h pj t = (h', Inr ())" "heap_ok h'"
      "scheduled h' = (scheduled h)(job pj \<mapsto> (pj, t))" by (rule Push_ok [OF assms None])
    then show ?thesis using None by (simp add: scheduled_index)
  next
    case (Some r)
    then show ?thesis using assms by (simp add: periodicHeap_Push_def scheduled_def)
  qed
  show "\<exists>h' r. periodicHeap_Update h i t = Some (h', r) \<and> heap_ok h' \<and>
      (case scheduled h i of
         Some (v, _) \<Rightarrow> r = Inr () \<and> scheduled h' = (scheduled h)(i \<mapsto> (v, t))
       | None \<Rightarrow> r = Inl (HeapDoesNotContain i) \<and> h' = h)"
  proof (cases "ph_index h i")
    case None
    then show ?thesis using assms by (simp add: periodicHeap_Update_def scheduled_def)
  next
    case (Some r)
    obtain h' where "periodicHeap_Update h i t = Some (h', Inr ())" "heap_ok h'"
      "scheduled h' = (scheduled h)(i \<mapsto> (pp_value (ph_store h r), t))"
      by (rule Update_heap_ok [OF assms Some])
    then show ?thesis using Some by (intro exI [of _ h'] exI [of _ "Inr ()"]) (simp add: scheduled_def [of h])
  qed
  show "\<exists>h' r. periodicHeap_Remove h i = Some (h', r) \<and> heap_ok h' \<and> scheduled h' = (scheduled h)(i := None) \<and>
      r = (if scheduled h i = None then Inl (HeapDoesNotContain i) else Inr ())"
  proof (cases "ph_index h i")
    case None
    then show ?thesis using assms by (simp add: periodicHeap_Remove_def scheduled_def fun_eq_iff)
  next
    case (Some r)
    obtain h' where "periodicHeap_Remove h i = Some (h', Inr ())" "heap_ok h'"
      "scheduled h' = (scheduled h)(i := None)"
      by (rule Remove_heap_ok [OF assms Some])
    then show ?thesis using Some by (simp add: scheduled_def [of h])
  qed
qed

theorem periodicHeap_refines_map_witness:
  "heap_ok sample_heap \<and> (\<exists>h'. periodicHeap_Remove sample_heap ''a'' = Some (h', Inr ()) \<and> scheduled h' = Map.empty)"
  using sample_heap_ok periodicHeap_refines_map [OF sample_heap_ok(1), of "\<lparr>job = ''a'', period = 5\<rparr>" 7 "''a''"]
  by auto

text \<open>\<open>Peek\<close> and \<open>Pop\<close> on a well-formed heap answer nil exactly when nothing is scheduled.
  Otherwise both give a scheduled job that no scheduled job is due before, where a zero time
  counts as never; \<open>Peek\<close> leaves the heap as it is and \<open>Pop\<close> takes exactly that job out.\<close>

theorem periodicHeap_least:
  assumes "heap_ok h"
  shows "case periodicHeap_Peek h of
      None \<Rightarrow> scheduled h = Map.empty \<and> periodicHeap_Pop h = Some (None, h)
    | Some pp \<Rightarrow> scheduled h (pp_id pp) = Some (pp_value pp, pp_next pp) \<and>
        (\<forall>i v t. scheduled h i = Some (v, t) \<longrightarrow> t = 0 \<or> (pp_next pp \<noteq> 0 \<and> pp_next pp \<le> t)) \<and>
        (\<exists>pp' h'. periodicHeap_Pop h = Some (Some pp', h') \<and> heap_ok h' \<and>
           pp_id pp' = pp_id pp \<and> pp_value pp' = pp_value pp \<and> pp_next pp' = pp_next pp \<and>
           scheduled h' = (scheduled h)(pp_id pp := None))"
proof (cases "ph_heap h = []")
  case True
  then have "ph_index h i = None" for i
    using linkedD(1) [OF heap_okD(2) [OF assms]] by (cases "ph_index h i") auto
  with True show ?thesis by (simp add: periodicHeap_Peek_def periodicHeap_Pop_def scheduled_def fun_eq_iff)
next
  case False
  let ?pp = "ph_store h (ph_heap h ! 0)"
  note least = first_least [OF assms False refl]
  have "t = 0 \<or> (pp_next ?pp \<noteq> 0 \<and> pp_next ?pp \<le> t)" if "scheduled h i = Some (v, t)" for i v t
    using least(3) [OF that] by (auto simp: next_before_iff)
  moreover obtain pp' h' where "periodicHeap_Pop h = Some (Some pp', h')" "heap_ok h'"
    "pp_id pp' = pp_id ?pp" "pp_value pp' = pp_value ?pp" "pp_next pp' = pp_next ?pp"
    "scheduled h' = (scheduled h)(pp_id ?pp := None)"
    by (rule Pop_heap_ok [OF assms False refl])
  ultimately show ?thesis using least(1) False by (simp add: periodicHeap_Peek_def)
qed

theorem periodicHeap_least_witness: "\<exists>pp. periodicHeap_Peek sample_heap = Some pp \<and> pp_next pp = 7"
proof (cases "periodicHeap_Peek sample_heap")
  case None
  then show ?thesis using periodicHeap_least [OF sample_heap_ok(1)] by (simp add: sample_heap_ok(2))
next
  case (Some pp)
  then show ?thesis
    using periodicHeap_least [OF sample_heap_ok(1)] by (auto simp: sample_heap_ok(2) split: if_splits)
qed

end
