(* ===== verification/Periodic.thy ===== *)
theory Periodic
  imports PeriodicHeap
begin

text \<open>
  The dispatcher of \<open>periodic.go\<close>: the jobs it tracks, the operations under its lock, and the
  goroutine \<open>run\<close> that waits for the next job. Goroutines that execute \<open>run\<close> are in
  \<open>d_runs\<close>, each either at the top of its loop, blocked in its select statement or returned. The
  two buffered channels are the list of buffered jobs and the number of buffered signals; a
  channel made for cancellation is a number, \<open>d_closed\<close> has those that were closed.
\<close>

section \<open>Definitions\<close>

text \<open>A goroutine in the select statement has evaluated its three channels: the cancellation channel
  it saw and the time of \<open>launchCh\<close>, where the zero time is the nil channel.\<close>

datatype run_state = RunTop | RunSelect "pJob option" time "nat option" | RunDone

record Dispatcher =
  d_heap :: periodicHeap
  d_tracked :: "string \<Rightarrow> pJob option"
  d_enabled :: bool
  d_eventCh :: "Job list"
  d_updateCh :: nat
  d_cancelCh :: "nat option"
  d_closed :: "nat list"
  d_chans :: nat
  d_runs :: "run_state list"

definition NewDispatcher :: Dispatcher where
  "NewDispatcher = \<lparr>d_heap = newPeriodicHeap, d_tracked = Map.empty, d_enabled = False, d_eventCh = [],
     d_updateCh = 0, d_cancelCh = None, d_closed = [], d_chans = 0, d_runs = []\<rparr>"

definition Events :: "Dispatcher \<Rightarrow> Job list" where
  "Events p = d_eventCh p"

definition Contains :: "Dispatcher \<Rightarrow> string \<Rightarrow> bool" where
  "Contains p i = (d_tracked p i \<noteq> None)"

text \<open>The non-blocking sends on the update channel (capacity 1) and the event channel (capacity 10).\<close>

definition signal_update :: "Dispatcher \<Rightarrow> Dispatcher" where
  "signal_update p = (if d_updateCh p < 1 then p\<lparr>d_updateCh := d_updateCh p + 1\<rparr> else p)"

definition send_event :: "Dispatcher \<Rightarrow> Job \<Rightarrow> Dispatcher" where
  "send_event p j = (if length (d_eventCh p) < 10 then p\<lparr>d_eventCh := d_eventCh p @ [j]\<rparr> else p)"

definition Add :: "Dispatcher \<Rightarrow> Job \<Rightarrow> duration \<Rightarrow> time \<Rightarrow> Dispatcher \<times> (heap_error + unit)" where
  "Add p jb prd now =
     (let pj = \<lparr>job = jb, period = prd\<rparr>;
          p = p\<lparr>d_tracked := (d_tracked p)(job pj \<mapsto> pj)\<rparr>;
          (h, r) = periodicHeap_Push (d_heap p) pj (now + period pj);
          p = p\<lparr>d_heap := h\<rparr>
      in case r of Inl e \<Rightarrow> (p, Inl e) | Inr _ \<Rightarrow> (signal_update p, Inr ()))"

text \<open>\<open>close\<close> panics on a nil channel and on a closed one.\<close>

definition SetEnabled :: "Dispatcher \<Rightarrow> bool \<Rightarrow> Dispatcher option" where
  "SetEnabled p enabled =
     (let wasRunning = d_enabled p; p = p\<lparr>d_enabled := enabled\<rparr> in
      if \<not> enabled \<and> wasRunning then
        (case d_cancelCh p of
           None \<Rightarrow> None
         | Some c \<Rightarrow> if c \<in> set (d_closed p) then None else Some (p\<lparr>d_closed := c # d_closed p\<rparr>))
      else if enabled \<and> \<not> wasRunning then
        Some (p\<lparr>d_cancelCh := Some (d_chans p), d_chans := Suc (d_chans p), d_runs := d_runs p @ [RunTop]\<rparr>)
      else Some p)"

datatype dispatcher_error = FailedToRemove string heap_error

definition Dispatcher_Remove :: "Dispatcher \<Rightarrow> string \<Rightarrow> (Dispatcher \<times> (dispatcher_error + unit)) option" where
  "Dispatcher_Remove p value =
     (case d_tracked p value of
        None \<Rightarrow> Some (p, Inr ())
      | Some pj \<Rightarrow> do {
          let p = p\<lparr>d_tracked := (d_tracked p)(value := None)\<rparr>;
          (h, r) \<leftarrow> periodicHeap_Remove (d_heap p) (job pj);
          let p = p\<lparr>d_heap := h\<rparr>;
          (case r of
             Inl e \<Rightarrow> Some (p, Inl (FailedToRemove value e))
           | Inr _ \<Rightarrow> Some (signal_update p, Inr ()))
        })"

text \<open>The jobs tracked, in the unspecified order in which Go ranges over a map.\<close>

definition Tracked :: "Dispatcher \<Rightarrow> Job set" where
  "Tracked p = job ` ran (d_tracked p)"

definition nextLaunch :: "Dispatcher \<Rightarrow> pJob option \<times> time" where
  "nextLaunch p =
     (if periodicHeap_Length (d_heap p) = 0 then (None, 0)
      else case periodicHeap_Peek (d_heap p) of
          None \<Rightarrow> (None, 0)
        | Some pp \<Rightarrow> (Some (pp_value pp), pp_next pp))"

text \<open>The error of \<open>heap.Update\<close> is ignored.\<close>

definition dispatch :: "Dispatcher \<Rightarrow> pJob \<Rightarrow> time \<Rightarrow> Dispatcher option" where
  "dispatch p pj launch = do {
     (h, _) \<leftarrow> periodicHeap_Update (d_heap p) (job pj) (launch + period pj);
     Some (send_event (p\<lparr>d_heap := h\<rparr>) (job pj))
   }"

subsection \<open>The loop of \<open>run\<close>\<close>

definition set_run :: "Dispatcher \<Rightarrow> nat \<Rightarrow> run_state \<Rightarrow> Dispatcher" where
  "set_run p k r = p\<lparr>d_runs := (d_runs p)[k := r]\<rparr>"

definition run_wait :: "Dispatcher \<Rightarrow> nat \<Rightarrow> Dispatcher" where
  "run_wait p k = (let (pj, launch) = nextLaunch p in set_run p k (RunSelect pj launch (d_cancelCh p)))"

definition run_cancel :: "Dispatcher \<Rightarrow> nat \<Rightarrow> Dispatcher" where
  "run_cancel p k = set_run p k RunDone"

definition run_update :: "Dispatcher \<Rightarrow> nat \<Rightarrow> Dispatcher" where
  "run_update p k = set_run (p\<lparr>d_updateCh := d_updateCh p - 1\<rparr>) k RunTop"

definition run_launch :: "Dispatcher \<Rightarrow> nat \<Rightarrow> pJob \<Rightarrow> time \<Rightarrow> Dispatcher option" where
  "run_launch p k pj launch = do { p \<leftarrow> dispatch p pj launch; Some (set_run p k RunTop) }"

text \<open>One operation of a client, or one step of one of the goroutines. \<open>launchCh\<close> is ready once its
  time has come; a launch with a nil job cannot happen, since its time is zero.\<close>

inductive disp_step :: "Dispatcher \<Rightarrow> Dispatcher \<Rightarrow> bool" where
  do_add: "Add p jb prd now = (p', r) \<Longrightarrow> disp_step p p'"
| do_remove: "Dispatcher_Remove p i = Some (p', r) \<Longrightarrow> disp_step p p'"
| do_enable: "SetEnabled p b = Some p' \<Longrightarrow> disp_step p p'"
| do_receive: "d_eventCh p = j # js \<Longrightarrow> disp_step p (p\<lparr>d_eventCh := js\<rparr>)"
| do_wait: "k < length (d_runs p) \<Longrightarrow> d_runs p ! k = RunTop \<Longrightarrow> disp_step p (run_wait p k)"
| do_cancel: "k < length (d_runs p) \<Longrightarrow> d_runs p ! k = RunSelect pj launch (Some c) \<Longrightarrow>
    c \<in> set (d_closed p) \<Longrightarrow> disp_step p (run_cancel p k)"
| do_update: "k < length (d_runs p) \<Longrightarrow> d_runs p ! k = RunSelect pj launch c \<Longrightarrow>
    0 < d_updateCh p \<Longrightarrow> disp_step p (run_update p k)"
| do_launch: "k < length (d_runs p) \<Longrightarrow> d_runs p ! k = RunSelect (Some pj) launch c \<Longrightarrow> launch \<noteq> 0 \<Longrightarrow>
    launch \<le> now \<Longrightarrow> run_launch p k pj launch = Some p' \<Longrightarrow> disp_step p p'"

inductive_cases disp_stepE: "disp_step p p'"

section \<open>The invariant\<close>

definition run_ok :: "run_state \<Rightarrow> bool" where
  "run_ok r \<longleftrightarrow> (case r of RunSelect None launch _ \<Rightarrow> launch = 0 | _ \<Rightarrow> True)"

definition disp_ok :: "Dispatcher \<Rightarrow> bool" where
  "disp_ok p \<longleftrightarrow> heap_ok (d_heap p) \<and> dom (d_tracked p) = dom (scheduled (d_heap p)) \<and>
     (\<forall>i pj. d_tracked p i = Some pj \<longrightarrow> job pj = i) \<and>
     length (d_eventCh p) \<le> 10 \<and> d_updateCh p \<le> 1 \<and>
     (\<forall>c. d_cancelCh p = Some c \<longrightarrow> c < d_chans p) \<and> (\<forall>c \<in> set (d_closed p). c < d_chans p) \<and>
     (d_enabled p \<longrightarrow> (\<exists>c. d_cancelCh p = Some c \<and> c \<notin> set (d_closed p))) \<and>
     (\<forall>r \<in> set (d_runs p). run_ok r)"

lemma disp_okD:
  assumes "disp_ok p"
  shows "heap_ok (d_heap p)" "dom (d_tracked p) = dom (scheduled (d_heap p))"
    "d_tracked p i = Some pj \<Longrightarrow> job pj = i"
  using assms by (simp_all add: disp_ok_def)

lemma tracked_scheduled: "disp_ok p \<Longrightarrow> d_tracked p i = None \<longleftrightarrow> scheduled (d_heap p) i = None"
  unfolding disp_ok_def by (metis domIff)

lemma NewDispatcher_ok: "disp_ok NewDispatcher"
  by (simp add: NewDispatcher_def disp_ok_def newPeriodicHeap_ok)

lemma signal_update_ok: "disp_ok p \<Longrightarrow> disp_ok (signal_update p)"
  by (auto simp: signal_update_def disp_ok_def)

lemma send_event_ok: "disp_ok p \<Longrightarrow> disp_ok (send_event p j)"
  by (auto simp: send_event_def disp_ok_def)

lemma set_run_ok: "disp_ok p \<Longrightarrow> run_ok r \<Longrightarrow> disp_ok (set_run p k r)"
  using set_update_subset_insert [of "d_runs p" k r] by (auto simp: disp_ok_def set_run_def)

text \<open>Writing the two structures that must agree.\<close>

lemma disp_ok_heap:
  assumes "disp_ok p" and "heap_ok h" and "dom tr = dom (scheduled h)" and "\<And>i pj. tr i = Some pj \<Longrightarrow> job pj = i"
  shows "disp_ok (p\<lparr>d_heap := h, d_tracked := tr\<rparr>)"
  using assms by (simp add: disp_ok_def)

section \<open>The operations\<close>

lemma Add_ok:
  assumes "disp_ok p"
  obtains p' r where "Add p j prd now = (p', r)" "disp_ok p'"
    "r = (if Contains p j then Inl (JobAlreadyExists j) else Inr ())"
    "d_tracked p' = (d_tracked p)(j \<mapsto> \<lparr>job = j, period = prd\<rparr>)"
    "scheduled (d_heap p') = (if Contains p j then scheduled (d_heap p)
       else (scheduled (d_heap p))(j \<mapsto> (\<lparr>job = j, period = prd\<rparr>, now + prd)))"
proof -
  let ?pj = "\<lparr>job = j, period = prd\<rparr>" and ?h = "d_heap p" and ?tr = "(d_tracked p)(j \<mapsto> \<lparr>job = j, period = prd\<rparr>)"
  note ok = disp_okD [OF assms]
  have tr: "job pj = i" if "?tr i = Some pj" for i pj using that ok(3) by (auto split: if_splits)
  show ?thesis
  proof (cases "ph_index ?h j")
    case None
    then have nc: "\<not> Contains p j" using tracked_scheduled [OF assms] by (simp add: Contains_def scheduled_index)
    obtain h where h: "periodicHeap_Push ?h ?pj (now + prd) = (h, Inr ())" "heap_ok h"
      "scheduled h = (scheduled ?h)(j \<mapsto> (?pj, now + prd))"
      using Push_ok [OF ok(1), of ?pj "now + prd"] None by auto
    have "disp_ok (signal_update (p\<lparr>d_heap := h, d_tracked := ?tr\<rparr>))"
      using h ok tr by (intro signal_update_ok disp_ok_heap assms) auto
    with h nc show ?thesis
      by (intro that [of "signal_update (p\<lparr>d_heap := h, d_tracked := ?tr\<rparr>)" "Inr ()"])
        (auto simp: Add_def Let_def signal_update_def)
  next
    case (Some r)
    then have c: "Contains p j" "j \<in> dom (d_tracked p)"
      using tracked_scheduled [OF assms, of j] scheduled_index [of ?h j] by (auto simp: Contains_def)
    have push: "periodicHeap_Push ?h ?pj (now + prd) = (?h, Inl (JobAlreadyExists j))"
      using Some by (simp add: periodicHeap_Push_def)
    have "disp_ok (p\<lparr>d_heap := ?h, d_tracked := ?tr\<rparr>)"
      using ok c tr by (intro disp_ok_heap assms) auto
    with push c show ?thesis
      by (intro that [of "p\<lparr>d_tracked := ?tr\<rparr>" "Inl (JobAlreadyExists j)"]) (simp_all add: Add_def Let_def)
  qed
qed

lemma Dispatcher_Remove_ok:
  assumes "disp_ok p"
  obtains p' where "Dispatcher_Remove p i = Some (p', Inr ())" "disp_ok p'"
    "d_tracked p' = (d_tracked p)(i := None)" "scheduled (d_heap p') = (scheduled (d_heap p))(i := None)"
proof -
  note ok = disp_okD [OF assms]
  show ?thesis
  proof (cases "d_tracked p i")
    case None
    then have "scheduled (d_heap p) i = None" using tracked_scheduled [OF assms] by simp
    then have "(scheduled (d_heap p))(i := None) = scheduled (d_heap p)" "(d_tracked p)(i := None) = d_tracked p"
      using None by (auto simp: fun_eq_iff)
    with None assms show ?thesis by (intro that [of p]) (simp_all add: Dispatcher_Remove_def)
  next
    case (Some pj)
    then have j: "job pj = i" by (rule ok(3))
    have "ph_index (d_heap p) i \<noteq> None"
      using Some tracked_scheduled [OF assms, of i] by (simp add: scheduled_index)
    then obtain r where "ph_index (d_heap p) i = Some r" by auto
    then obtain h where h: "periodicHeap_Remove (d_heap p) i = Some (h, Inr ())" "heap_ok h"
      "scheduled h = (scheduled (d_heap p))(i := None)"
      by (rule Remove_heap_ok [OF ok(1)])
    let ?p = "p\<lparr>d_heap := h, d_tracked := (d_tracked p)(i := None)\<rparr>"
    have "disp_ok (signal_update ?p)"
      using h ok by (intro signal_update_ok disp_ok_heap assms) (auto split: if_splits)
    with Some j h show ?thesis
      by (intro that [of "signal_update ?p"]) (simp_all add: Dispatcher_Remove_def signal_update_def)
  qed
qed

lemma SetEnabled_ok:
  assumes "disp_ok p"
  obtains p' where "SetEnabled p b = Some p'" "disp_ok p'" "d_enabled p' = b"
proof -
  consider "\<not> b" "d_enabled p" | "b" "\<not> d_enabled p" | "b = d_enabled p" by auto
  then show ?thesis
  proof cases
    case 1
    then obtain c where c: "d_cancelCh p = Some c" "c \<notin> set (d_closed p)" "c < d_chans p"
      using assms by (auto simp: disp_ok_def)
    with 1 assms show ?thesis
      by (intro that [of "p\<lparr>d_enabled := b, d_closed := c # d_closed p\<rparr>"])
        (simp_all add: SetEnabled_def disp_ok_def)
  next
    case 2
    let ?p = "p\<lparr>d_enabled := b, d_cancelCh := Some (d_chans p), d_chans := Suc (d_chans p),
        d_runs := d_runs p @ [RunTop]\<rparr>"
    have "disp_ok ?p" using assms by (auto simp: disp_ok_def run_ok_def less_Suc_eq)
    with 2 show ?thesis by (intro that [of ?p]) (simp_all add: SetEnabled_def)
  next
    case 3
    then have "SetEnabled p b = Some p" by (simp add: SetEnabled_def)
    with 3 assms show ?thesis by (intro that [of p]) simp_all
  qed
qed

lemma dispatch_ok:
  assumes "disp_ok p"
  obtains p' where "dispatch p pj launch = Some p'" "disp_ok p'" "d_runs p' = d_runs p"
    "d_eventCh p' = d_eventCh p @ (if length (d_eventCh p) < 10 then [job pj] else [])"
    "scheduled (d_heap p') = (case scheduled (d_heap p) (job pj) of
       None \<Rightarrow> scheduled (d_heap p)
     | Some (v, _) \<Rightarrow> (scheduled (d_heap p))(job pj \<mapsto> (v, launch + period pj)))"
proof -
  note ok = disp_okD [OF assms]
  let ?i = "job pj"
  show ?thesis
  proof (cases "ph_index (d_heap p) ?i")
    case None
    then have "dispatch p pj launch = Some (send_event p ?i)"
      by (simp add: dispatch_def periodicHeap_Update_def)
    moreover have "scheduled (d_heap p) ?i = None" using None by (simp add: scheduled_index)
    ultimately show ?thesis
      using send_event_ok [OF assms] by (intro that [of "send_event p ?i"]) (simp_all add: send_event_def)
  next
    case (Some r)
    obtain h where h: "periodicHeap_Update (d_heap p) ?i (launch + period pj) = Some (h, Inr ())" "heap_ok h"
      "scheduled h = (scheduled (d_heap p))(?i \<mapsto> (pp_value (ph_store (d_heap p) r), launch + period pj))"
      by (rule Update_heap_ok [OF ok(1) Some])
    have s: "scheduled (d_heap p) ?i = Some (pp_value (ph_store (d_heap p) r), pp_next (ph_store (d_heap p) r))"
      using Some by (simp add: scheduled_def)
    have "dom (d_tracked p) = dom (scheduled h)" using ok(2) s by (auto simp: h(3))
    then have "disp_ok (p\<lparr>d_heap := h, d_tracked := d_tracked p\<rparr>)" using h ok by (intro disp_ok_heap assms) auto
    then have "disp_ok (send_event (p\<lparr>d_heap := h\<rparr>) ?i)" by (intro send_event_ok) simp
    with h s show ?thesis
      by (intro that [of "send_event (p\<lparr>d_heap := h\<rparr>) ?i"]) (simp_all add: dispatch_def send_event_def)
  qed
qed

lemma nextLaunch_nil:
  assumes "disp_ok p" and "nextLaunch p = (pj, launch)"
  shows "pj = None \<Longrightarrow> launch = 0"
  using assms(2) by (auto simp: nextLaunch_def split: if_splits option.splits)

lemma disp_step_ok:
  assumes "disp_step p p'" and ok: "disp_ok p"
  shows "disp_ok p'"
  using assms(1)
proof cases
  case (do_add jb prd now r)
  then show ?thesis using Add_ok [OF ok, of jb prd now] by (metis prod.inject)
next
  case (do_remove i r)
  then show ?thesis using Dispatcher_Remove_ok [OF ok, of i] by (metis option.inject prod.inject)
next
  case (do_enable b)
  then show ?thesis using SetEnabled_ok [OF ok, of b] by (metis option.inject)
next
  case (do_receive j js)
  then show ?thesis using ok by (simp add: disp_ok_def)
next
  case (do_wait k)
  obtain pj launch where nl: "nextLaunch p = (pj, launch)" by fastforce
  then have "run_ok (RunSelect pj launch c)" for c
    using nextLaunch_nil [OF ok nl] by (cases pj) (simp_all add: run_ok_def)
  then show ?thesis using do_wait nl ok by (simp add: run_wait_def set_run_ok)
next
  case (do_cancel k pj launch c)
  then show ?thesis using ok by (simp add: run_cancel_def set_run_ok run_ok_def)
next
  case (do_update k pj launch c)
  have "disp_ok (p\<lparr>d_updateCh := d_updateCh p - 1\<rparr>)" using ok by (auto simp: disp_ok_def)
  then show ?thesis using do_update by (simp add: run_update_def set_run_ok run_ok_def)
next
  case (do_launch k pj launch c now)
  obtain q where "dispatch p pj launch = Some q" "disp_ok q" using dispatch_ok [OF ok] by metis
  then show ?thesis using do_launch by (auto simp: run_launch_def intro!: set_run_ok simp: run_ok_def)
qed

lemma disp_steps_ok: "disp_step\<^sup>*\<^sup>* p p' \<Longrightarrow> disp_ok p \<Longrightarrow> disp_ok p'"
  by (induction rule: rtranclp_induct) (auto intro: disp_step_ok)

text \<open>What the next launch is: a job that no tracked job is due before.\<close>

lemma nextLaunch_Some:
  assumes "disp_ok p" and "nextLaunch p = (Some pj, launch)"
  shows "scheduled (d_heap p) (job pj) = Some (pj, launch)"
    and "scheduled (d_heap p) i = Some (v, t) \<Longrightarrow> t = 0 \<or> launch \<noteq> 0 \<and> launch \<le> t"
proof -
  have ne: "ph_heap (d_heap p) \<noteq> []" and pj: "pj = pp_value (ph_store (d_heap p) (ph_heap (d_heap p) ! 0))"
    and launch: "launch = pp_next (ph_store (d_heap p) (ph_heap (d_heap p) ! 0))"
    using assms(2) by (auto simp: nextLaunch_def periodicHeap_Length_def periodicHeap_Peek_def split: if_splits)
  note least = first_least [OF disp_okD(1) [OF assms(1)] ne refl]
  show "scheduled (d_heap p) (job pj) = Some (pj, launch)" using least(1,2) by (simp add: pj launch)
  show "t = 0 \<or> launch \<noteq> 0 \<and> launch \<le> t" if "scheduled (d_heap p) i = Some (v, t)"
    using least(3) [OF that] by (auto simp: next_before_iff launch)
qed

lemma nextLaunch_None:
  assumes "disp_ok p" and "nextLaunch p = (None, launch)"
  shows "scheduled (d_heap p) = Map.empty"
proof -
  have "ph_heap (d_heap p) = []"
    using assms(2) by (auto simp: nextLaunch_def periodicHeap_Length_def periodicHeap_Peek_def split: if_splits)
  then have "ph_index (d_heap p) i = None" for i
    using linkedD(1) [OF heap_okD(2) [OF disp_okD(1) [OF assms(1)]]] by (cases "ph_index (d_heap p) i") auto
  then show ?thesis by (simp add: scheduled_def fun_eq_iff)
qed

section \<open>Properties\<close>

definition sample_dispatcher :: Dispatcher where
  "sample_dispatcher = fst (Add (the (SetEnabled NewDispatcher True)) ''a'' 5 2)"

lemma sample_dispatcher:
  "disp_step\<^sup>*\<^sup>* NewDispatcher sample_dispatcher" "disp_ok sample_dispatcher"
  "d_runs sample_dispatcher = [RunTop]" "d_eventCh sample_dispatcher = []" "d_closed sample_dispatcher = []"
  "scheduled (d_heap sample_dispatcher) = [''a'' \<mapsto> (\<lparr>job = ''a'', period = 5\<rparr>, 7)]"
proof -
  define p where "p = the (SetEnabled NewDispatcher True)"
  have p: "SetEnabled NewDispatcher True = Some p" "d_runs p = [RunTop]" "d_eventCh p = []"
    "d_closed p = []" "d_heap p = newPeriodicHeap" "d_tracked p = Map.empty"
    by (simp_all add: p_def SetEnabled_def NewDispatcher_def)
  have ok: "disp_ok p" using SetEnabled_ok [OF NewDispatcher_ok, of True] p(1) by (metis option.inject)
  obtain q r where q: "Add p ''a'' 5 2 = (q, r)" "disp_ok q"
    "scheduled (d_heap q) = (if Contains p ''a'' then scheduled (d_heap p)
       else (scheduled (d_heap p))(''a'' \<mapsto> (\<lparr>job = ''a'', period = 5\<rparr>, 2 + 5)))"
    using Add_ok [OF ok, of "''a''" 5 2] by metis
  then have s: "sample_dispatcher = q" by (simp add: sample_dispatcher_def p_def)
  have "disp_step\<^sup>*\<^sup>* NewDispatcher q"
    using do_enable [OF p(1)] do_add [OF q(1)] by (meson converse_rtranclp_into_rtranclp rtranclp.rtrancl_refl)
  then show "disp_step\<^sup>*\<^sup>* NewDispatcher sample_dispatcher" "disp_ok sample_dispatcher" using q(2) by (simp_all add: s)
  have "q = fst (Add p ''a'' 5 2)" using q(1) by simp
  then show "d_runs sample_dispatcher = [RunTop]" "d_eventCh sample_dispatcher = []" "d_closed sample_dispatcher = []"
    by (simp_all add: s Add_def Let_def signal_update_def p split: prod.split sum.split)
  show "scheduled (d_heap sample_dispatcher) = [''a'' \<mapsto> (\<lparr>job = ''a'', period = 5\<rparr>, 7)]"
    by (simp add: s q(3) p(5,6) Contains_def newPeriodicHeap_ok)
qed

text \<open>Property C11. In every state that the dispatcher reaches, whatever the interleaving of client calls and
  of the goroutines: the heap is well-formed and holds exactly the tracked jobs, the buffers keep
  their bounds, no operation panics, \<open>Remove\<close> succeeds and stops the tracking of the job, and \<open>Add\<close>
  fails exactly on a job that is already tracked.\<close>

theorem dispatcher_reachable:
  assumes "disp_step\<^sup>*\<^sup>* NewDispatcher p"
  shows "heap_ok (d_heap p) \<and> (\<forall>i. Contains p i \<longleftrightarrow> scheduled (d_heap p) i \<noteq> None) \<and>
    length (d_eventCh p) \<le> 10 \<and> d_updateCh p \<le> 1 \<and>
    (\<exists>p'. Dispatcher_Remove p i = Some (p', Inr ()) \<and> \<not> Contains p' i) \<and>
    (\<exists>p'. SetEnabled p b = Some p') \<and> (\<exists>p'. dispatch p pj launch = Some p') \<and>
    snd (Add p j prd now) = (if Contains p j then Inl (JobAlreadyExists j) else Inr ())"
proof -
  have ok: "disp_ok p" by (rule disp_steps_ok [OF assms NewDispatcher_ok])
  obtain p1 where "Dispatcher_Remove p i = Some (p1, Inr ())" "d_tracked p1 = (d_tracked p)(i := None)"
    using Dispatcher_Remove_ok [OF ok, of i] by metis
  then have "\<exists>p'. Dispatcher_Remove p i = Some (p', Inr ()) \<and> \<not> Contains p' i" by (simp add: Contains_def)
  moreover have "\<exists>p'. SetEnabled p b = Some p'" using SetEnabled_ok [OF ok, of b] by metis
  moreover have "\<exists>p'. dispatch p pj launch = Some p'" using dispatch_ok [OF ok] by metis
  moreover have "snd (Add p j prd now) = (if Contains p j then Inl (JobAlreadyExists j) else Inr ())"
    using Add_ok [OF ok, of j prd now] by (metis snd_conv)
  moreover have "\<forall>i. Contains p i \<longleftrightarrow> scheduled (d_heap p) i \<noteq> None"
    using tracked_scheduled [OF ok] by (simp add: Contains_def)
  ultimately show ?thesis using ok by (simp add: disp_ok_def)
qed

theorem dispatcher_reachable_witness: "\<exists>p'. Dispatcher_Remove sample_dispatcher ''a'' = Some (p', Inr ())"
  using dispatcher_reachable [OF sample_dispatcher(1), of "''a''"] by blast



end
