(* ===== verification/Server.thy ===== *)
theory Server
  imports RlpxLink Periodic
begin

text \<open>
  The server of \<open>server.go\<close>, with \<open>peer.go\<close>, \<open>peerstore.go\<close>, \<open>config.go\<close> and the interfaces of \<open>transport.go\<close>.
  Sessions and peers are shared between goroutines, so the server has them in lists and refers to them by
  position: \<open>sv_sessions\<close> and \<open>sv_heap\<close>. What the goroutines of the server are about to do is in \<open>sv_running\<close> and
  \<open>sv_watching\<close>; the relation \<open>server_step\<close> lets them run in any order. The order in which Go ranges over a map is an
  argument. Errors of other packages are their texts, as the server looks at nothing else.
\<close>

section \<open>The interfaces of transport.go\<close>

text \<open>
  The interface \<open>Session\<close>: the protocols of its streams, the information of the other end (\<open>None\<close> where a nil pointer is followed), whether it is
  closed, and \<open>Close\<close> (\<open>None\<close> for a panic). \<open>so_moves\<close> has what the session does by itself: its loops, its streams and the network; \<open>so_fresh\<close> are
  the sessions that the transport returns.
\<close>

record 's session_ops =
  so_Streams :: "'s \<Rightarrow> ProtocolSpec list"
  so_GetInfo :: "'s \<Rightarrow> network_info option"
  so_IsClosed :: "'s \<Rightarrow> bool"
  so_Close :: "'s \<Rightarrow> 's option"
  so_moves :: "'s \<Rightarrow> 's \<Rightarrow> bool"
  so_fresh :: "'s \<Rightarrow> bool"

section \<open>peer.go\<close>

datatype Status = PeerActive | PeerPending | PeerDisconnected | PeerBusy

definition Status_String :: "Status \<Rightarrow> string option" where
  "Status_String s =
     (case s of PeerActive \<Rightarrow> Some ''active'' | PeerPending \<Rightarrow> Some ''pending'' | PeerDisconnected \<Rightarrow> Some ''disconnected'' | _ \<Rightarrow> None)"

record ServerPeer =
  pe_Enode :: Enode
  pe_Info :: network_info
  pe_ID :: string
  pe_prettyID :: string
  pe_Status :: Status
  pe_conn :: nat
  pe_protocols :: "ProtocolSpec list"

definition newPeer :: "'s session_ops \<Rightarrow> nat \<Rightarrow> 's \<Rightarrow> ServerPeer option" where
  "newPeer ops conn session =
     (case so_GetInfo ops session of None \<Rightarrow> None
      | Some info \<Rightarrow>
        let i = ID_String (en_ID (ni_Enode info)) in
        if length i < 8 then None else
        Some \<lparr>pe_Enode = ni_Enode info, pe_Info = info, pe_ID = i, pe_prettyID = take 8 i, pe_Status = PeerActive, pe_conn = conn, pe_protocols = []\<rparr>)"

definition Peer_GetProtocol :: "string \<Rightarrow> ServerPeer \<Rightarrow> ProtocolSpec option" where
  "Peer_GetProtocol name p = find (\<lambda>i. ps_Name i = name) (pe_protocols p)"

section \<open>peerstore.go\<close>

text \<open>The store in JSON format is a map while the process runs; its file is not modelled.\<close>

datatype PeerStore = NoopPeerStore | JSONPeerStore "string \<Rightarrow> Status option"

definition PeerStore_Update :: "string \<Rightarrow> Status \<Rightarrow> PeerStore \<Rightarrow> PeerStore" where
  "PeerStore_Update addr status p = (case p of NoopPeerStore \<Rightarrow> p | JSONPeerStore peers \<Rightarrow> JSONPeerStore (peers(addr \<mapsto> status)))"

section \<open>config.go\<close>

text \<open>A protocol's handler runs on a stream of the session, given by its position. It may change the session, and ends with nil or an error.\<close>

record 's Protocol =
  pr_Spec :: ProtocolSpec
  pr_HandlerFn :: "nat \<Rightarrow> ServerPeer \<Rightarrow> 's \<Rightarrow> ('s \<times> (string + unit)) option"

record 's Config =
  cf_Name :: string
  cf_BindAddress :: string
  cf_BindPort :: int
  cf_MaxPeers :: int
  cf_Bootnodes :: "string list"
  cf_DialTasks :: nat
  cf_DialBusyInterval :: duration
  cf_PeerStore :: PeerStore
  cf_Protocols :: "'s Protocol list"

definition defaultDialTasks :: nat where "defaultDialTasks = 15"

text \<open>A minute in nanoseconds.\<close>

definition DefaultConfig :: "'s Config" where
  "DefaultConfig = \<lparr>cf_Name = ''minimal/go1.10.2'', cf_BindAddress = ''127.0.0.1'', cf_BindPort = 30304, cf_MaxPeers = 10, cf_Bootnodes = [],
     cf_DialTasks = defaultDialTasks, cf_DialBusyInterval = 60000000000, cf_PeerStore = NoopPeerStore, cf_Protocols = []\<rparr>"

definition WithName :: "string \<Rightarrow> 's Config \<Rightarrow> 's Config" where "WithName name c = c\<lparr>cf_Name := name\<rparr>"
definition WithBindAddress :: "string \<Rightarrow> 's Config \<Rightarrow> 's Config" where "WithBindAddress addr c = c\<lparr>cf_BindAddress := addr\<rparr>"
definition WithBindPort :: "int \<Rightarrow> 's Config \<Rightarrow> 's Config" where "WithBindPort port c = c\<lparr>cf_BindPort := port\<rparr>"
definition WithMaxPeers :: "int \<Rightarrow> 's Config \<Rightarrow> 's Config" where "WithMaxPeers maxPeers c = c\<lparr>cf_MaxPeers := maxPeers\<rparr>"
definition WithBootnodes :: "string list \<Rightarrow> 's Config \<Rightarrow> 's Config" where "WithBootnodes bootnodes c = c\<lparr>cf_Bootnodes := bootnodes\<rparr>"
definition WithPeerStore :: "PeerStore \<Rightarrow> 's Config \<Rightarrow> 's Config" where "WithPeerStore peerstore c = c\<lparr>cf_PeerStore := peerstore\<rparr>"
definition WithProtocol :: "'s Protocol \<Rightarrow> 's Config \<Rightarrow> 's Config" where "WithProtocol p c = c\<lparr>cf_Protocols := cf_Protocols c @ [p]\<rparr>"

section \<open>server.go\<close>

datatype EventType = NodeJoin | NodeLeave | NodeHandshakeFail

definition EventType_String :: "EventType \<Rightarrow> string" where
  "EventType_String t = (case t of NodeJoin \<Rightarrow> ''node join'' | NodeLeave \<Rightarrow> ''node leave'' | NodeHandshakeFail \<Rightarrow> ''node handshake failed'')"

text \<open>
  \<open>sv_sending\<close> is what \<open>dialRunner\<close> waits to pass on. What a goroutine has left to do is a \<open>goroutine\<close>. \<open>Inserting\<close>: \<open>addSession\<close> is about to store its peer, for the task of a dial or for an accepted session.
  \<open>Dialed\<close>: \<open>connect\<close> has returned in a \<open>dialTask\<close>. \<open>Checked\<close>: \<open>dialTask\<close> has asked the dispatcher for the task.
\<close>

datatype goroutine = Inserting nat "string option" | Dialed string "string option" | Checked string "string option" bool

record 's Server =
  sv_Name :: string
  sv_Enode :: Enode
  sv_config :: "'s Config"
  sv_info :: "network_info option"
  sv_peers :: "string \<Rightarrow> nat option"
  sv_heap :: "ServerPeer list"
  sv_sessions :: "'s list"
  sv_EventCh :: "(EventType \<times> nat) list"
  sv_addPeer :: "string list"
  sv_tasks :: "string list"
  sv_dispatcher :: Dispatcher
  sv_peerStore :: PeerStore
  sv_watching :: "nat list"
  sv_running :: "goroutine list"
  sv_sending :: "string option"
  sv_started :: bool
  sv_accepting :: bool

text \<open>\<open>NewServer\<close>; \<open>disc\<close> is the error of \<open>setupDiscovery\<close>. The store of the configuration is not used.\<close>

definition NewServer :: "point \<Rightarrow> string option \<Rightarrow> ('s Config \<Rightarrow> 's Config) list \<Rightarrow> string + 's Server" where
  "NewServer pub disc opts =
     (let config = foldl (\<lambda>c opt. opt c) DefaultConfig opts;
          enode = \<lparr>en_ID = PubkeyToEnode pub, en_TCP = word_of_int (cf_BindPort config), en_UDP = word_of_int (cf_BindPort config),
                   en_IP = (case ParseIP (cf_BindAddress config) of None \<Rightarrow> [] | Some ip \<Rightarrow> ip)\<rparr>
      in case disc of
           Some e \<Rightarrow> Inl e
         | None \<Rightarrow> Inr \<lparr>sv_Name = cf_Name config, sv_Enode = enode, sv_config = config, sv_info = None, sv_peers = Map.empty, sv_heap = [],
             sv_sessions = [], sv_EventCh = [], sv_addPeer = [], sv_tasks = [], sv_dispatcher = NewDispatcher, sv_peerStore = NoopPeerStore,
             sv_watching = [], sv_running = [], sv_sending = None, sv_started = False, sv_accepting = False\<rparr>)"

definition buildInfo :: "'s Server \<Rightarrow> 's Server" where
  "buildInfo s = s\<lparr>sv_info := Some \<lparr>ni_Client = sv_Name s, ni_Enode = sv_Enode s, ni_Capabilities = map pr_Spec (cf_Protocols (sv_config s))\<rparr>\<rparr>"

definition Dial :: "string \<Rightarrow> 's Server \<Rightarrow> 's Server" where
  "Dial enode s = (if length (sv_addPeer s) < 20 then s\<lparr>sv_addPeer := sv_addPeer s @ [enode]\<rparr> else s)"

text \<open>What the store loads: the addresses, in any order. The store of a server stores nothing.\<close>

definition PeerStore_Load :: "string list \<Rightarrow> PeerStore \<Rightarrow> string list" where
  "PeerStore_Load order p = (case p of NoopPeerStore \<Rightarrow> [] | JSONPeerStore peers \<Rightarrow> order)"

text \<open>\<open>Start\<close>, where \<open>setupErr\<close> is the error of \<open>transport.Setup\<close>, and the beginning of \<open>dialRunner\<close>.\<close>

definition Start :: "string list \<Rightarrow> string option \<Rightarrow> 's Server \<Rightarrow> ('s Server \<times> (string + unit)) option" where
  "Start order setupErr s =
     (let s = buildInfo (foldl (\<lambda>s peer. Dial peer s) s (PeerStore_Load order (sv_peerStore s))) in
      case setupErr of
        Some e \<Rightarrow> Some (s, Inl e)
      | None \<Rightarrow> (case SetEnabled (sv_dispatcher s) True of None \<Rightarrow> None
                 | Some d \<Rightarrow> Some (s\<lparr>sv_started := True, sv_accepting := True, sv_dispatcher := d\<rparr>, Inr ())))"

definition server_getProtocol :: "'s Server \<Rightarrow> string \<Rightarrow> uint64 \<Rightarrow> 's Protocol option" where
  "server_getProtocol s name version = find (\<lambda>p. ps_Name (pr_Spec p) = name \<and> ps_Version (pr_Spec p) = version) (cf_Protocols (sv_config s))"

subsection \<open>Peers\<close>

definition GetPeers :: "string list \<Rightarrow> 's Server \<Rightarrow> string list" where
  "GetPeers order s = foldl (\<lambda>ids i. ids @ [i]) [] order"

definition iterates :: "string list \<Rightarrow> (string \<Rightarrow> 'a option) \<Rightarrow> bool" where
  "iterates order m \<longleftrightarrow> distinct order \<and> set order = dom m"

definition GetPeerByPrefix :: "string list \<Rightarrow> string \<Rightarrow> 's Server \<Rightarrow> nat option" where
  "GetPeerByPrefix order search s =
     (case find (\<lambda>i. take (length search) i = search) order of None \<Rightarrow> None | Some i \<Rightarrow> sv_peers s i)"

definition GetPeer :: "string list \<Rightarrow> string \<Rightarrow> 's Server \<Rightarrow> nat option" where
  "GetPeer order i s = (case find (\<lambda>x. i = x) order of None \<Rightarrow> None | Some x \<Rightarrow> sv_peers s x)"

definition removePeer :: "nat \<Rightarrow> 's Server \<Rightarrow> 's Server" where
  "removePeer n s = s\<lparr>sv_peers := (sv_peers s)(pe_ID (sv_heap s ! n) := None)\<rparr>"

definition Peer_Close :: "'s session_ops \<Rightarrow> nat \<Rightarrow> 's Server \<Rightarrow> 's Server option" where
  "Peer_Close ops n s =
     (let c = pe_conn (sv_heap s ! n) in
      case so_Close ops (sv_sessions s ! c) of None \<Rightarrow> None
      | Some session \<Rightarrow> Some (s\<lparr>sv_sessions := (sv_sessions s)[c := session]\<rparr>))"

definition Peer_IsClosed :: "'s session_ops \<Rightarrow> 's Server \<Rightarrow> nat \<Rightarrow> bool" where
  "Peer_IsClosed ops s n = so_IsClosed ops (sv_sessions s ! pe_conn (sv_heap s ! n))"

fun close_peers :: "'s session_ops \<Rightarrow> nat list \<Rightarrow> 's Server \<Rightarrow> 's Server option" where
  "close_peers ops [] s = Some s"
| "close_peers ops (n # ns) s = (case Peer_Close ops n s of None \<Rightarrow> None | Some s' \<Rightarrow> close_peers ops ns s')"

definition Server_Disconnect :: "'s session_ops \<Rightarrow> string list \<Rightarrow> 's Server \<Rightarrow> 's Server option" where
  "Server_Disconnect ops order s = close_peers ops (map (\<lambda>i. the (sv_peers s i)) order) s"

text \<open>Closing the store of a server does nothing; the error of \<open>transport.Close\<close> is only logged.\<close>

definition Server_Close :: "'s session_ops \<Rightarrow> string list \<Rightarrow> 's Server \<Rightarrow> 's Server option" where
  "Server_Close ops order s = close_peers ops (map (\<lambda>i. the (sv_peers s i)) order) s"

subsection \<open>A new session\<close>

text \<open>The handlers of the streams, in the order in which they end; the first error is the result of \<open>addSession\<close>.\<close>

fun run_handlers :: "'s session_ops \<Rightarrow> nat \<Rightarrow> ProtocolSpec list \<Rightarrow> ProtocolSpec list \<Rightarrow> nat list \<Rightarrow> 's Server \<Rightarrow>
    ('s Server \<times> (string + ProtocolSpec list)) option" where
  "run_handlers ops n streams instances [] s = Some (s, Inr instances)"
| "run_handlers ops n streams instances (i # order) s =
     (case server_getProtocol s (ps_Name (streams ! i)) (ps_Version (streams ! i)) of
        None \<Rightarrow> Some (s, Inl ''protocol does not exists'')
      | Some proto \<Rightarrow>
        let p = sv_heap s ! n; c = pe_conn p in
        (case pr_HandlerFn proto i p (sv_sessions s ! c) of None \<Rightarrow> None
         | Some (session, r) \<Rightarrow>
           let s = s\<lparr>sv_sessions := (sv_sessions s)[c := session]\<rparr> in
           (case r of Inl e \<Rightarrow> Some (s, Inl e)
            | Inr _ \<Rightarrow> run_handlers ops n streams (instances @ [pr_Spec proto]) order s)))"

text \<open>\<open>addSession\<close> until its goroutine that waits for the end of the session is started: the position of the peer.\<close>

definition addSession_open :: "'s session_ops \<Rightarrow> nat list \<Rightarrow> 's \<Rightarrow> 's Server \<Rightarrow> ('s Server \<times> (string + nat)) option" where
  "addSession_open ops order session s =
     (let c = length (sv_sessions s); n = length (sv_heap s) in
      case newPeer ops c session of None \<Rightarrow> None
      | Some p \<Rightarrow>
        let s = s\<lparr>sv_sessions := sv_sessions s @ [session], sv_heap := sv_heap s @ [p]\<rparr> in
        (case run_handlers ops n (so_Streams ops session) [] order s of None \<Rightarrow> None
         | Some (s, Inl e) \<Rightarrow> (case Peer_Close ops n s of None \<Rightarrow> None | Some s \<Rightarrow> Some (s, Inl e))
         | Some (s, Inr instances) \<Rightarrow>
           Some (s\<lparr>sv_heap := (sv_heap s)[n := (sv_heap s ! n)\<lparr>pe_protocols := instances\<rparr>], sv_watching := sv_watching s @ [n]\<rparr>, Inr n)))"

text \<open>The rest of it: the peer is stored and announced.\<close>

definition addSession_insert :: "nat \<Rightarrow> 's Server \<Rightarrow> 's Server" where
  "addSession_insert n s =
     (let s = s\<lparr>sv_peers := (sv_peers s)(pe_ID (sv_heap s ! n) \<mapsto> n)\<rparr> in
      if length (sv_EventCh s) < 20 then s\<lparr>sv_EventCh := sv_EventCh s @ [(NodeJoin, n)]\<rparr> else s)"

definition addSession :: "'s session_ops \<Rightarrow> nat list \<Rightarrow> 's \<Rightarrow> 's Server \<Rightarrow> ('s Server \<times> (string + unit)) option" where
  "addSession ops order session s =
     (case addSession_open ops order session s of None \<Rightarrow> None
      | Some (s, Inl e) \<Rightarrow> Some (s, Inl e)
      | Some (s, Inr n) \<Rightarrow> Some (addSession_insert n s, Inr ()))"

text \<open>The goroutine that waits for the end of a session.\<close>

definition watch_closed :: "nat \<Rightarrow> 's Server \<Rightarrow> 's Server" where
  "watch_closed n s = (removePeer n s)\<lparr>sv_watching := remove1 n (sv_watching s)\<rparr>"

subsection \<open>Dialing\<close>

text \<open>\<open>dialed\<close> is the result of \<open>transport.DialTimeout\<close>. The result is the peer that is still to be stored, if there is one.\<close>

definition connectWithEnode_open :: "'s session_ops \<Rightarrow> nat list \<Rightarrow> string + 's \<Rightarrow> string \<Rightarrow> 's Server \<Rightarrow> ('s Server \<times> (string + nat option)) option" where
  "connectWithEnode_open ops order dialed rawURL s =
     (if sv_peers s rawURL \<noteq> None then Some (s, Inr None)
      else case dialed of
        Inl e \<Rightarrow> Some (s, Inl e)
      | Inr session \<Rightarrow> map_option (\<lambda>(s, r). (s, map_sum (\<lambda>e. e) Some r)) (addSession_open ops order session s))"

definition connectWithEnode :: "'s session_ops \<Rightarrow> nat list \<Rightarrow> string + 's \<Rightarrow> string \<Rightarrow> 's Server \<Rightarrow> ('s Server \<times> (string + unit)) option" where
  "connectWithEnode ops order dialed rawURL s =
     (if sv_peers s rawURL \<noteq> None then Some (s, Inr ())
      else case dialed of
        Inl e \<Rightarrow> Some (s, Inl e)
      | Inr session \<Rightarrow> addSession ops order session s)"

definition DialSync :: "'s session_ops \<Rightarrow> nat list \<Rightarrow> string + 's \<Rightarrow> string \<Rightarrow> 's Server \<Rightarrow> ('s Server \<times> (string + unit)) option" where
  "DialSync = connectWithEnode"

text \<open>What \<open>dialTask\<close> does after \<open>connect\<close>, with what the dispatcher said of the task before. The dispatcher's errors are ignored.\<close>

definition dialTask_after :: "time \<Rightarrow> string \<Rightarrow> string option \<Rightarrow> bool \<Rightarrow> 's Server \<Rightarrow> 's Server option" where
  "dialTask_after now task err contains s =
     (let busy = (err = Some ''too many peers'') in
      case (if busy then Some (if \<not> contains then fst (Add (sv_dispatcher s) task (cf_DialBusyInterval (sv_config s)) now) else sv_dispatcher s)
            else if contains then map_option fst (Dispatcher_Remove (sv_dispatcher s) task) else Some (sv_dispatcher s)) of
        None \<Rightarrow> None
      | Some d \<Rightarrow>
        let s = s\<lparr>sv_dispatcher := d\<rparr> in
        Some (if err = None then s\<lparr>sv_peerStore := PeerStore_Update task PeerActive (sv_peerStore s)\<rparr> else s))"

text \<open>A whole round of \<open>dialTask\<close>, without steps of others in between.\<close>

definition dialTask :: "'s session_ops \<Rightarrow> nat list \<Rightarrow> string + 's \<Rightarrow> time \<Rightarrow> string \<Rightarrow> 's Server \<Rightarrow> 's Server option" where
  "dialTask ops order dialed now task s =
     (case connectWithEnode ops order dialed task s of None \<Rightarrow> None
      | Some (s, r) \<Rightarrow> dialTask_after now task (case r of Inl e \<Rightarrow> Some e | Inr _ \<Rightarrow> None) (Contains (sv_dispatcher s) task) s)"

subsection \<open>The server as a whole\<close>

text \<open>The tasks that the goroutines of \<open>dialTask\<close> work on; there are \<open>DialTasks\<close> of these.\<close>

fun dial_of :: "goroutine \<Rightarrow> string list" where
  "dial_of (Inserting n (Some t)) = [t]"
| "dial_of (Inserting n None) = []"
| "dial_of (Dialed t e) = [t]"
| "dial_of (Checked t e c) = [t]"

definition dialing :: "'s Server \<Rightarrow> string list" where
  "dialing s = concat (map dial_of (sv_running s))"

fun after_connect :: "string \<Rightarrow> string + nat option \<Rightarrow> goroutine" where
  "after_connect t (Inl e) = Dialed t (Some e)"
| "after_connect t (Inr None) = Dialed t None"
| "after_connect t (Inr (Some n)) = Inserting n (Some t)"

fun after_addSession :: "string + nat option \<Rightarrow> goroutine list" where
  "after_addSession (Inr (Some n)) = [Inserting n None]"
| "after_addSession _ = []"

definition all_streams :: "'s session_ops \<Rightarrow> string + 's \<Rightarrow> nat list \<Rightarrow> bool" where
  "all_streams ops dialed order \<longleftrightarrow>
     (case dialed of Inl _ \<Rightarrow> True | Inr x \<Rightarrow> so_fresh ops x \<and> distinct order \<and> set order = {..<length (so_Streams ops x)})"

inductive server_step :: "'s session_ops \<Rightarrow> 's Server \<Rightarrow> 's Server \<Rightarrow> bool" for ops where
  dial: "server_step ops s (Dial e s)"
| start: "\<not> sv_started s \<Longrightarrow> Start order setupErr s = Some (s', r) \<Longrightarrow> server_step ops s s'"
| take_queued: "sv_started s \<Longrightarrow> sv_sending s = None \<Longrightarrow> sv_addPeer s = e # es \<Longrightarrow> server_step ops s (s\<lparr>sv_addPeer := es, sv_sending := Some e\<rparr>)"
| take_discovered: "sv_started s \<Longrightarrow> sv_sending s = None \<Longrightarrow> server_step ops s (s\<lparr>sv_sending := Some e\<rparr>)"
| take_event: "sv_started s \<Longrightarrow> sv_sending s = None \<Longrightarrow> Events (sv_dispatcher s) = j # js \<Longrightarrow>
    server_step ops s (s\<lparr>sv_dispatcher := (sv_dispatcher s)\<lparr>d_eventCh := js\<rparr>, sv_sending := Some j\<rparr>)"
| send_task: "sv_sending s = Some e \<Longrightarrow> length (sv_tasks s) < cf_DialTasks (sv_config s) \<Longrightarrow>
    server_step ops s (s\<lparr>sv_tasks := sv_tasks s @ [e], sv_sending := None\<rparr>)"
| dial_task: "sv_tasks s = t # ts \<Longrightarrow> length (dialing s) < cf_DialTasks (sv_config s) \<Longrightarrow> all_streams ops dialed order \<Longrightarrow>
    connectWithEnode_open ops order dialed t (s\<lparr>sv_tasks := ts\<rparr>) = Some (s', r) \<Longrightarrow>
    server_step ops s (s'\<lparr>sv_running := sv_running s' @ [after_connect t r]\<rparr>)"
| dial_sync: "all_streams ops dialed order \<Longrightarrow> connectWithEnode_open ops order dialed t s = Some (s', r) \<Longrightarrow>
    server_step ops s (s'\<lparr>sv_running := sv_running s' @ after_addSession r\<rparr>)"
| accept: "sv_accepting s \<Longrightarrow> all_streams ops (Inr x) order \<Longrightarrow> addSession_open ops order x (s\<lparr>sv_accepting := False\<rparr>) = Some (s', r) \<Longrightarrow>
    server_step ops s (s'\<lparr>sv_running := sv_running s' @ after_addSession (map_sum (\<lambda>e. e) Some r)\<rparr>)"
| insert_peer: "sv_running s = xs @ Inserting n t # ys \<Longrightarrow>
    server_step ops s (addSession_insert n (s\<lparr>sv_running := xs @ (case t of None \<Rightarrow> [] | Some t \<Rightarrow> [Dialed t None]) @ ys\<rparr>))"
| check_task: "sv_running s = xs @ Dialed t e # ys \<Longrightarrow>
    server_step ops s (s\<lparr>sv_running := xs @ Checked t e (Contains (sv_dispatcher s) t) # ys\<rparr>)"
| finish_task: "sv_running s = xs @ Checked t e c # ys \<Longrightarrow> dialTask_after now t e c (s\<lparr>sv_running := xs @ ys\<rparr>) = Some s' \<Longrightarrow> server_step ops s s'"
| watch: "n \<in> set (sv_watching s) \<Longrightarrow> Peer_IsClosed ops s n \<Longrightarrow> server_step ops s (watch_closed n s)"
| session: "c < length (sv_sessions s) \<Longrightarrow> so_moves ops (sv_sessions s ! c) x \<Longrightarrow> server_step ops s (s\<lparr>sv_sessions := (sv_sessions s)[c := x]\<rparr>)"
| dispatcher: "disp_step (sv_dispatcher s) d \<Longrightarrow> server_step ops s (s\<lparr>sv_dispatcher := d\<rparr>)"
| remove_peer: "n < length (sv_heap s) \<Longrightarrow> server_step ops s (removePeer n s)"
| read_event: "sv_EventCh s = e # es \<Longrightarrow> server_step ops s (s\<lparr>sv_EventCh := es\<rparr>)"
| disconnect_peers: "iterates order (sv_peers s) \<Longrightarrow> Server_Disconnect ops order s = Some s' \<Longrightarrow> server_step ops s s'"

inductive_cases server_stepE: "server_step ops s s'"

section \<open>The contract of a session\<close>

locale session_laws =
  fixes ops :: "'s session_ops" and ok :: "'s \<Rightarrow> bool"
  assumes fresh_ok: "so_fresh ops x \<Longrightarrow> ok x"
    and moves_ok: "ok x \<Longrightarrow> so_moves ops x y \<Longrightarrow> ok y"
    and moves_closed: "ok x \<Longrightarrow> so_moves ops x y \<Longrightarrow> so_IsClosed ops x \<Longrightarrow> so_IsClosed ops y"
    and Close_ok: "ok x \<Longrightarrow> \<exists>y. so_Close ops x = Some y \<and> ok y \<and> so_IsClosed ops y"
    and GetInfo_ok: "ok x \<Longrightarrow> \<exists>info. so_GetInfo ops x = Some info \<and> length (en_ID (ni_Enode info)) = 64"

text \<open>A handler acts on its session only through its streams.\<close>

definition handler_ok :: "'s session_ops \<Rightarrow> 's Protocol \<Rightarrow> bool" where
  "handler_ok ops proto \<longleftrightarrow> (\<forall>i p x y r. pr_HandlerFn proto i p x = Some (y, r) \<longrightarrow> (so_moves ops)\<^sup>*\<^sup>* x y)"

section \<open>The invariant of the server\<close>

text \<open>A peer that is watched, or whose session is closed.\<close>

definition minded :: "'s session_ops \<Rightarrow> 's Server \<Rightarrow> nat \<Rightarrow> bool" where
  "minded ops s n \<longleftrightarrow> n < length (sv_heap s) \<and> (n \<in> set (sv_watching s) \<or> Peer_IsClosed ops s n)"

definition peers_ok :: "'s session_ops \<Rightarrow> ('s \<Rightarrow> bool) \<Rightarrow> 's Server \<Rightarrow> bool" where
  "peers_ok ops ok s \<longleftrightarrow>
     (\<forall>i n. sv_peers s i = Some n \<longrightarrow> minded ops s n \<and> pe_ID (sv_heap s ! n) = i) \<and>
     (\<forall>n t. Inserting n t \<in> set (sv_running s) \<longrightarrow> minded ops s n) \<and>
     (\<forall>n \<in> set (sv_watching s). n < length (sv_heap s)) \<and> (\<forall>(e, n) \<in> set (sv_EventCh s). n < length (sv_heap s)) \<and>
     (\<forall>p \<in> set (sv_heap s). pe_conn p < length (sv_sessions s)) \<and> (\<forall>x \<in> set (sv_sessions s). ok x)"

definition queues_ok :: "'s Server \<Rightarrow> bool" where
  "queues_ok s \<longleftrightarrow> length (sv_addPeer s) \<le> 20 \<and> length (sv_EventCh s) \<le> 20 \<and> length (sv_tasks s) \<le> cf_DialTasks (sv_config s) \<and>
     length (dialing s) \<le> cf_DialTasks (sv_config s)"

definition server_ok :: "'s session_ops \<Rightarrow> ('s \<Rightarrow> bool) \<Rightarrow> 's Server \<Rightarrow> bool" where
  "server_ok ops ok s \<longleftrightarrow> peers_ok ops ok s \<and> queues_ok s \<and> disp_ok (sv_dispatcher s) \<and> list_all (handler_ok ops) (cf_Protocols (sv_config s))"

text \<open>Sessions and peers that come and change, while everything else stays.\<close>

definition grown :: "'s session_ops \<Rightarrow> ('s \<Rightarrow> bool) \<Rightarrow> 's Server \<Rightarrow> 's Server \<Rightarrow> bool" where
  "grown ops ok s s' \<longleftrightarrow> (\<exists>ss hp. s' = s\<lparr>sv_sessions := ss, sv_heap := hp\<rparr>) \<and>
     length (sv_heap s) \<le> length (sv_heap s') \<and> length (sv_sessions s) \<le> length (sv_sessions s') \<and>
     (\<forall>n < length (sv_heap s). pe_ID (sv_heap s' ! n) = pe_ID (sv_heap s ! n) \<and> pe_conn (sv_heap s' ! n) = pe_conn (sv_heap s ! n)) \<and>
     (\<forall>c < length (sv_sessions s). so_IsClosed ops (sv_sessions s ! c) \<longrightarrow> so_IsClosed ops (sv_sessions s' ! c)) \<and>
     (\<forall>p \<in> set (sv_heap s'). pe_conn p < length (sv_sessions s')) \<and> (\<forall>x \<in> set (sv_sessions s'). ok x)"

lemma grown_fields:
  assumes "grown ops ok s s'"
  shows "sv_peers s' = sv_peers s" "sv_running s' = sv_running s" "sv_watching s' = sv_watching s" "sv_EventCh s' = sv_EventCh s"
    "sv_config s' = sv_config s" "sv_addPeer s' = sv_addPeer s" "sv_tasks s' = sv_tasks s" "sv_dispatcher s' = sv_dispatcher s" "dialing s' = dialing s"
  using assms by (auto simp: grown_def dialing_def)

lemma grown_minded:
  assumes "grown ops ok s s'" and "minded ops s n" and "\<forall>p \<in> set (sv_heap s). pe_conn p < length (sv_sessions s)"
  shows "minded ops s' n"
  using assms grown_fields [OF assms(1)] by (auto simp: minded_def grown_def Peer_IsClosed_def)

lemma grown_trans:
  assumes a: "grown ops ok s s'" and b: "grown ops ok s' s''"
  shows "grown ops ok s s''"
proof -
  obtain ss hp ss' hp' where e: "s' = s\<lparr>sv_sessions := ss, sv_heap := hp\<rparr>" "s'' = s'\<lparr>sv_sessions := ss', sv_heap := hp'\<rparr>"
    using a b by (auto simp: grown_def)
  then have "s'' = s\<lparr>sv_sessions := ss', sv_heap := hp'\<rparr>" by simp
  then have "\<exists>ss hp. s'' = s\<lparr>sv_sessions := ss, sv_heap := hp\<rparr>" by blast
  then show ?thesis using a b by (simp add: grown_def)
qed

lemma peers_okD:
  assumes "peers_ok ops ok s"
  shows "sv_peers s i = Some n \<Longrightarrow> minded ops s n" "sv_peers s i = Some n \<Longrightarrow> pe_ID (sv_heap s ! n) = i" "Inserting n t \<in> set (sv_running s) \<Longrightarrow> minded ops s n"
    "n \<in> set (sv_watching s) \<Longrightarrow> n < length (sv_heap s)" "(e, n) \<in> set (sv_EventCh s) \<Longrightarrow> n < length (sv_heap s)"
    "p \<in> set (sv_heap s) \<Longrightarrow> pe_conn p < length (sv_sessions s)" "x \<in> set (sv_sessions s) \<Longrightarrow> ok x"
  using assms by (auto simp: peers_ok_def)

lemma grown_ok:
  assumes ok: "server_ok ops ok s" and "grown ops ok s s'"
  shows "server_ok ops ok s'"
proof -
  have p: "peers_ok ops ok s" "\<forall>p \<in> set (sv_heap s). pe_conn p < length (sv_sessions s)" using ok by (simp_all add: server_ok_def peers_ok_def)
  note m = grown_minded [OF assms(2) _ p(2)]
  have h: "n < length (sv_heap s) \<Longrightarrow> n < length (sv_heap s')" "n < length (sv_heap s) \<Longrightarrow> pe_ID (sv_heap s' ! n) = pe_ID (sv_heap s ! n)"
    "minded ops s n \<Longrightarrow> n < length (sv_heap s)" "\<forall>p \<in> set (sv_heap s'). pe_conn p < length (sv_sessions s')" "\<forall>x \<in> set (sv_sessions s'). ok x" for n
    using assms(2) by (simp_all add: grown_def minded_def)
  have "pe_ID (sv_heap s' ! n) = i" if "sv_peers s i = Some n" for i n
    using h(2) [OF h(3) [OF peers_okD(1) [OF p(1) that]]] peers_okD(2) [OF p(1) that] by simp
  moreover have "\<forall>(e, n) \<in> set (sv_EventCh s). n < length (sv_heap s')" using peers_okD(5) [OF p(1)] h(1) by auto
  ultimately have "peers_ok ops ok s'"
    unfolding peers_ok_def grown_fields [OF assms(2)] using m peers_okD(1) [OF p(1)] peers_okD(3) [OF p(1)] h(1) peers_okD(4) [OF p(1)] h(4,5) by blast
  then show ?thesis using ok grown_fields [OF assms(2)] by (simp add: server_ok_def queues_ok_def)
qed

lemma server_okD:
  assumes "server_ok ops ok s"
  shows "peers_ok ops ok s" "queues_ok s" "disp_ok (sv_dispatcher s)" "proto \<in> set (cf_Protocols (sv_config s)) \<Longrightarrow> handler_ok ops proto"
  using assms by (auto simp: server_ok_def list_all_iff)

text \<open>The fields that no part of \<open>addSession\<close> changes before it stores its peer.\<close>

definition same_queues :: "'s Server \<Rightarrow> 's Server \<Rightarrow> bool" where
  "same_queues s s' \<longleftrightarrow> sv_running s' = sv_running s \<and> sv_config s' = sv_config s \<and> sv_tasks s' = sv_tasks s \<and> sv_addPeer s' = sv_addPeer s \<and>
     sv_EventCh s' = sv_EventCh s \<and> sv_dispatcher s' = sv_dispatcher s \<and> sv_peers s' = sv_peers s \<and> length (sv_heap s) \<le> length (sv_heap s')"

lemma grown_same: "grown ops ok s s' \<Longrightarrow> same_queues s s'"
  by (simp add: grown_fields same_queues_def) (simp add: grown_def)

lemma length_ID_String: "length (ID_String i) = 2 * length i"
  by (simp add: ID_String_def hex_EncodeToString_def length_concat o_def sum_list_triv)

context session_laws
begin

lemma server_newPeer_ok:
  assumes "ok x"
  obtains p where "newPeer ops c x = Some p" "pe_conn p = c" "length (pe_ID p) = 128"
  using GetInfo_ok [OF assms] that by (auto simp: newPeer_def Let_def length_ID_String)

lemma moves_many:
  assumes "(so_moves ops)\<^sup>*\<^sup>* x y" and "ok x"
  shows "ok y \<and> (so_IsClosed ops x \<longrightarrow> so_IsClosed ops y)"
  using assms by (induction rule: rtranclp_induct) (auto intro: moves_ok moves_closed)

lemma grown_session:
  assumes "server_ok ops ok s" and "c < length (sv_sessions s)" and "ok y" and "so_IsClosed ops (sv_sessions s ! c) \<longrightarrow> so_IsClosed ops y"
  shows "grown ops ok s (s\<lparr>sv_sessions := (sv_sessions s)[c := y]\<rparr>)"
proof -
  have "\<exists>ss hp. s\<lparr>sv_sessions := (sv_sessions s)[c := y]\<rparr> = s\<lparr>sv_sessions := ss, sv_heap := hp\<rparr>"
    by (rule exI [of _ "(sv_sessions s)[c := y]"], rule exI [of _ "sv_heap s"]) simp
  moreover have "\<forall>x \<in> set ((sv_sessions s)[c := y]). ok x"
    using peers_okD(7) [OF server_okD(1) [OF assms(1)]] assms(3) set_update_subset_insert [of "sv_sessions s" c y] by auto
  ultimately show ?thesis
    using assms(2,4) peers_okD(6) [OF server_okD(1) [OF assms(1)]] by (simp add: grown_def nth_list_update)
qed

lemma grown_peer:
  assumes "server_ok ops ok s" and "n < length (sv_heap s)" and "pe_ID q = pe_ID (sv_heap s ! n)" and "pe_conn q = pe_conn (sv_heap s ! n)"
  shows "grown ops ok s (s\<lparr>sv_heap := (sv_heap s)[n := q]\<rparr>)"
proof -
  have "\<exists>ss hp. s\<lparr>sv_heap := (sv_heap s)[n := q]\<rparr> = s\<lparr>sv_sessions := ss, sv_heap := hp\<rparr>"
    by (rule exI [of _ "sv_sessions s"], rule exI [of _ "(sv_heap s)[n := q]"]) simp
  moreover have conn: "\<forall>p \<in> set (sv_heap s). pe_conn p < length (sv_sessions s)"
    using peers_okD(6) [OF server_okD(1) [OF assms(1)]] by blast
  moreover have "\<forall>p \<in> set ((sv_heap s)[n := q]). pe_conn p < length (sv_sessions s)"
    using conn assms(2,4) set_update_subset_insert [of "sv_heap s" n q] by auto
  ultimately show ?thesis
    using assms(2-4) peers_okD(7) [OF server_okD(1) [OF assms(1)]] by (simp add: grown_def nth_list_update)
qed

lemma Peer_Close_grown:
  assumes "server_ok ops ok s" and "n < length (sv_heap s)"
  obtains s' where "Peer_Close ops n s = Some s'" "grown ops ok s s'" "Peer_IsClosed ops s' n"
proof -
  let ?c = "pe_conn (sv_heap s ! n)"
  have c: "?c < length (sv_sessions s)" using peers_okD(6) [OF server_okD(1) [OF assms(1)]] assms(2) by simp
  then have "ok (sv_sessions s ! ?c)" using peers_okD(7) [OF server_okD(1) [OF assms(1)]] by simp
  then obtain y where y: "so_Close ops (sv_sessions s ! ?c) = Some y" "ok y" "so_IsClosed ops y" using Close_ok by blast
  then show ?thesis
    using grown_session [OF assms(1) c y(2)] c by (intro that [of "s\<lparr>sv_sessions := (sv_sessions s)[?c := y]\<rparr>"]) (simp_all add: Peer_Close_def Peer_IsClosed_def Let_def)
qed

lemma run_handlers_grown:
  assumes "run_handlers ops n streams instances order s = Some (s', r)" and "server_ok ops ok s" and "n < length (sv_heap s)"
  shows "grown ops ok s s'"
  using assms
proof (induction order arbitrary: s instances)
  case Nil
  have "(sv_heap s)[n := sv_heap s ! n] = sv_heap s" by simp
  then show ?case using Nil grown_peer [OF Nil.prems(2,3) refl refl] by simp
next
  case (Cons i order)
  let ?p = "sv_heap s ! n"
  let ?c = "pe_conn ?p"
  have c: "?c < length (sv_sessions s)" using peers_okD(6) [OF server_okD(1) [OF Cons.prems(2)]] Cons.prems(3) by simp
  have x: "ok (sv_sessions s ! ?c)" using peers_okD(7) [OF server_okD(1) [OF Cons.prems(2)]] c by simp
  have refl: "grown ops ok s s" using grown_peer [OF Cons.prems(2,3) refl refl] by simp
  show ?case
  proof (cases "server_getProtocol s (ps_Name (streams ! i)) (ps_Version (streams ! i))")
    case None
    then show ?thesis using Cons.prems(1) refl by simp
  next
    case (Some proto)
    then have h: "handler_ok ops proto" using server_okD(4) [OF Cons.prems(2)] by (auto simp: server_getProtocol_def find_Some_iff)
    obtain y q where y: "pr_HandlerFn proto i ?p (sv_sessions s ! ?c) = Some (y, q)"
      using Cons.prems(1) Some by (cases "pr_HandlerFn proto i ?p (sv_sessions s ! ?c)") (auto simp: Let_def)
    then have "(so_moves ops)\<^sup>*\<^sup>* (sv_sessions s ! ?c) y" using h unfolding handler_ok_def by blast
    from moves_many [OF this x] have g: "grown ops ok s (s\<lparr>sv_sessions := (sv_sessions s)[?c := y]\<rparr>)" (is "grown ops ok s ?s1")
      by (intro grown_session [OF Cons.prems(2) c]) auto
    have ok1: "server_ok ops ok ?s1" by (rule grown_ok [OF Cons.prems(2) g])
    show ?thesis
    proof (cases q)
      case (Inl e)
      then show ?thesis using Cons.prems(1) Some y g by (simp add: Let_def)
    next
      case (Inr u)
      have "run_handlers ops n streams (instances @ [pr_Spec proto]) order ?s1 = Some (s', r)" using Cons.prems(1) Some y Inr by (simp add: Let_def)
      from Cons.IH [OF this ok1] Cons.prems(3) have "grown ops ok ?s1 s'" by simp
      then show ?thesis using grown_trans g by blast
    qed
  qed
qed

lemma addSession_open_ok:
  assumes run: "addSession_open ops order x s = Some (s', r)" and s: "server_ok ops ok s" and x: "ok x"
  shows "server_ok ops ok s' \<and> same_queues s s' \<and> (\<forall>n. r = Inr n \<longrightarrow> minded ops s' n)"
proof -
  let ?n = "length (sv_heap s)"
  obtain p where p: "newPeer ops (length (sv_sessions s)) x = Some p" "pe_conn p = length (sv_sessions s)"
    using run by (auto simp: addSession_open_def newPeer_def Let_def split: option.splits if_splits)
  let ?s1 = "s\<lparr>sv_sessions := sv_sessions s @ [x], sv_heap := sv_heap s @ [p]\<rparr>"
  have g1: "grown ops ok s ?s1"
    using p(2) x peers_okD(6,7) [OF server_okD(1) [OF s]] by (auto simp: grown_def nth_append less_Suc_eq)
  note ok1 = grown_ok [OF s g1]
  obtain s2 q where run2: "run_handlers ops ?n (so_Streams ops x) [] order ?s1 = Some (s2, q)"
    using run p(1) by (auto simp: addSession_open_def Let_def split: option.splits)
  then have g2: "grown ops ok ?s1 s2" by (rule run_handlers_grown [OF _ ok1]) simp
  note ok2 = grown_ok [OF ok1 g2]
  have n: "?n < length (sv_heap s2)" using g2 by (simp add: grown_def)
  have same: "same_queues s s2" by (rule grown_same [OF grown_trans [OF g1 g2]])
  show ?thesis
  proof (cases q)
    case (Inl e)
    obtain s3 where s3: "Peer_Close ops ?n s2 = Some s3" "grown ops ok s2 s3" using Peer_Close_grown [OF ok2 n] by blast
    then have "s' = s3" "r = Inl e" using run p(1) run2 Inl by (simp_all add: addSession_open_def Let_def)
    then show ?thesis using grown_ok [OF ok2 s3(2)] grown_same [OF grown_trans [OF grown_trans [OF g1 g2] s3(2)]] by simp
  next
    case (Inr instances)
    let ?s3 = "s2\<lparr>sv_heap := (sv_heap s2)[?n := (sv_heap s2 ! ?n)\<lparr>pe_protocols := instances\<rparr>]\<rparr>"
    have g3: "grown ops ok s2 ?s3" by (rule grown_peer [OF ok2 n]) simp_all
    have e: "s' = ?s3\<lparr>sv_watching := sv_watching s2 @ [?n]\<rparr>" "r = Inr ?n" using run p(1) run2 Inr by (simp_all add: addSession_open_def Let_def)
    have "minded ops ?s3 k \<Longrightarrow> minded ops s' k" for k by (auto simp: e minded_def Peer_IsClosed_def)
    then have "server_ok ops ok s'" using grown_ok [OF ok2 g3] n by (auto simp: e server_ok_def peers_ok_def queues_ok_def dialing_def)
    then show ?thesis using same n by (simp add: e same_queues_def minded_def)
  qed
qed

end

text \<open>Whom the server minds does not depend on its queues.\<close>

lemma minded_simps [simp]:
  "minded ops (s\<lparr>sv_peers := a\<rparr>) n = minded ops s n" "minded ops (s\<lparr>sv_EventCh := b\<rparr>) n = minded ops s n"
  "minded ops (s\<lparr>sv_addPeer := c\<rparr>) n = minded ops s n" "minded ops (s\<lparr>sv_tasks := c\<rparr>) n = minded ops s n"
  "minded ops (s\<lparr>sv_dispatcher := d\<rparr>) n = minded ops s n" "minded ops (s\<lparr>sv_peerStore := e\<rparr>) n = minded ops s n"
  "minded ops (s\<lparr>sv_running := f\<rparr>) n = minded ops s n" "minded ops (s\<lparr>sv_sending := g\<rparr>) n = minded ops s n"
  "minded ops (s\<lparr>sv_started := h\<rparr>) n = minded ops s n" "minded ops (s\<lparr>sv_accepting := h\<rparr>) n = minded ops s n"
  "minded ops (s\<lparr>sv_info := i\<rparr>) n = minded ops s n"
  by (simp_all add: minded_def Peer_IsClosed_def)

lemmas server_fields = server_ok_def peers_ok_def queues_ok_def dialing_def

lemma dialTask_after_ok:
  assumes "disp_ok (sv_dispatcher s)"
  obtains d where "disp_ok d" "dialTask_after now task err contains s =
    Some (if err = None then s\<lparr>sv_dispatcher := d, sv_peerStore := PeerStore_Update task PeerActive (sv_peerStore s)\<rparr> else s\<lparr>sv_dispatcher := d\<rparr>)"
    "contains = Contains (sv_dispatcher s) task \<Longrightarrow> Contains d task \<longleftrightarrow> err = Some ''too many peers''"
    "i \<noteq> task \<Longrightarrow> Contains d i = Contains (sv_dispatcher s) i"
proof -
  obtain da ra where a: "Add (sv_dispatcher s) task (cf_DialBusyInterval (sv_config s)) now = (da, ra)" "disp_ok da"
    "d_tracked da = (d_tracked (sv_dispatcher s))(task \<mapsto> \<lparr>job = task, period = cf_DialBusyInterval (sv_config s)\<rparr>)"
    using Add_ok [OF assms] by metis
  obtain dr where r: "Dispatcher_Remove (sv_dispatcher s) task = Some (dr, Inr ())" "disp_ok dr" "d_tracked dr = (d_tracked (sv_dispatcher s))(task := None)"
    using Dispatcher_Remove_ok [OF assms] by metis
  show ?thesis
  proof (cases "err = Some ''too many peers''")
    case busy: True
    show ?thesis
    proof (cases contains)
      case True
      show ?thesis by (rule that [of "sv_dispatcher s"]) (use assms busy True in \<open>simp_all add: dialTask_after_def Contains_def Let_def\<close>)
    next
      case False
      show ?thesis by (rule that [of da]) (use a busy False in \<open>simp_all add: dialTask_after_def Contains_def Let_def\<close>)
    qed
  next
    case other: False
    show ?thesis
    proof (cases contains)
      case True
      show ?thesis by (rule that [of dr]) (use r other True in \<open>simp_all add: dialTask_after_def Contains_def Let_def\<close>)
    next
      case False
      show ?thesis by (rule that [of "sv_dispatcher s"]) (use assms other False in \<open>simp_all add: dialTask_after_def Contains_def Let_def\<close>)
    qed
  qed
qed

lemma Dial_ok: "server_ok ops ok s \<Longrightarrow> server_ok ops ok (Dial e s)"
  by (simp add: server_fields Dial_def)

lemma Dial_many_ok: "server_ok ops ok s \<Longrightarrow> server_ok ops ok (foldl (\<lambda>s peer. Dial peer s) s es)"
  by (induction es arbitrary: s) (simp_all add: Dial_ok)

lemma Start_ok:
  assumes "server_ok ops ok s" and run: "Start order setupErr s = Some (s', r)"
  shows "server_ok ops ok s'"
proof -
  define s1 where "s1 = foldl (\<lambda>s peer. Dial peer s) s (PeerStore_Load order (sv_peerStore s))"
  have s1: "server_ok ops ok s1" unfolding s1_def by (rule Dial_many_ok [OF assms(1)])
  then obtain d where d: "SetEnabled (sv_dispatcher s1) True = Some d" "disp_ok d" using SetEnabled_ok by (metis server_okD(3))
  have "server_ok ops ok (buildInfo s1)" "server_ok ops ok ((buildInfo s1)\<lparr>sv_started := True, sv_accepting := True, sv_dispatcher := d\<rparr>)"
    using s1 d(2) by (simp_all add: server_fields buildInfo_def)
  moreover have "s' = (if setupErr = None then (buildInfo s1)\<lparr>sv_started := True, sv_accepting := True, sv_dispatcher := d\<rparr> else buildInfo s1)"
    using run d(1) by (auto simp: Start_def Let_def s1_def [symmetric] buildInfo_def split: option.splits)
  ultimately show ?thesis by simp
qed

lemma addSession_insert_ok:
  assumes "server_ok ops ok s" and "minded ops s n"
  shows "server_ok ops ok (addSession_insert n s)"
  using assms by (auto simp: server_fields addSession_insert_def Let_def minded_def [of _ _ n])

lemma removePeer_ok: "server_ok ops ok s \<Longrightarrow> server_ok ops ok (removePeer n s)"
  by (simp add: server_fields removePeer_def)

lemma watch_closed_ok:
  assumes ok: "server_ok ops ok s" and closed: "Peer_IsClosed ops s n"
  shows "server_ok ops ok (watch_closed n s)"
proof -
  have "minded ops s k \<Longrightarrow> minded ops (s\<lparr>sv_watching := remove1 n (sv_watching s)\<rparr>) k" for k
    using closed by (cases "k = n") (auto simp: minded_def Peer_IsClosed_def in_set_remove1)
  moreover have "set (remove1 n (sv_watching s)) \<subseteq> set (sv_watching s)" by (rule set_remove1_subset)
  ultimately have "server_ok ops ok (s\<lparr>sv_watching := remove1 n (sv_watching s)\<rparr>)" using ok by (auto simp: server_fields)
  from removePeer_ok [OF this, of n] show ?thesis by (cases s) (simp add: watch_closed_def removePeer_def)
qed

context session_laws
begin

lemma close_peers_ok:
  assumes "server_ok ops ok s" and "\<forall>n \<in> set ns. n < length (sv_heap s)"
  shows "\<exists>s'. close_peers ops ns s = Some s' \<and> grown ops ok s s' \<and> (\<forall>n \<in> set ns. Peer_IsClosed ops s' n)"
  using assms
proof (induction ns arbitrary: s)
  case Nil
  have "grown ops ok s s" using peers_okD(6,7) [OF server_okD(1) [OF Nil.prems(1)]] by (auto simp: grown_def intro!: exI [of _ "sv_sessions s"] exI [of _ "sv_heap s"])
  then show ?case by simp
next
  case (Cons n ns)
  obtain s1 where s1: "Peer_Close ops n s = Some s1" "grown ops ok s s1" "Peer_IsClosed ops s1 n"
    using Peer_Close_grown [OF Cons.prems(1)] Cons.prems(2) by auto
  have len: "length (sv_heap s) \<le> length (sv_heap s1)" using s1(2) by (simp add: grown_def)
  note ok1 = grown_ok [OF Cons.prems(1) s1(2)]
  have below: "\<forall>k \<in> set ns. k < length (sv_heap s1)" using Cons.prems(2) len by fastforce
  obtain s2 where s2: "close_peers ops ns s1 = Some s2" "grown ops ok s1 s2" "\<forall>k \<in> set ns. Peer_IsClosed ops s2 k"
    using Cons.IH [OF ok1] below by blast
  have n: "n < length (sv_heap s1)" using Cons.prems(2) len by auto
  then have "pe_conn (sv_heap s1 ! n) < length (sv_sessions s1)" using peers_okD(6) [OF server_okD(1) [OF ok1]] by simp
  then have "Peer_IsClosed ops s2 n" using s1(3) s2(2) n by (simp add: grown_def Peer_IsClosed_def)
  then show ?case using s1 s2 grown_trans [OF s1(2) s2(2)] by simp
qed

lemma closes_all:
  assumes "server_ok ops ok s" and "iterates order (sv_peers s)"
  obtains s' where "Server_Disconnect ops order s = Some s'" "Server_Close ops order s = Some s'" "grown ops ok s s'"
    "\<And>i n. sv_peers s' i = Some n \<Longrightarrow> Peer_IsClosed ops s' n"
proof -
  have "\<forall>n \<in> set (map (\<lambda>i. the (sv_peers s i)) order). n < length (sv_heap s)"
    using assms(2) peers_okD(1) [OF server_okD(1) [OF assms(1)]] by (fastforce simp: iterates_def minded_def)
  from close_peers_ok [OF assms(1) this] obtain s' where s': "close_peers ops (map (\<lambda>i. the (sv_peers s i)) order) s = Some s'" "grown ops ok s s'"
    "\<And>n. n \<in> set (map (\<lambda>i. the (sv_peers s i)) order) \<Longrightarrow> Peer_IsClosed ops s' n" by blast
  have "Peer_IsClosed ops s' n" if h: "sv_peers s' i = Some n" for i n
  proof (rule s'(3))
    have "sv_peers s i = Some n" using h grown_fields(1) [OF s'(2)] by simp
    then have "i \<in> set order" "n = the (sv_peers s i)" using assms(2) by (auto simp: iterates_def)
    then show "n \<in> set (map (\<lambda>i. the (sv_peers s i)) order)" by auto
  qed
  with s'(1,2) show ?thesis by (intro that [of s']) (simp_all add: Server_Disconnect_def Server_Close_def)
qed

lemma server_connect_ok:
  assumes run: "connectWithEnode_open ops order dialed t s = Some (s', r)" and "server_ok ops ok s" and "all_streams ops dialed order'"
  shows "server_ok ops ok s' \<and> same_queues s s' \<and> (\<forall>n. r = Inr (Some n) \<longrightarrow> minded ops s' n)"
proof -
  have refl: "same_queues s s" by (simp add: same_queues_def)
  show ?thesis
  proof (cases "sv_peers s t = None \<and> (\<exists>x. dialed = Inr x)")
    case True
    then obtain x where x: "dialed = Inr x" "sv_peers s t = None" by blast
    then obtain q where q: "addSession_open ops order x s = Some (s', q)" "r = map_sum (\<lambda>e. e) Some q"
      using run by (auto simp: connectWithEnode_open_def)
    have "ok x" using assms(3) fresh_ok x by (simp add: all_streams_def)
    from addSession_open_ok [OF q(1) assms(2) this] show ?thesis using q(2) by (cases q) auto
  qed (use run assms(2) refl in \<open>auto simp: connectWithEnode_open_def split: sum.splits if_splits\<close>)
qed

lemma running_ok:
  assumes "server_ok ops ok s" and "\<And>n t. Inserting n t \<in> set rs \<Longrightarrow> minded ops s n" and "length (concat (map dial_of rs)) \<le> cf_DialTasks (sv_config s)"
  shows "server_ok ops ok (s\<lparr>sv_running := rs\<rparr>)"
  using assms by (auto simp: server_fields)

lemma server_step_ok:
  assumes "server_step ops s s'" and ok: "server_ok ops ok s"
  shows "server_ok ops ok s'"
  using assms(1)
proof cases
  case (dial_task t ts dialed order s1 r)
  have "server_ok ops ok (s\<lparr>sv_tasks := ts\<rparr>)" using ok dial_task(2) by (simp add: server_fields)
  from server_connect_ok [OF dial_task(5) this dial_task(4)] have s1: "server_ok ops ok s1" "sv_running s1 = sv_running s \<and> sv_config s1 = sv_config s"
    "\<And>n. r = Inr (Some n) \<Longrightarrow> minded ops s1 n" by (auto simp: same_queues_def)
  have "minded ops s1 n" if "Inserting n u = after_connect t r" for n u
    using that s1(3) by (cases "(t, r)" rule: after_connect.cases) auto
  moreover have "length (dial_of (after_connect t r)) = 1" by (cases "(t, r)" rule: after_connect.cases) auto
  ultimately show ?thesis
    using dial_task(1,3) s1(1,2) peers_okD(3) [OF server_okD(1) [OF s1(1)]]
    by (auto simp: same_queues_def dialing_def intro!: running_ok)
next
  case (dial_sync dialed order t s1 r)
  from server_connect_ok [OF dial_sync(3) ok dial_sync(2)] have s1: "server_ok ops ok s1" "same_queues s s1" "\<And>n. r = Inr (Some n) \<Longrightarrow> minded ops s1 n" by auto
  have "minded ops s1 n" if "Inserting n u \<in> set (after_addSession r)" for n u using that s1(3) by (cases r rule: after_addSession.cases) auto
  moreover have le: "length (concat (map dial_of (sv_running s1 @ after_addSession r))) \<le> cf_DialTasks (sv_config s1)"
    using server_okD(2) [OF s1(1)] by (cases r rule: after_addSession.cases) (auto simp: queues_ok_def dialing_def)
  ultimately show ?thesis
    unfolding dial_sync(1) using peers_okD(3) [OF server_okD(1) [OF s1(1)]] by (intro running_ok [OF s1(1) _ le]) auto
next
  case (accept x order s1 r)
  have "server_ok ops ok (s\<lparr>sv_accepting := False\<rparr>)" "ok x" using ok accept(3) fresh_ok by (simp_all add: server_fields all_streams_def)
  from addSession_open_ok [OF accept(4) this] have s1: "server_ok ops ok s1" "\<And>n. r = Inr n \<Longrightarrow> minded ops s1 n" by auto
  have "minded ops s1 n" if "Inserting n u \<in> set (after_addSession (map_sum (\<lambda>e. e) Some r))" for n u using that s1(2) by (cases r) auto
  moreover have le: "length (concat (map dial_of (sv_running s1 @ after_addSession (map_sum (\<lambda>e. e) Some r)))) \<le> cf_DialTasks (sv_config s1)"
    using server_okD(2) [OF s1(1)] by (cases r) (auto simp: queues_ok_def dialing_def)
  ultimately show ?thesis
    unfolding accept(1) using peers_okD(3) [OF server_okD(1) [OF s1(1)]] by (intro running_ok [OF s1(1) _ le]) auto
next
  case (insert_peer xs n t ys)
  have n: "minded ops s n" using peers_okD(3) [OF server_okD(1) [OF ok], of n t] insert_peer(2) by simp
  have "server_ok ops ok (s\<lparr>sv_running := xs @ (case t of None \<Rightarrow> [] | Some t \<Rightarrow> [Dialed t None]) @ ys\<rparr>)"
    using peers_okD(3) [OF server_okD(1) [OF ok]] server_okD(2) [OF ok] insert_peer(2)
    by (intro running_ok [OF ok]) (cases t; auto simp: queues_ok_def dialing_def)+
  then show ?thesis using n insert_peer(1) by (auto intro!: addSession_insert_ok)
next
  case (check_task xs t e ys)
  show ?thesis unfolding check_task(1)
    using peers_okD(3) [OF server_okD(1) [OF ok]] server_okD(2) [OF ok] check_task(2) by (intro running_ok [OF ok]) (auto simp: queues_ok_def dialing_def)
next
  case (finish_task xs t e c ys now)
  have r: "server_ok ops ok (s\<lparr>sv_running := xs @ ys\<rparr>)"
    using peers_okD(3) [OF server_okD(1) [OF ok]] server_okD(2) [OF ok] finish_task(1) by (intro running_ok [OF ok]) (auto simp: queues_ok_def dialing_def)
  let ?r = "s\<lparr>sv_running := xs @ ys\<rparr>"
  obtain d where d: "disp_ok d" "dialTask_after now t e c ?r =
      Some (if e = None then ?r\<lparr>sv_dispatcher := d, sv_peerStore := PeerStore_Update t PeerActive (sv_peerStore ?r)\<rparr> else ?r\<lparr>sv_dispatcher := d\<rparr>)"
    using dialTask_after_ok [OF server_okD(3) [OF r], of now t e c] by metis
  then have "s' = (if e = None then ?r\<lparr>sv_dispatcher := d, sv_peerStore := PeerStore_Update t PeerActive (sv_peerStore ?r)\<rparr> else ?r\<lparr>sv_dispatcher := d\<rparr>)"
    using finish_task(2) by simp
  moreover have "server_ok ops ok (?r\<lparr>sv_dispatcher := d, sv_peerStore := q\<rparr>)" "server_ok ops ok (?r\<lparr>sv_dispatcher := d\<rparr>)" for q
    using r d(1) by (simp_all add: server_fields)
  ultimately show ?thesis by simp
next
  case (session c x)
  have "ok (sv_sessions s ! c)" using peers_okD(7) [OF server_okD(1) [OF ok]] session(2) by simp
  then show ?thesis unfolding session(1)
    using session(2,3) moves_ok moves_closed by (intro grown_ok [OF ok] grown_session [OF ok]) auto
next
  case (disconnect_peers order)
  from closes_all [OF ok disconnect_peers(1)] show ?thesis using disconnect_peers(2) grown_ok [OF ok] by auto
next
  case (dispatcher d)
  then show ?thesis using ok disp_step_ok [of "sv_dispatcher s" d] by (auto simp: server_fields)
next
  case (take_event j js)
  have "disp_step (sv_dispatcher s) ((sv_dispatcher s)\<lparr>d_eventCh := js\<rparr>)" using take_event(4) by (intro do_receive) (simp add: Events_def)
  then have "disp_ok ((sv_dispatcher s)\<lparr>d_eventCh := js\<rparr>)" using disp_step_ok server_okD(3) [OF ok] by blast
  then show ?thesis using ok take_event(1) by (auto simp: server_fields)
next
  case dial
  then show ?thesis using Dial_ok [OF ok] by simp
next
  case start
  then show ?thesis using Start_ok [OF ok] by blast
next
  case watch
  then show ?thesis using watch_closed_ok [OF ok] by blast
next
  case remove_peer
  then show ?thesis using removePeer_ok [OF ok] by blast
next
  case (read_event e es)
  then show ?thesis using ok by (simp add: server_fields)
qed (use ok in \<open>simp_all add: server_fields\<close>)

end

section \<open>RLPx sessions keep the contract\<close>

definition rlpx_ops :: "('k, 'v) rlpx_env \<Rightarrow> 'k Session session_ops" where
  "rlpx_ops env = \<lparr>so_Streams = (\<lambda>s. map st_protocol (Session_Streams s)), so_GetInfo = GetInfo, so_IsClosed = Session_IsClosed,
     so_Close = (\<lambda>s. map_option fst (Session_Close env s)), so_moves = sess_step env,
     so_fresh = (\<lambda>s. \<exists>d readFirst arrived priv backends info conn enode.
       rlpx_connect env d readFirst arrived priv backends info conn enode = Some (Inr s) \<or> rlpx_accept env d readFirst arrived priv backends info conn = Some (Inr s))\<rparr>"

lemma rlpx_ops_simps [simp]:
  "so_Streams (rlpx_ops env) s = map st_protocol (Session_Streams s)" "so_GetInfo (rlpx_ops env) = GetInfo" "so_IsClosed (rlpx_ops env) = Session_IsClosed"
  "so_Close (rlpx_ops env) s = map_option fst (Session_Close env s)" "so_moves (rlpx_ops env) = sess_step env"
  by (simp_all add: rlpx_ops_def)

text \<open>A well-formed session that knows the other end.\<close>

definition session_named :: "'k Session \<Rightarrow> bool" where
  "session_named s \<longleftrightarrow> session_ok s \<and> ss_remoteInfo s \<noteq> None \<and> (\<exists>n. ss_enode s = Some n \<and> length (en_ID n) = 64)"

lemma ParseURL_id: "ParseURL u = Some (Inr n) \<Longrightarrow> length (en_ID n) = 64"
  by (auto simp: ParseURL_def bindP_def nodeIDBytes_def Let_def of_option_def split: option.splits sum.splits if_splits)

lemma p2pHandshake_enode:
  assumes run: "p2pHandshake env d s = Some (s', Inr ())"
  shows "\<exists>n. ss_enode s' = Some n \<and> length (en_ID n) = 64"
  using run
  by (auto simp: p2pHandshake_def bindS_def pureO_def pureP_def dest!: ParseURL_id split: option.splits sum.splits)

lemma Handshake_named:
  assumes run: "Handshake env d readFirst arrived s = Some (s', Inr ())" and "\<not> ss_shutdown s"
  shows "session_named s'"
proof -
  obtain s1 where s1: "p2pHandshake env d s = Some (s1, Inr ())"
    and rest: "bindS (gets ss_Info) (\<lambda>info. bindS (doProtocolHandshake env readFirst arrived info) (\<lambda>info.
      modify (\<lambda>s. s\<lparr>ss_remoteInfo := Some info\<rparr>))) s1 = Some (s', Inr ())"
    using run unfolding Handshake_def by (rule bindS_Some_cases) auto
  obtain s2 info where s2: "doProtocolHandshake env readFirst arrived (ss_Info s1) s1 = Some (s2, Inr info)" "s' = s2\<lparr>ss_remoteInfo := Some info\<rparr>"
    using rest by (auto simp: bindS_def split: option.splits sum.splits)
  have "same_ranges s1 s2" using keptD [OF kept_doProtocolHandshake _ s2(1)] p2pHandshake_ok [OF s1 assms(2)] by simp
  then show ?thesis
    using Handshake_ok [OF assms] p2pHandshake_enode [OF s1] s2(2) by (simp add: session_named_def same_ranges_def)
qed

lemma opened_named:
  assumes "bindS (Handshake env d readFirst arrived) (\<lambda>_. negotiateProtocols) s = Some (s', Inr x)" and "\<not> ss_shutdown s"
  shows "session_named s'"
  using assms(1)
proof (cases rule: bindS_Some_cases)
  case (result a t)
  then have "session_named t" using Handshake_named [OF _ assms(2)] by simp
  then show ?thesis using result(2) negotiateProtocols_ok [OF result(2)] by (auto simp: session_named_def negotiateProtocols_eq Let_def split: option.splits)
qed simp

lemma fresh_opened:
  assumes "so_fresh (rlpx_ops env) s"
  obtains d readFirst arrived s0 x where "bindS (Handshake env d readFirst arrived) (\<lambda>_. negotiateProtocols) s0 = Some (s, Inr x)" "\<not> ss_shutdown s0"
proof -
  obtain d readFirst arrived priv backends info conn enode where
    "rlpx_connect env d readFirst arrived priv backends info conn enode = Some (Inr s) \<or> rlpx_accept env d readFirst arrived priv backends info conn = Some (Inr s)"
    using assms unfolding rlpx_ops_def session_ops.simps by blast
  then show ?thesis
  proof
    assume "rlpx_connect env d readFirst arrived priv backends info conn enode = Some (Inr s)"
    then obtain pub x where "bindS (Handshake env d readFirst arrived) (\<lambda>_. negotiateProtocols) (rlpx_Client backends conn priv pub (networkInfoToLocalInfo info)) = Some (s, Inr x)"
      unfolding rlpx_connect_def by (simp split: sum.splits option.splits prod.splits)
    then show ?thesis by (rule that) (simp add: rlpx_Client_def rlpx_Server_def)
  next
    assume "rlpx_accept env d readFirst arrived priv backends info conn = Some (Inr s)"
    then obtain x where "bindS (Handshake env d readFirst arrived) (\<lambda>_. negotiateProtocols) (rlpx_Server backends conn priv (networkInfoToLocalInfo info)) = Some (s, Inr x)"
      unfolding rlpx_accept_def by (simp split: sum.splits option.splits prod.splits)
    then show ?thesis by (rule that) (simp add: rlpx_Server_def)
  qed
qed

lemma fresh_named: "so_fresh (rlpx_ops env) s \<Longrightarrow> session_named s"
  by (erule fresh_opened) (rule opened_named)

text \<open>A new session has at least one stream.\<close>

lemma fresh_streams:
  assumes "so_fresh (rlpx_ops env) s"
  shows "ss_streams s \<noteq> []"
  using assms
proof (rule fresh_opened)
  fix d readFirst arrived s0 x
  assume "bindS (Handshake env d readFirst arrived) (\<lambda>_. negotiateProtocols) s0 = Some (s, Inr x)"
  then show ?thesis
  proof (cases rule: bindS_Some_cases)
    case (result a t)
    then show ?thesis by (auto simp: negotiateProtocols_eq Let_def split: option.splits if_splits)
  qed simp
qed

sublocale rlpx_laws \<subseteq> rlpx_session: session_laws "rlpx_ops env" session_named
proof
  fix x y :: "'k Session"
  assume x: "session_named x"
  then have ok: "session_ok x" by (simp add: session_named_def)
  show "\<exists>info. so_GetInfo (rlpx_ops env) x = Some info \<and> length (en_ID (ni_Enode info)) = 64"
    using x by (auto simp: session_named_def GetInfo_def)
  obtain z where z: "Disconnect env DiscQuitting x = Some (z, Inr ())" "session_ok z \<and> ss_shutdown z \<and> (ss_enode z = ss_enode x) \<and> (ss_remoteInfo z \<noteq> None)"
    using Disconnect_closed [of x DiscQuitting] Disconnect_open [OF ok, of DiscQuitting] x
    by (cases "ss_shutdown x") (auto simp: session_named_def same_ranges_def)
  then show "\<exists>y. so_Close (rlpx_ops env) x = Some y \<and> session_named y \<and> so_IsClosed (rlpx_ops env) y"
    using x by (auto simp: Session_Close_def session_named_def session_ok_def Session_IsClosed_def)
  assume "so_moves (rlpx_ops env) x y"
  then have step: "session_ok y" "same_ranges x y" using sess_step_kept [of x y] ok by simp_all
  then show "session_named y" using x by (auto simp: session_named_def same_ranges_def)
  show "so_IsClosed (rlpx_ops env) x \<Longrightarrow> so_IsClosed (rlpx_ops env) y"
    using ok step by (auto simp: Session_IsClosed_def session_ok_def same_ranges_def)
qed (rule fresh_named)

lemma NewServer_ok:
  assumes "NewServer pub disc opts = Inr s" and "list_all (handler_ok ops) (cf_Protocols (sv_config s))"
  shows "server_ok ops ok s"
  using assms NewDispatcher_ok by (auto simp: NewServer_def Let_def server_fields split: option.splits)

context rlpx_laws
begin

lemmas axioms_session = rlpx_session.session_laws_axioms

end

text \<open>A server with the instance's protocol, whose handler does nothing.\<close>

definition demo_protocol :: "bool Session Protocol" where
  "demo_protocol = \<lparr>pr_Spec = demo_spec, pr_HandlerFn = (\<lambda>i p x. Some (x, Inr ()))\<rparr>"

lemma demo_handler: "handler_ok ops demo_protocol"
  by (simp add: handler_ok_def demo_protocol_def)

lemma demo_fresh:
  obtains x where "so_fresh (rlpx_ops demo_env) x" "so_Streams (rlpx_ops demo_env) x = [demo_spec]"
proof -
  obtain toc and c :: "bool Session" where c:
    "rlpx_connect demo_env (demo_draws True) False 2 True [demo_spec] (demo_info True) (pipe_to toc ''pipe'') (ni_Enode (demo_info False)) = Some (Inr c)"
    "ss_streams c = [NewStream 16 17 \<lparr>st_protocol := demo_spec\<rparr>]" by (rule demo_linked)
  have "so_fresh (rlpx_ops demo_env) c" unfolding rlpx_ops_def session_ops.simps using c(1) by blast
  then show ?thesis by (rule that) (simp add: c(2) Session_Streams_def)
qed

text \<open>A server that has accepted a session and is about to store its peer.\<close>

lemma demo_accepted:
  obtains s s' x p where "NewServer (demo_point True) None [WithProtocol demo_protocol] = Inr s" "(server_step (rlpx_ops demo_env))\<^sup>*\<^sup>* s s'"
    "sv_running s' = [Inserting 0 None]" "sv_watching s' = [0]" "sv_peers s' = Map.empty" "sv_heap s' = [p]" "pe_conn p = 0" "sv_sessions s' = [x]"
    "sv_config s' = sv_config s" "sv_config s = WithProtocol demo_protocol DefaultConfig"
proof -
  obtain s where s: "NewServer (demo_point True) None [WithProtocol demo_protocol] = Inr s" by (simp add: NewServer_def Let_def)
  obtain x where x: "so_fresh (rlpx_ops demo_env) x" "so_Streams (rlpx_ops demo_env) x = [demo_spec]" by (rule demo_fresh)
  have named: "session_named x" by (rule demo_rlpx.rlpx_session.fresh_ok [OF x(1)])
  have s_fields: "sv_config s = WithProtocol demo_protocol DefaultConfig" "sv_running s = []" "sv_watching s = []" "sv_peers s = Map.empty" "sv_heap s = []"
    "sv_sessions s = []" "sv_peerStore s = NoopPeerStore" "\<not> sv_started s"
    using s by (auto simp: NewServer_def Let_def)
  have "server_ok (rlpx_ops demo_env) session_named s"
    using NewServer_ok [OF s] s_fields(1) demo_handler by (simp add: WithProtocol_def DefaultConfig_def)
  then obtain d where d: "SetEnabled (sv_dispatcher s) True = Some d" using SetEnabled_ok by (metis server_okD(3))
  let ?s1 = "(buildInfo s)\<lparr>sv_started := True, sv_accepting := True, sv_dispatcher := d\<rparr>"
  have start: "server_step (rlpx_ops demo_env) s ?s1"
    using s_fields d by (intro server_step.start [of s "[]" None]) (simp_all add: Start_def PeerStore_Load_def buildInfo_def)
  obtain p where p: "newPeer (rlpx_ops demo_env) 0 x = Some p" "pe_conn p = 0" by (rule demo_rlpx.rlpx_session.server_newPeer_ok [OF named])
  let ?p = "p\<lparr>pe_protocols := [demo_spec]\<rparr>"
  let ?s2 = "?s1\<lparr>sv_accepting := False, sv_sessions := [x], sv_heap := [?p], sv_watching := [0]\<rparr>"
  have "addSession_open (rlpx_ops demo_env) [0] x (?s1\<lparr>sv_accepting := False\<rparr>) = Some (?s2, Inr 0)"
    using s_fields p x(2)
    by (simp add: addSession_open_def buildInfo_def server_getProtocol_def WithProtocol_def DefaultConfig_def demo_protocol_def demo_spec_def Let_def del: rlpx_ops_simps)
  then have acc: "server_step (rlpx_ops demo_env) ?s1 (?s2\<lparr>sv_running := sv_running ?s2 @ after_addSession (map_sum (\<lambda>e. e) Some (Inr 0))\<rparr>)"
    using x by (intro server_step.accept [of ?s1 _ x "[0]"]) (simp_all add: all_streams_def lessThan_Suc del: rlpx_ops_simps)
  show ?thesis
    by (rule that [OF s rtranclp.rtrancl_into_rtrancl [OF r_into_rtranclp [of "server_step (rlpx_ops demo_env)", OF start] acc], of ?p x])
      (use s_fields p in \<open>simp_all add: buildInfo_def\<close>)
qed

text \<open>A session that ends while its peer is about to be stored: its goroutine removes nothing and ends, and then the peer is stored and
  no goroutine will remove it.\<close>

lemma closed_peer_stays:
  assumes "sv_running s = xs @ Inserting n t # ys" and "n \<in> set (sv_watching s)" and "distinct (sv_watching s)" and "Peer_IsClosed ops s n"
  shows "\<exists>s'. (server_step ops)\<^sup>*\<^sup>* s s' \<and> sv_peers s' (pe_ID (sv_heap s ! n)) = Some n \<and> Peer_IsClosed ops s' n \<and> n \<notin> set (sv_watching s')"
proof -
  let ?s1 = "watch_closed n s"
  have "server_step ops s ?s1" using assms(2,4) by (rule watch)
  moreover have "sv_running ?s1 = xs @ Inserting n t # ys" using assms(1) by (simp add: watch_closed_def removePeer_def)
  note insert_peer [OF this, of ops]
  ultimately have "(server_step ops)\<^sup>*\<^sup>* s (addSession_insert n (?s1\<lparr>sv_running := xs @ (case t of None \<Rightarrow> [] | Some t \<Rightarrow> [Dialed t None]) @ ys\<rparr>))" by simp
  then show ?thesis
    by (intro exI conjI, assumption) (use assms(3,4) in \<open>simp_all add: addSession_insert_def watch_closed_def removePeer_def Peer_IsClosed_def Let_def\<close>)
qed

section \<open>Properties\<close>





end
