(* ===== verification/EthBackend.thy ===== *)
theory EthBackend
  imports EthMsg Server
begin

text \<open>
  The eth protocol of \<open>wire/eth/backend.go\<close>: the handler of a peer, which compares statuses, answers requests and
  delivers responses, and the requests that a peer has in flight. The handler works on a stream of an RLPx session. The backend
  that a client implements is a parameter; what the handler tells it is in \<open>h_notes\<close>.

  A request is sent by one goroutine and its response delivered by the one that runs the handler. The phases of the first are
  \<open>req_phase\<close>; what the second has left to do between looking a request up and sending on its channel is \<open>h_delivering\<close>.
\<close>

section \<open>Definitions\<close>

record 'v Eth66Backend =
  Impl_Status :: eth_Status
  Impl_GetBlockHeader :: "BlockHeadersPacket \<Rightarrow> 'v"
  Impl_GetBlockBodies :: "bytes list \<Rightarrow> 'v"
  Impl_GetTransactions :: "bytes list \<Rightarrow> 'v"

datatype 'v eth_note =
    NotifyPeer eth_Status | NotifyTransactions 'v | NotifyBlockHashes "NewBlockHash list" | NotifyTransactionHashes "bytes list"

text \<open>\<open>doRequest\<close>: the request is stored, waits in its select, has a result, has closed its channel, is deleted.\<close>

datatype req_phase =
    Stored | Selecting | Returned "eth_error option" | Closed "eth_error option" | Deleted "eth_error option"

text \<open>\<open>ir_resp\<close> reads a value into the caller's object; \<open>ir_got\<close> are the values it has read.\<close>

record 'v inflightRequest =
  ir_resp :: "'v \<Rightarrow> eth_error + unit"
  ir_got :: "'v list"
  ir_phase :: req_phase

record ('k, 'v) handler =
  h_session :: "'k Session"
  h_stream :: nat
  h_inflight :: "uint64 \<Rightarrow> nat option"
  h_requests :: "'v inflightRequest list"
  h_notes :: "'v eth_note list"
  h_delivering :: "(nat \<times> eth_error option) option"

type_synonym ('k, 'v, 'a) eth = "(('k, 'v) handler, eth_error, 'a) cmd"

definition StatusMsg :: uint64 where "StatusMsg = 0x00"
definition NewBlockHashesMsg :: uint64 where "NewBlockHashesMsg = 0x01"
definition TransactionsMsg :: uint64 where "TransactionsMsg = 0x02"
definition GetBlockHeadersMsg :: uint64 where "GetBlockHeadersMsg = 0x03"
definition BlockHeadersMsg :: uint64 where "BlockHeadersMsg = 0x04"
definition GetBlockBodiesMsg :: uint64 where "GetBlockBodiesMsg = 0x05"
definition BlockBodiesMsg :: uint64 where "BlockBodiesMsg = 0x06"
definition NewBlockMsg :: uint64 where "NewBlockMsg = 0x07"
definition NewPooledTransactionHashesMsg :: uint64 where "NewPooledTransactionHashesMsg = 0x08"
definition GetPooledTransactionsMsg :: uint64 where "GetPooledTransactionsMsg = 0x09"
definition PooledTransactionsMsg :: uint64 where "PooledTransactionsMsg = 0x0a"

lemmas eth_codes = StatusMsg_def NewBlockHashesMsg_def TransactionsMsg_def GetBlockHeadersMsg_def BlockHeadersMsg_def GetBlockBodiesMsg_def BlockBodiesMsg_def
  NewBlockMsg_def NewPooledTransactionHashesMsg_def GetPooledTransactionsMsg_def PooledTransactionsMsg_def

subsection \<open>The stream\<close>

definition on_stream :: "('k, 'a) sess \<Rightarrow> ('k, 'v, 'a) eth" where
  "on_stream m h = (case m (h_session h) of None \<Rightarrow> None
     | Some (s, r) \<Rightarrow> Some (h\<lparr>h_session := s\<rparr>, map_sum StreamFailed (\<lambda>x. x) r))"

definition handler_Write :: "('k, 'v) rlpx_env \<Rightarrow> uint64 \<Rightarrow> 'v \<Rightarrow> ('k, 'v, unit) eth" where
  "handler_Write env code msg =
     bindS (gets h_stream) (\<lambda>i. on_stream (Stream_WriteMsg env i code (MarshalRLP (rx_F env) msg)))"

definition handler_ReadMsg :: "('k, 'v, bytes \<times> uint16) eth" where
  "handler_ReadMsg = bindS (gets h_stream) (\<lambda>i. on_stream (Stream_ReadMsg i))"

definition handler_Close :: "('k, 'v) rlpx_env \<Rightarrow> ('k, 'v, unit) eth" where
  "handler_Close env = on_stream (Session_Close env)"

subsection \<open>Requests\<close>

definition set_phase :: "nat \<Rightarrow> req_phase \<Rightarrow> ('k, 'v) handler \<Rightarrow> ('k, 'v) handler" where
  "set_phase n p h = h\<lparr>h_requests := (h_requests h)[n := (h_requests h ! n)\<lparr>ir_phase := p\<rparr>]\<rparr>"

definition phase :: "('k, 'v) handler \<Rightarrow> nat \<Rightarrow> req_phase" where
  "phase h n = ir_phase (h_requests h ! n)"

text \<open>\<open>request\<close> writes first; \<open>doRequest\<close> then stores the request.\<close>

definition request_write :: "('k, 'v) rlpx_env \<Rightarrow> uint64 \<Rightarrow> uint64 \<Rightarrow> 'v \<Rightarrow> ('k, 'v, unit) eth" where
  "request_write env requestId code msg = handler_Write env code (Request_MarshalRLPWith (rx_F env) requestId msg)"

definition doRequest_store :: "uint64 \<Rightarrow> ('v \<Rightarrow> eth_error + unit) \<Rightarrow> ('k, 'v) handler \<Rightarrow> ('k, 'v) handler" where
  "doRequest_store requestId dst h =
     h\<lparr>h_requests := h_requests h @ [\<lparr>ir_resp = dst, ir_got = [], ir_phase = Stored\<rparr>], h_inflight := (h_inflight h)(requestId \<mapsto> length (h_requests h))\<rparr>"

definition doRequest_select :: "nat \<Rightarrow> ('k, 'v) handler \<Rightarrow> ('k, 'v) handler" where
  "doRequest_select n = set_phase n Selecting"

definition doRequest_timeout :: "nat \<Rightarrow> ('k, 'v) handler \<Rightarrow> ('k, 'v) handler" where
  "doRequest_timeout n = set_phase n (Returned (Some RequestTimeout))"

definition doRequest_close :: "nat \<Rightarrow> eth_error option \<Rightarrow> ('k, 'v) handler \<Rightarrow> ('k, 'v) handler" where
  "doRequest_close n r = set_phase n (Closed r)"

definition doRequest_delete :: "uint64 \<Rightarrow> nat \<Rightarrow> eth_error option \<Rightarrow> ('k, 'v) handler \<Rightarrow> ('k, 'v) handler" where
  "doRequest_delete requestId n r h = (set_phase n (Deleted r) h)\<lparr>h_inflight := (h_inflight h)(requestId := None)\<rparr>"

text \<open>The two calls as far as the message is written; \<open>doRequest_store\<close> and the steps of the request follow.\<close>

definition GetTransactions :: "('k, 'v) rlpx_env \<Rightarrow> uint64 \<Rightarrow> bytes list \<Rightarrow> ('k, 'v, unit) eth" where
  "GetTransactions env requestId hashes = request_write env requestId GetPooledTransactionsMsg (HashList_MarshalRLPWith (rx_F env) hashes)"

definition GetBlockByNumber :: "('k, 'v) rlpx_env \<Rightarrow> uint64 \<Rightarrow> uint64 \<Rightarrow> ('k, 'v, unit) eth" where
  "GetBlockByNumber env requestId i = request_write env requestId GetBlockHeadersMsg
     (BlockHeadersPacket_MarshalRLPWith (rx_F env) \<lparr>bh_Hash = None, bh_Number = i, bh_Amount = 1, bh_Skip = 0, bh_Reverse = False\<rparr>)"

text \<open>\<open>deliverResponse\<close> until its deferred function: the request is looked up, and reads the body.\<close>

definition deliver_load :: "uint64 \<Rightarrow> 'v \<Rightarrow> ('k, 'v, nat \<times> eth_error option) eth" where
  "deliver_load requestId raw h =
     (case h_inflight h requestId of
        None \<Rightarrow> Some (h, Inl RequestNotFound)
      | Some n \<Rightarrow>
        let req = h_requests h ! n; r = ir_resp req raw in
        Some (h\<lparr>h_requests := (h_requests h)[n := req\<lparr>ir_got := ir_got req @ [raw]\<rparr>]\<rparr>, Inr (n, case r of Inl e \<Rightarrow> Some e | Inr _ \<Rightarrow> None)))"

text \<open>The deferred function: a send on a channel without buffer, if its reader waits. On a closed channel it panics.\<close>

definition deliver_send :: "nat \<Rightarrow> eth_error option \<Rightarrow> ('k, 'v) handler \<Rightarrow> ('k, 'v) handler option" where
  "deliver_send n err h =
     (case phase h n of
        Selecting \<Rightarrow> Some (set_phase n (Returned err) h)
      | Stored \<Rightarrow> Some h
      | Returned _ \<Rightarrow> Some h
      | _ \<Rightarrow> None)"

definition deliverResponse :: "uint64 \<Rightarrow> 'v \<Rightarrow> ('k, 'v, unit) eth" where
  "deliverResponse requestId raw =
     bindS (deliver_load requestId raw) (\<lambda>(n, err).
     bindS (\<lambda>h. map_option (\<lambda>h. (h, Inr ())) (deliver_send n err h)) (\<lambda>_.
     case err of None \<Rightarrow> ret () | Some e \<Rightarrow> fail e))"

subsection \<open>The handler\<close>

text \<open>The status is written by a goroutine of its own; \<open>late\<close> says whether that runs after the comparison. Its error is only printed.\<close>

definition handshake :: "('k, 'v) rlpx_env \<Rightarrow> 'v Eth66Backend \<Rightarrow> bool \<Rightarrow> ('k, 'v, eth_Status) eth" where
  "handshake env impl late =
     bindS handler_ReadMsg (\<lambda>(buf, _).
     let send = bindS (attempt (handler_Write env StatusMsg (Status_MarshalRLPWith (rx_F env) (Impl_Status impl)))) (\<lambda>_ :: eth_error + unit. ret ()) in
     bindS (if late then ret () else send) (\<lambda>_.
     case UnmarshalRLP (rx_F env) buf (Status_UnmarshalRLPWith (rx_F env)) of
       Inl _ \<Rightarrow> panic
     | Inr remote \<Rightarrow>
       (case Status_Equal (Impl_Status impl) remote of
          Inl e \<Rightarrow> bindS (attempt (handler_Close env)) (\<lambda>_ :: eth_error + unit. bindS (if late then send else ret ()) (\<lambda>_. fail e))
        | Inr _ \<Rightarrow> bindS (if late then send else ret ()) (\<lambda>_. ret remote))))"

definition tell_impl :: "'v eth_note \<Rightarrow> ('k, 'v, unit) eth" where
  "tell_impl n = modify (\<lambda>h. h\<lparr>h_notes := h_notes h @ [n]\<rparr>)"

definition handle_response :: "('k, 'v) rlpx_env \<Rightarrow> bytes \<Rightarrow> ('k, 'v, unit) eth" where
  "handle_response env buf =
     bindS (pureR (UnmarshalRLP (rx_F env) buf (Response_UnmarshalRLPWith (rx_F env) Inr))) (\<lambda>(requestId, raw). deliverResponse requestId raw)"

definition handleMsg :: "('k, 'v) rlpx_env \<Rightarrow> 'v Eth66Backend \<Rightarrow> uint64 \<Rightarrow> bytes \<Rightarrow> ('k, 'v, unit) eth" where
  "handleMsg env impl code buf =
     (let F = rx_F env in
      if code = TransactionsMsg then bindS (pureR (of_option (EthRlp RlpError) (Parse F buf))) (\<lambda>v. tell_impl (NotifyTransactions v))
      else if code = NewBlockHashesMsg then
        bindS (pureR (UnmarshalRLP F buf (newBlockHashesPacket_UnmarshalRLPWith F))) (\<lambda>msg. tell_impl (NotifyBlockHashes msg))
      else if code = NewPooledTransactionHashesMsg then
        bindS (pureR (UnmarshalRLP F buf (HashList_UnmarshalRLPWith F))) (\<lambda>msg. tell_impl (NotifyTransactionHashes msg))
      else if code = BlockBodiesMsg then handle_response env buf
      else if code = GetBlockBodiesMsg then
        bindS (pureR (UnmarshalRLP F buf (Response_UnmarshalRLPWith F (HashList_UnmarshalRLPWith F)))) (\<lambda>(requestId, body).
        handler_Write env BlockBodiesMsg (Request_MarshalRLPWith F requestId (Impl_GetBlockBodies impl body)))
      else if code = BlockHeadersMsg then handle_response env buf
      else if code = GetBlockHeadersMsg then
        bindS (pureR (UnmarshalRLP F buf (Response_UnmarshalRLPWith F (BlockHeadersPacket_UnmarshalRLPWith F)))) (\<lambda>(requestId, body).
        handler_Write env BlockHeadersMsg (Request_MarshalRLPWith F requestId (Impl_GetBlockHeader impl body)))
      else if code = PooledTransactionsMsg then handle_response env buf
      else if code = GetPooledTransactionsMsg then
        bindS (pureR (UnmarshalRLP F buf (Response_UnmarshalRLPWith F (HashList_UnmarshalRLPWith F)))) (\<lambda>(requestId, body).
        handler_Write env PooledTransactionsMsg (Request_MarshalRLPWith F requestId (Impl_GetTransactions impl body)))
      else if code = NewBlockMsg then ret ()
      else panic)"

text \<open>A round of the loop in \<open>run\<close>. Errors of \<open>handleMsg\<close> are printed.\<close>

definition run_once :: "('k, 'v) rlpx_env \<Rightarrow> 'v Eth66Backend \<Rightarrow> ('k, 'v, unit) eth" where
  "run_once env impl =
     bindS handler_ReadMsg (\<lambda>(buf, code).
     bindS (attempt (handleMsg env impl (ucast code) buf)) (\<lambda>_ :: eth_error + unit. ret ()))"

partial_function (option) run_loop :: "('k, 'v) rlpx_env \<Rightarrow> 'v Eth66Backend \<Rightarrow> ('k, 'v) handler \<Rightarrow> (('k, 'v) handler \<times> (eth_error + unit)) option" where
  "run_loop env impl h =
     (case run_once env impl h of
        None \<Rightarrow> None
      | Some (h', Inl e) \<Rightarrow> Some (h', Inl e)
      | Some (h', Inr _) \<Rightarrow> run_loop env impl h')"

definition run :: "('k, 'v) rlpx_env \<Rightarrow> 'v Eth66Backend \<Rightarrow> bool \<Rightarrow> ('k, 'v, unit) eth" where
  "run env impl late =
     bindS (handshake env impl late) (\<lambda>remote.
     bindS (tell_impl (NotifyPeer remote)) (\<lambda>_. run_loop env impl))"

definition new_handler :: "'k Session \<Rightarrow> nat \<Rightarrow> ('k, 'v) handler" where
  "new_handler session i = \<lparr>h_session = session, h_stream = i, h_inflight = Map.empty, h_requests = [], h_notes = [], h_delivering = None\<rparr>"

text \<open>The text of an error is not used: \<open>text\<close> is any function that gives it.\<close>

definition Eth66 :: "('k, 'v) rlpx_env \<Rightarrow> 'v Eth66Backend \<Rightarrow> bool \<Rightarrow> (eth_error \<Rightarrow> string) \<Rightarrow> 'k Session Protocol" where
  "Eth66 env impl late text = \<lparr>pr_Spec = \<lparr>ps_Name = ''eth'', ps_Version = 66, ps_Length = 17\<rparr>,
     pr_HandlerFn = (\<lambda>i p session. map_option (\<lambda>(h, r). (h_session h, map_sum text (\<lambda>x. x) r)) (run env impl late (new_handler session i)))\<rparr>"

subsection \<open>The goroutines together\<close>

text \<open>
  The steps of the requests and of the delivery, in any order: \<open>deliver\<close> begins when a response arrives, and \<open>complete\<close> is its deferred function.
\<close>

inductive eth_step :: "('k, 'v) handler \<Rightarrow> ('k, 'v) handler \<Rightarrow> bool" where
  store: "h_inflight h requestId = None \<Longrightarrow> eth_step h (doRequest_store requestId dst h)"
| select: "n < length (h_requests h) \<Longrightarrow> phase h n = Stored \<Longrightarrow> eth_step h (doRequest_select n h)"
| timeout: "n < length (h_requests h) \<Longrightarrow> phase h n = Selecting \<Longrightarrow> eth_step h (doRequest_timeout n h)"
| close_chan: "n < length (h_requests h) \<Longrightarrow> phase h n = Returned r \<Longrightarrow> eth_step h (doRequest_close n r h)"
| delete: "n < length (h_requests h) \<Longrightarrow> phase h n = Closed r \<Longrightarrow> h_inflight h requestId = Some n \<Longrightarrow> eth_step h (doRequest_delete requestId n r h)"
| deliver: "h_delivering h = None \<Longrightarrow> deliver_load requestId raw h = Some (h', Inr d) \<Longrightarrow> eth_step h (h'\<lparr>h_delivering := Some d\<rparr>)"
| complete: "h_delivering h = Some (n, err) \<Longrightarrow> deliver_send n err h = Some h' \<Longrightarrow> eth_step h (h'\<lparr>h_delivering := None\<rparr>)"


section \<open>What the handler does to its session\<close>

definition moving :: "('k, 'v) rlpx_env \<Rightarrow> ('k, 'v, 'a) eth \<Rightarrow> bool" where
  "moving env m \<longleftrightarrow> (\<forall>h h' r. m h = Some (h', r) \<longrightarrow> (sess_step env)\<^sup>*\<^sup>* (h_session h) (h_session h'))"

lemma movingI: "(\<And>h h' r. m h = Some (h', r) \<Longrightarrow> (sess_step env)\<^sup>*\<^sup>* (h_session h) (h_session h')) \<Longrightarrow> moving env m"
  by (simp add: moving_def)

lemma movingD: "moving env m \<Longrightarrow> m h = Some (h', r) \<Longrightarrow> (sess_step env)\<^sup>*\<^sup>* (h_session h) (h_session h')"
  by (simp add: moving_def)

lemma moving_bindS:
  assumes "moving env m" and "\<And>a. moving env (f a)"
  shows "moving env (bindS m f)"
proof (rule movingI)
  fix h h' r assume "bindS m f h = Some (h', r)"
  then show "(sess_step env)\<^sup>*\<^sup>* (h_session h) (h_session h')"
  proof (cases rule: bindS_Some_cases)
    case (result a t)
    then show ?thesis using movingD [OF assms(1) result(1)] movingD [OF assms(2) result(2)] by (rule_tac rtranclp_trans)
  qed (use movingD [OF assms(1)] in blast)
qed

lemma moving_simple:
  "moving env (ret a)" "moving env (fail e)" "moving env panic" "moving env (gets g)" "moving env (pureR r)" "moving env (tell_impl nt)"
  "moving env (deliver_load requestId raw)" "moving env (\<lambda>h. map_option (\<lambda>h. (h, Inr ())) (deliver_send n err h))"
  by (auto simp: moving_def ret_def fail_def panic_def gets_def pureR_def tell_impl_def modify_def deliver_load_def Let_def deliver_send_def set_phase_def
      split: option.splits req_phase.splits)

lemma moving_attempt: "moving env m \<Longrightarrow> moving env (attempt m)"
  by (auto simp: moving_def attempt_def split: option.splits)

lemma moving_on_stream:
  assumes "\<And>s s' r. m s = Some (s', r) \<Longrightarrow> sess_step env s s'"
  shows "moving env (on_stream m)"
  using assms by (auto simp: moving_def on_stream_def split: option.splits)

lemma moving_stream: "moving env (handler_Write env code msg)" "moving env handler_ReadMsg" "moving env (handler_Close env)"
  unfolding handler_Write_def handler_ReadMsg_def handler_Close_def Session_Close_def
  by (intro moving_bindS moving_simple moving_on_stream, erule sess_step.intros)+

lemma moving_if: "moving env m \<Longrightarrow> moving env m' \<Longrightarrow> moving env (if c then m else m')" by simp

lemma moving_case_prod: "(\<And>a b. moving env (f a b)) \<Longrightarrow> moving env (case x of (a, b) \<Rightarrow> f a b)" by (cases x) simp

lemma moving_case_sum: "(\<And>e. moving env (f e)) \<Longrightarrow> (\<And>a. moving env (g a)) \<Longrightarrow> moving env (case x of Inl e \<Rightarrow> f e | Inr a \<Rightarrow> g a)" by (cases x) simp_all

lemma moving_case_option: "moving env m \<Longrightarrow> (\<And>a. moving env (g a)) \<Longrightarrow> moving env (case x of None \<Rightarrow> m | Some a \<Rightarrow> g a)" by (cases x) simp_all

lemmas moving_rules = moving_bindS moving_simple moving_attempt moving_stream moving_if moving_case_prod moving_case_sum moving_case_option

lemma moving_handshake: "moving env (handshake env impl late)"
  unfolding handshake_def Let_def by (intro moving_rules)

lemma moving_handleMsg: "moving env (handleMsg env impl code buf)"
  unfolding handleMsg_def handle_response_def deliverResponse_def Let_def by (intro moving_rules)

lemma moving_run_once: "moving env (run_once env impl)"
  unfolding run_once_def by (intro moving_rules moving_handleMsg)

lemma run_loop_result:
  assumes "run_loop env impl h = Some (h', r)"
  shows "(\<exists>e. r = Inl e) \<and> (sess_step env)\<^sup>*\<^sup>* (h_session h) (h_session h')"
proof -
  let ?P = "\<lambda>env impl h p. (\<exists>e. snd p = Inl e) \<and> (sess_step env)\<^sup>*\<^sup>* (h_session h) (h_session (fst p))"
  have "?P env impl h (h', r)"
  proof (rule run_loop.raw_induct [where P = ?P, OF _ assms])
    fix loop :: "('a, 'b) rlpx_env \<Rightarrow> 'b Eth66Backend \<Rightarrow> ('a, 'b) handler \<Rightarrow> (('a, 'b) handler \<times> (eth_error + unit)) option" and env impl h p
    assume ih: "\<And>env impl h p. loop env impl h = Some p \<Longrightarrow> ?P env impl h p"
      and body: "(case run_once env impl h of None \<Rightarrow> None | Some (h', Inl e) \<Rightarrow> Some (h', Inl e) | Some (h', Inr _) \<Rightarrow> loop env impl h') = Some p"
    obtain h1 q where h1: "run_once env impl h = Some (h1, q)" using body by (auto split: option.splits)
    note step = movingD [OF moving_run_once h1]
    show "?P env impl h p"
    proof (cases q)
      case (Inl e)
      then show ?thesis using body h1 step by auto
    next
      case (Inr u)
      then have "loop env impl h1 = Some p" using body h1 by simp
      from ih [OF this] show ?thesis using step by auto
    qed
  qed
  then show ?thesis by simp
qed

lemma run_result:
  assumes "run env impl late h = Some (h', r)"
  shows "(\<exists>e. r = Inl e) \<and> (sess_step env)\<^sup>*\<^sup>* (h_session h) (h_session h')"
proof -
  have "moving env (run_loop env impl)" by (rule movingI) (drule run_loop_result, simp)
  then have "moving env (run env impl late)" unfolding run_def by (intro moving_rules moving_handshake)
  note steps = movingD [OF this assms]
  have "\<exists>e. r = Inl e"
    using assms by (auto simp: run_def tell_impl_def bindS_def [of "handshake _ _ _"] dest!: run_loop_result split: option.splits sum.splits)
  then show ?thesis using steps by simp
qed

lemma Eth66_handler: "handler_ok (rlpx_ops env) (Eth66 env impl late text)"
proof -
  have "(sess_step env)\<^sup>*\<^sup>* x (h_session h)" if "run env impl late (new_handler x i) = Some (h, r)" for i x h r
    using run_result [OF that] by (simp add: new_handler_def)
  then show ?thesis by (auto simp: handler_ok_def Eth66_def)
qed


section \<open>The protocol and the server\<close>

lemma run_handlers_eth:
  assumes "run_handlers ops n streams instances order s = Some (s', r)" and "cf_Protocols (sv_config s) = [Eth66 env impl late text]" and "order \<noteq> []"
  shows "\<exists>e. r = Inl e"
proof -
  obtain i rest where o: "order = i # rest" using assms(3) by (cases order) auto
  show ?thesis
  proof (cases "server_getProtocol s (ps_Name (streams ! i)) (ps_Version (streams ! i))")
    case None
    then show ?thesis using assms(1) o by auto
  next
    case (Some proto)
    then have "proto = Eth66 env impl late text" using assms(2) by (auto simp: server_getProtocol_def split: if_splits)
    moreover have "\<exists>e. q = Inl e" if "pr_HandlerFn (Eth66 env impl late text) i p x = Some (y, q)" for p x y q
      using that by (auto simp: Eth66_def dest!: run_result)
    ultimately show ?thesis using assms(1) o Some by (fastforce simp: Let_def split: option.splits)
  qed
qed

lemma addSession_open_eth:
  assumes "addSession_open (rlpx_ops env) order x s = Some (s', r)" and "cf_Protocols (sv_config s) = [Eth66 env impl late text]"
    and "all_streams (rlpx_ops env) (Inr x) order"
  shows "\<exists>e. r = Inl e"
proof -
  have "so_Streams (rlpx_ops env) x \<noteq> []" using assms(3) fresh_streams by (auto simp: all_streams_def Session_Streams_def)
  moreover have "set order = {..<length (so_Streams (rlpx_ops env) x)}" using assms(3) by (simp add: all_streams_def)
  ultimately have ne: "order \<noteq> []" by (metis length_0_conv lessThan_empty_iff list.set(1) bot_nat_def)
  show ?thesis
  proof (rule ccontr)
    assume "\<nexists>e. r = Inl e"
    then obtain s1 s2 q where h: "run_handlers (rlpx_ops env) (length (sv_heap s)) (so_Streams (rlpx_ops env) x) [] order s1 = Some (s2, Inr q)"
      "sv_config s1 = sv_config s"
      using assms(1) by (auto simp: addSession_open_def Let_def split: option.splits sum.splits)
    from run_handlers_eth [OF h(1) _ ne] show False using h(2) assms(2) by auto
  qed
qed


text \<open>A server whose only protocol is eth and that has no peer, nor is about to get one.\<close>

definition lonely :: "'s Server \<Rightarrow> 's Protocol \<Rightarrow> bool" where
  "lonely s proto \<longleftrightarrow> cf_Protocols (sv_config s) = [proto] \<and> sv_peers s = Map.empty \<and> (\<forall>n t. Inserting n t \<notin> set (sv_running s))"

lemma lonely_same: "lonely s proto \<Longrightarrow> same_queues s s' \<Longrightarrow> lonely s' proto"
  by (simp add: lonely_def same_queues_def)

lemma lonely_Dial: "lonely (Dial e s) proto = lonely s proto"
  by (simp add: lonely_def Dial_def)

lemma lonely_Dials: "lonely (foldl (\<lambda>s peer. Dial peer s) s es) proto = lonely s proto"
  by (induction es arbitrary: s) (simp_all add: lonely_Dial)

lemma lonely_Start: "lonely s proto \<Longrightarrow> Start order setupErr s = Some (s', r) \<Longrightarrow> lonely s' proto"
  using lonely_Dials [of s "PeerStore_Load order (sv_peerStore s)" proto]
  by (auto simp: Start_def Let_def buildInfo_def lonely_def split: option.splits)

lemma lonely_after: "lonely s proto \<Longrightarrow> dialTask_after now t e c s = Some s' \<Longrightarrow> lonely s' proto"
  by (auto simp: dialTask_after_def lonely_def Let_def split: option.splits if_splits)

lemma lonely_running: "lonely s proto \<Longrightarrow> (\<And>n t. Inserting n t \<notin> set rs) \<Longrightarrow> lonely (s\<lparr>sv_running := rs\<rparr>) proto"
  by (simp add: lonely_def)

context rlpx_laws
begin

lemma connect_lonely:
  assumes run: "connectWithEnode_open (rlpx_ops env) order dialed t s = Some (s', r)" and ok: "server_ok (rlpx_ops env) session_named s"
    and all: "all_streams (rlpx_ops env) dialed order" and l: "lonely s (Eth66 env impl late text)"
  shows "lonely s' (Eth66 env impl late text) \<and> (\<exists>e. r = Inl e)"
proof -
  have p: "sv_peers s t = None" "cf_Protocols (sv_config s) = [Eth66 env impl late text]" using l by (simp_all add: lonely_def)
  have same: "same_queues s s'" using rlpx_session.server_connect_ok [OF run ok all] by simp
  show ?thesis
  proof (cases dialed)
    case (Inl e)
    then show ?thesis using run p l by (auto simp: connectWithEnode_open_def)
  next
    case (Inr x)
    then obtain q where q: "addSession_open (rlpx_ops env) order x s = Some (s', q)" "r = map_sum (\<lambda>e. e) Some q"
      using run p by (auto simp: connectWithEnode_open_def)
    from addSession_open_eth [OF q(1) p(2)] all Inr obtain e where "q = Inl e" by auto
    then show ?thesis using q(2) lonely_same [OF l same] by simp
  qed
qed

lemma server_step_lonely:
  assumes "server_step (rlpx_ops env) s s'" and ok: "server_ok (rlpx_ops env) session_named s" and l: "lonely s (Eth66 env impl late text)"
  shows "lonely s' (Eth66 env impl late text)"
  using assms(1)
proof cases
  case (dial_task t ts dialed order s1 r)
  have "server_ok (rlpx_ops env) session_named (s\<lparr>sv_tasks := ts\<rparr>)" "lonely (s\<lparr>sv_tasks := ts\<rparr>) (Eth66 env impl late text)"
    using ok l dial_task(2) by (simp_all add: server_fields lonely_def)
  from connect_lonely [OF dial_task(5) this(1) dial_task(4) this(2)] obtain e where "lonely s1 (Eth66 env impl late text)" "r = Inl e" by auto
  then show ?thesis unfolding dial_task(1) by (auto simp: lonely_def)
next
  case (dial_sync dialed order t s1 r)
  from connect_lonely [OF dial_sync(3) ok dial_sync(2) l] obtain e where "lonely s1 (Eth66 env impl late text)" "r = Inl e" by auto
  then show ?thesis unfolding dial_sync(1) by (auto simp: lonely_def)
next
  case (accept x order s1 r)
  have a: "server_ok (rlpx_ops env) session_named (s\<lparr>sv_accepting := False\<rparr>)" "lonely (s\<lparr>sv_accepting := False\<rparr>) (Eth66 env impl late text)"
    using ok l by (simp_all add: server_fields lonely_def)
  have x: "session_named x" using accept(3) rlpx_session.fresh_ok by (simp add: all_streams_def)
  have "cf_Protocols (sv_config (s\<lparr>sv_accepting := False\<rparr>)) = [Eth66 env impl late text]" using l by (simp add: lonely_def)
  from addSession_open_eth [OF accept(4) this accept(3)] obtain e where "r = Inl e" by blast
  moreover have "lonely s1 (Eth66 env impl late text)"
    using rlpx_session.addSession_open_ok [OF accept(4) a(1) x] lonely_same [OF a(2)] by blast
  ultimately show ?thesis unfolding accept(1) by (auto simp: lonely_def)
next
  case (insert_peer xs n t ys)
  have "Inserting n t \<notin> set (sv_running s)" using l by (simp add: lonely_def)
  then show ?thesis using insert_peer(2) by simp
next
  case (check_task xs t e ys)
  then show ?thesis using l by (auto simp: lonely_def)
next
  case (finish_task xs t e c ys now)
  have "lonely (s\<lparr>sv_running := xs @ ys\<rparr>) (Eth66 env impl late text)" using l finish_task(1) by (auto simp: lonely_def)
  from lonely_after [OF this finish_task(2)] show ?thesis .
next
  case (disconnect_peers order)
  from rlpx_session.closes_all [OF ok disconnect_peers(1)] obtain t where t: "Server_Disconnect (rlpx_ops env) order s = Some t" "grown (rlpx_ops env) session_named s t" .
  then have "s' = t" using disconnect_peers(2) by simp
  then show ?thesis using lonely_same [OF l grown_same [OF t(2)]] by simp
next
  case (start ord q r)
  then show ?thesis using lonely_Start [OF l] by blast
next
  case dial
  then show ?thesis using l by (simp add: lonely_Dial)
qed (use l in \<open>simp_all add: lonely_def watch_closed_def removePeer_def\<close>)

end


section \<open>A request and its response\<close>

lemma duplex_sym: "duplex c s \<Longrightarrow> duplex s c"
  by (auto simp: duplex_def RlpxLink.linked_def)

lemma getStream_update:
  "st_offset st = st_offset (xs ! j) \<Longrightarrow> st_length st = st_length (xs ! j) \<Longrightarrow> getStream (xs[j := st]) code = getStream xs code"
proof (induction xs arbitrary: j)
  case (Cons x xs)
  then show ?case by (cases j) (auto simp: covers_def)
qed simp

text \<open>Two handlers whose streams are the two ends of one range of codes.\<close>

definition range_of :: "('k, 'v) handler \<Rightarrow> uint64 \<Rightarrow> bool" where
  "range_of h off \<longleftrightarrow> h_stream h < length (ss_streams (h_session h)) \<and> st_offset (ss_streams (h_session h) ! h_stream h) = off \<and>
     (\<forall>code < 17. getStream (ss_streams (h_session h)) (code + off) = Some (h_stream h)) \<and> unread (ss_streams (h_session h) ! h_stream h) = []"

definition paired :: "('k, 'v) handler \<Rightarrow> ('k, 'v) handler \<Rightarrow> uint64 \<Rightarrow> bool" where
  "paired a b off \<longleftrightarrow> duplex (h_session a) (h_session b) \<and> range_of a off \<and> range_of b off \<and> 16 \<le> off \<and> off < 0x60"

lemma paired_sym: "paired a b off \<Longrightarrow> paired b a off"
  by (simp add: paired_def duplex_sym)

definition fits :: "('k, 'v) rlpx_env \<Rightarrow> 'v \<Rightarrow> bool" where
  "fits env v \<longleftrightarrow> length (MarshalRLP (rx_F env) v) \<le> maxUint24 \<and> length (sn_Encode (rx_snappy env) (MarshalRLP (rx_F env) v)) < maxUint24"

lemma code_in_range:
  assumes "16 \<le> off" and "off < 0x60" and "code < 17"
  shows "16 \<le> code + off" "code + off < (0x80 :: uint64)"
proof -
  have "unat code < 17" "16 \<le> unat off" "unat off < 96" using assms by (simp_all add: word_less_nat_alt word_le_nat_alt)
  then have "unat (code + off) = unat code + unat off" by (subst unat_word_ariths) simp
  then show "16 \<le> code + off" "code + off < 0x80"
    using \<open>unat code < 17\<close> \<open>16 \<le> unat off\<close> \<open>unat off < 96\<close> by (simp_all add: word_less_nat_alt word_le_nat_alt)
qed

context rlpx_laws
begin

lemma handler_passes:
  assumes p: "paired a b off" and code: "code < 17" and "fits env v"
  obtains a' b' w s1 where "handler_Write env code v a = Some (a', Inr ())" "has_sent (h_session a') = has_sent (h_session a) @ w"
    "recv_step env (arrives w (h_session b)) = Some (s1, Inr True)" "handler_ReadMsg (b\<lparr>h_session := s1\<rparr>) = Some (b', Inr (MarshalRLP (rx_F env) v, ucast code))"
    "paired a' b' off" "a' = a\<lparr>h_session := h_session a'\<rparr>" "b' = b\<lparr>h_session := h_session b'\<rparr>" "has_sent (h_session b') = has_sent s1"
proof -
  let ?c = "h_session a" and ?s = "h_session b" and ?i = "h_stream a" and ?j = "h_stream b" and ?b = "MarshalRLP (rx_F env) v"
  have d: "duplex ?c ?s" and ra: "range_of a off" and rb: "range_of b off" and off: "16 \<le> off" "off < 0x60" using p by (simp_all add: paired_def)
  note range = code_in_range [OF off code]
  have o: "st_offset (ss_streams ?c ! ?i) = off" "st_offset (ss_streams ?s ! ?j) = off" using ra rb by (simp_all add: range_of_def)
  have send: "sendable env True (code + st_offset (ss_streams ?c ! ?i), ?b)" using assms(3) range(2) by (simp add: o sendable_def fits_def)
  have pre: "16 \<le> code + st_offset (ss_streams ?c ! ?i)" "getStream (ss_streams ?s) (code + st_offset (ss_streams ?c ! ?i)) = Some ?j"
    "st_offset (ss_streams ?s ! ?j) = st_offset (ss_streams ?c ! ?i)" "unread (ss_streams ?s ! ?j) = []"
    using range(1) rb code by (simp_all add: o range_of_def)
  obtain c' w s1 s2 st where r: "Stream_WriteMsg env ?i code ?b ?c = Some (c', Inr ())" "has_sent c' = has_sent ?c @ w" "ss_streams c' = ss_streams ?c"
    "recv_step env (arrives w ?s) = Some (s1, Inr True)" "Stream_ReadMsg ?j s1 = Some (s2, Inr (?b, ucast code))" "duplex c' s2"
    "ss_streams s2 = (ss_streams ?s)[?j := st]" "unread st = []" "st_offset st = st_offset (ss_streams ?s ! ?j)" "st_length st = st_length (ss_streams ?s ! ?j)"
    by (rule stream_passes [OF d send pre])
  have "range_of (a\<lparr>h_session := c'\<rparr>) off" using ra r(3) by (simp add: range_of_def)
  moreover have "range_of (b\<lparr>h_session := s2\<rparr>) off" using rb r(7-10) getStream_update [OF r(9,10)] by (simp add: range_of_def)
  ultimately have "paired (a\<lparr>h_session := c'\<rparr>) (b\<lparr>h_session := s2\<rparr>) off" using r(6) off by (simp add: paired_def)
  moreover have "has_sent s2 = has_sent s1" using r(5) by (auto simp: Stream_ReadMsg_def has_sent_def split: option.splits)
  ultimately show ?thesis
    using r(1,2,4,5) by (intro that [of "a\<lparr>h_session := c'\<rparr>" w s1 "b\<lparr>h_session := s2\<rparr>"]) (simp_all add: handler_Write_def handler_ReadMsg_def on_stream_def)
qed

lemma Response_raw:
  assumes "length (MarshalRLP (rx_F env) (Request_MarshalRLPWith (rx_F env) requestId v)) < 2 ^ 63"
  obtains raw where "UnmarshalRLP (rx_F env) (MarshalRLP (rx_F env) (Request_MarshalRLPWith (rx_F env) requestId v)) (Response_UnmarshalRLPWith (rx_F env) Inr) = Inr (requestId, raw)"
    "view raw = view v"
proof -
  obtain v' where v': "Parse (rx_F env) (MarshalTo (rx_F env) (Request_MarshalRLPWith (rx_F env) requestId v)) = Some v'"
    "view v' = view (Request_MarshalRLPWith (rx_F env) requestId v)"
    using Parse_marshalled assms unfolding MarshalRLP_def by blast
  obtain ws where ws: "GetElems (rx_F env) v' = Some ws" "length ws = 2" "view (ws ! 0) = view (NewUint (rx_F env) requestId)" "view (ws ! 1) = view v"
    by (rule GetElems_list [OF v'(2) [unfolded Request_MarshalRLPWith_def]]) force
  show ?thesis
    by (rule that [of "ws ! 1"]) (use v'(1) ws GetUint64_NewUint [OF ws(3)] in \<open>simp_all add: UnmarshalRLP_def MarshalRLP_def Response_UnmarshalRLPWith_def\<close>)
qed

end


lemma run_once_read:
  assumes "handler_ReadMsg h = Some (h1, Inr (buf, code))" and "handleMsg env impl (ucast code) buf h1 = Some (h2, r)"
  shows "run_once env impl h = Some (h2, Inr ())"
  unfolding run_once_def bindS_eval(3) [of handler_ReadMsg, OF assms(1)] using assms(2) by (simp add: attempt_def bindS_def)

lemma deliverResponse_waiting:
  assumes "h_inflight h requestId = Some n" and "n < length (h_requests h)" and "phase h n = Selecting"
  shows "\<exists>h' q. deliverResponse requestId raw h = Some (h', q) \<and> h_session h' = h_session h \<and> h_stream h' = h_stream h \<and>
    phase h' n = Returned (case ir_resp (h_requests h ! n) raw of Inl e \<Rightarrow> Some e | Inr _ \<Rightarrow> None) \<and> ir_got (h_requests h' ! n) = ir_got (h_requests h ! n) @ [raw]"
  using assms by (auto simp: deliverResponse_def deliver_load_def deliver_send_def phase_def set_phase_def bindS_def Let_def split: option.splits sum.splits)

context rlpx_laws
begin

text \<open>What the handler does with a request for headers and with the response to one.\<close>

lemma handle_headers_request:
  assumes "fits env (Request_MarshalRLPWith (rx_F env) rid (BlockHeadersPacket_MarshalRLPWith (rx_F env) pk))" and "packet_valid pk"
  shows "handleMsg env impl GetBlockHeadersMsg (MarshalRLP (rx_F env) (Request_MarshalRLPWith (rx_F env) rid (BlockHeadersPacket_MarshalRLPWith (rx_F env) pk))) h =
    handler_Write env BlockHeadersMsg (Request_MarshalRLPWith (rx_F env) rid (Impl_GetBlockHeader impl pk)) h"
  using UnmarshalRLP_MarshalRLP [OF Request_message [OF BlockHeadersPacket_message], of "(rid, pk)"] assms
  by (simp add: handleMsg_def eth_codes fits_def maxUint24_def)

lemma handle_headers_response:
  assumes "fits env (Request_MarshalRLPWith (rx_F env) rid v)"
  obtains raw where "view raw = view v" "\<And>h. handleMsg env impl BlockHeadersMsg (MarshalRLP (rx_F env) (Request_MarshalRLPWith (rx_F env) rid v)) h = deliverResponse rid raw h"
proof -
  have "length (MarshalRLP (rx_F env) (Request_MarshalRLPWith (rx_F env) rid v)) < 2 ^ 63" using assms by (simp add: fits_def maxUint24_def)
  then obtain raw where "UnmarshalRLP (rx_F env) (MarshalRLP (rx_F env) (Request_MarshalRLPWith (rx_F env) rid v)) (Response_UnmarshalRLPWith (rx_F env) Inr) = Inr (rid, raw)"
    "view raw = view v" by (rule Response_raw)
  then show ?thesis by (intro that [of raw]) (simp_all add: handleMsg_def handle_response_def eth_codes)
qed

end

section \<open>Where the handler waits or panics\<close>

text \<open>The handler reads the other's status before it sends its own: while nothing has arrived it waits, and has sent nothing. Two nodes
  that both run this handler wait for each other.\<close>

lemma eth_waits:
  assumes "unread (ss_streams x ! i) = []" and "st_errorCh (ss_streams x ! i) = None"
  shows "run env impl late (new_handler x i) = None"
proof -
  have "stream_read HeaderSize (ss_streams x ! i) = None"
    using assms by (simp add: stream_read_def HeaderSize_def unread_def split: option.splits list.splits)
  then have "Stream_ReadMsg i x = None" by (simp add: Stream_ReadMsg_def stream_ReadMsg_def bindS_def)
  then show ?thesis by (simp add: run_def handshake_def handler_ReadMsg_def on_stream_def new_handler_def bindS_def)
qed

text \<open>A response that is looked up just before its request times out panics the handler: the request closes its channel, and then the response is sent on it.\<close>

lemma delivery_panics:
  assumes "h_inflight h requestId = Some n" and "n < length (h_requests h)" and "phase h n = Selecting" and "h_delivering h = None"
  shows "\<exists>h' err. eth_step\<^sup>*\<^sup>* h h' \<and> h_delivering h' = Some (n, err) \<and> deliver_send n err h' = None"
proof -
  obtain h1 err where h1: "deliver_load requestId raw h = Some (h1, Inr (n, err))" "n < length (h_requests h1)" "phase h1 n = Selecting"
    using assms(1-3) by (auto simp: deliver_load_def phase_def Let_def)
  let ?h1 = "h1\<lparr>h_delivering := Some (n, err)\<rparr>"
  let ?h2 = "doRequest_timeout n ?h1"
  let ?h3 = "doRequest_close n (Some RequestTimeout) ?h2"
  have "eth_step h ?h1" by (rule deliver [OF assms(4) h1(1)])
  moreover have "eth_step ?h1 ?h2" using h1(2,3) by (intro timeout) (simp_all add: phase_def)
  moreover have "eth_step ?h2 ?h3" using h1(2) by (intro close_chan) (simp_all add: phase_def doRequest_timeout_def set_phase_def)
  ultimately have "eth_step\<^sup>*\<^sup>* h ?h3" by (meson rtranclp.rtrancl_into_rtrancl rtranclp.rtrancl_refl)
  moreover have "deliver_send n err ?h3 = None" "h_delivering ?h3 = Some (n, err)"
    using h1(2) by (simp_all add: deliver_send_def phase_def doRequest_close_def doRequest_timeout_def set_phase_def)
  ultimately show ?thesis by blast
qed

text \<open>A response that arrives before \<open>doRequest\<close> has stored its request is dropped.\<close>

lemma early_response: "h_inflight h requestId = None \<Longrightarrow> deliverResponse requestId raw h = Some (h, Inl RequestNotFound)"
  by (simp add: deliverResponse_def deliver_load_def bindS_def)

text \<open>Any code outside 1 to 10 panics, in particular a second status and requests for receipts.\<close>

lemma unhandled_code:
  assumes "code = 0 \<or> 10 < code"
  shows "handleMsg env impl code buf h = None"
proof -
  have "code \<notin> {TransactionsMsg, NewBlockHashesMsg, NewPooledTransactionHashesMsg, BlockBodiesMsg, GetBlockBodiesMsg, BlockHeadersMsg, GetBlockHeadersMsg,
      PooledTransactionsMsg, GetPooledTransactionsMsg, NewBlockMsg}"
    using assms by (auto simp: eth_codes word_less_nat_alt)
  then show ?thesis by (simp add: handleMsg_def panic_def Let_def)
qed

section \<open>Properties\<close>



text \<open>An instance: two connected nodes, with a backend that gives an empty header.\<close>

definition demo_status :: eth_Status where
  "demo_status = \<lparr>st_ProtocolVersion = 66, st_NetworkID = 1, st_TD = 0, st_Head = replicate 32 0, st_Genesis = replicate 32 0, st_ForkID = \<lparr>id_Hash = [0, 0, 0, 0], id_Next = 0\<rparr>\<rparr>"

definition demo_impl :: "rlp Eth66Backend" where
  "demo_impl = \<lparr>Impl_Status = demo_status, Impl_GetBlockHeader = (\<lambda>_. Items []), Impl_GetBlockBodies = (\<lambda>_. Items []), Impl_GetTransactions = (\<lambda>_. Items [])\<rparr>"

lemma demo_range: "ss_streams x = [NewStream 16 17 \<lparr>st_protocol := demo_spec\<rparr>] \<Longrightarrow> range_of (new_handler x 0) 16"
proof -
  assume x: "ss_streams x = [NewStream 16 17 \<lparr>st_protocol := demo_spec\<rparr>]"
  have "getStream (ss_streams x) (code + 16) = Some 0" if "code < 17" for code
  proof -
    have "unat code < 17" using that by (simp add: word_less_nat_alt)
    then have "unat (code + 16) = unat code + 16" by (subst unat_word_ariths) simp
    then show ?thesis using x \<open>unat code < 17\<close> by (simp add: covers_def NewStream_def word_less_nat_alt word_le_nat_alt)
  qed
  then show ?thesis using x by (simp add: range_of_def new_handler_def NewStream_def unread_def)
qed

lemma demo_paired:
  obtains a b :: "(bool, rlp) handler" where "paired a b 16" "h_requests a = []"
proof -
  obtain c s :: "bool Session" where l: "duplex c s" "ss_streams c = [NewStream 16 17 \<lparr>st_protocol := demo_spec\<rparr>]" "ss_streams s = [NewStream 16 17 \<lparr>st_protocol := demo_spec\<rparr>]"
    by (rule demo_linked)
  have "paired (new_handler c 0) (new_handler s 0 :: (bool, rlp) handler) 16"
    using l(1) demo_range [OF l(2)] demo_range [OF l(3)] by (simp add: paired_def) (simp add: new_handler_def)
  then show ?thesis by (rule that) (simp add: new_handler_def)
qed

lemma demo_fits: "length (rlp_encode v) \<le> 1000 \<Longrightarrow> fits demo_env v"
  by (simp add: fits_def MarshalRLP_def maxUint24_def stored_snappy_def rlp_ref_def)

lemma demo_requests:
  "fits demo_env (Request_MarshalRLPWith rlp_ref 7 (BlockHeadersPacket_MarshalRLPWith rlp_ref \<lparr>bh_Hash = None, bh_Number = 5, bh_Amount = 1, bh_Skip = 0, bh_Reverse = False\<rparr>))"
  "fits demo_env (Request_MarshalRLPWith rlp_ref 7 (Items []))"
  by (rule demo_fits, simp add: Request_MarshalRLPWith_def BlockHeadersPacket_MarshalRLPWith_def rlp_eval)+




end
