(* ===== verification/GoBase64.thy ===== *)
theory GoBase64
  imports Prelude
begin

text \<open>
  \<open>base64.RawURLEncoding\<close> of the Go library: the encoding of bytes in groups of three without padding, and the decoder,
  which passes over line ends and does not look at the unused bits of the last group. Its errors are not told apart.
\<close>

section \<open>Definitions\<close>

definition encodeURL :: string where
  "encodeURL = ''ABCDEFGHIJKLMNOPQRSTUVWXYZabcdefghijklmnopqrstuvwxyz0123456789-_''"

definition decodeMap :: "char \<Rightarrow> nat option" where
  "decodeMap c = (let n = of_char c :: nat in
     if 65 \<le> n \<and> n \<le> 90 then Some (n - 65)
     else if 97 \<le> n \<and> n \<le> 122 then Some (n - 71)
     else if 48 \<le> n \<and> n \<le> 57 then Some (n + 4)
     else if n = 45 then Some 62
     else if n = 95 then Some 63
     else None)"

text \<open>The three bytes of a group as a number, and the digits of a number.\<close>

definition quantum :: "nat list \<Rightarrow> nat" where
  "quantum bs = foldl (\<lambda>v b. v * 256 + b) 0 bs"

definition sextets :: "nat \<Rightarrow> nat list" where
  "sextets v = [v div 2 ^ 18 mod 64, v div 2 ^ 12 mod 64, v div 2 ^ 6 mod 64, v mod 64]"

fun raw_digits :: "bytes \<Rightarrow> nat list" where
  "raw_digits [] = []"
| "raw_digits [a] = take 2 (sextets (quantum [unat a, 0, 0]))"
| "raw_digits [a, b] = take 3 (sextets (quantum [unat a, unat b, 0]))"
| "raw_digits (a # b # c # rest) = sextets (quantum [unat a, unat b, unat c]) @ raw_digits rest"

definition RawURL_EncodeToString :: "bytes \<Rightarrow> string" where
  "RawURL_EncodeToString src = map (\<lambda>d. encodeURL ! d) (raw_digits src)"

definition octets :: "nat list \<Rightarrow> bytes" where
  "octets ds = (let v = foldl (\<lambda>v d. v * 64 + d) 0 ds in
     [word_of_nat (v div 2 ^ 16 mod 256), word_of_nat (v div 2 ^ 8 mod 256), word_of_nat (v mod 256)])"

fun decode_quanta :: "nat list \<Rightarrow> bytes option" where
  "decode_quanta [] = Some []"
| "decode_quanta [a] = None"
| "decode_quanta [a, b] = Some (take 1 (octets [a, b, 0, 0]))"
| "decode_quanta [a, b, c] = Some (take 2 (octets [a, b, c, 0]))"
| "decode_quanta (a # b # c # d # rest) = map_option (\<lambda>bs. octets [a, b, c, d] @ bs) (decode_quanta rest)"

definition RawURL_DecodeString :: "string \<Rightarrow> bytes option" where
  "RawURL_DecodeString s =
     (case those (map decodeMap (filter (\<lambda>c. c \<noteq> CHR 0x0A \<and> c \<noteq> CHR 0x0D) s)) of
        None \<Rightarrow> None
      | Some ds \<Rightarrow> decode_quanta ds)"

section \<open>Decoding what was encoded\<close>

lemma encodeURL_ranges: "encodeURL = map char_of ([65..<91] @ [97..<123] @ [48..<58] @ [45, 95 :: nat])"
  by (simp add: encodeURL_def upt_rec_numeral char_of_def bit_Suc_0_iff)

lemma encodeURL_digit:
  assumes "d < 64"
  shows "decodeMap (encodeURL ! d) = Some d" "encodeURL ! d \<noteq> CHR 0x0A" "encodeURL ! d \<noteq> CHR 0x0D"
proof -
  let ?n = "([65..<91] @ [97..<123] @ [48..<58] @ [45, 95 :: nat]) ! d"
  consider "d < 26" | k where "d = 26 + k" "k < 26" | k where "d = 52 + k" "k < 10" | "d = 62" | "d = 63"
    using assms le_Suc_ex [of 26 d] le_Suc_ex [of 52 d] by fastforce
  then have n: "?n < 256 \<and> ?n \<noteq> 10 \<and> ?n \<noteq> 13 \<and> decodeMap (char_of ?n) = Some d"
    by cases (simp_all add: nth_append nth_upt decodeMap_def Let_def del: upt_rec_numeral upt.simps)
  have c: "encodeURL ! d = char_of ?n" using assms unfolding encodeURL_ranges by (intro nth_map) simp
  show "decodeMap (encodeURL ! d) = Some d" using n unfolding c by blast
  have "of_char (encodeURL ! d) = ?n" using n unfolding c by simp
  then show "encodeURL ! d \<noteq> CHR 0x0A" "encodeURL ! d \<noteq> CHR 0x0D" using n by auto
qed

lemma those_map_digits: "list_all (\<lambda>d. d < 64) ds \<Longrightarrow> those (map decodeMap (map (\<lambda>d. encodeURL ! d) ds)) = Some ds"
  by (induction ds) (simp_all add: encodeURL_digit)

lemma filter_digits: "list_all (\<lambda>d. d < 64) ds \<Longrightarrow>
    filter (\<lambda>c. c \<noteq> CHR 0x0A \<and> c \<noteq> CHR 0x0D) (map (\<lambda>d. encodeURL ! d) ds) = map (\<lambda>d. encodeURL ! d) ds"
  by (induction ds) (simp_all add: encodeURL_digit)

lemma sextets_less: "list_all (\<lambda>d. d < 64) (sextets v)"
  by (simp add: sextets_def)

lemma raw_digits_less: "list_all (\<lambda>d. d < 64) (raw_digits bs)"
  by (induction bs rule: raw_digits.induct) (simp_all add: sextets_less sextets_def)

lemma number_of_sextets:
  fixes v :: nat
  assumes "v < 2 ^ 24"
  shows "((v div 2 ^ 18 mod 64 * 64 + v div 2 ^ 12 mod 64) * 64 + v div 2 ^ 6 mod 64) * 64 + v mod 64 = v"
proof -
  have "v div 2 ^ 18 mod 64 = v div 2 ^ 18" using assms by (simp add: less_mult_imp_div_less)
  moreover have "v div 2 ^ 18 * 64 + v div 2 ^ 12 mod 64 = v div 2 ^ 12" using div_mult_mod_eq [of "v div 2 ^ 12" 64] by (simp add: div_mult2_eq [symmetric])
  moreover have "v div 2 ^ 12 * 64 + v div 2 ^ 6 mod 64 = v div 2 ^ 6" using div_mult_mod_eq [of "v div 2 ^ 6" 64] by (simp add: div_mult2_eq [symmetric])
  moreover have "v div 2 ^ 6 * 64 + v mod 64 = v" using div_mult_mod_eq [of v 64] by simp
  ultimately show ?thesis by simp
qed

lemma octets_sextets:
  assumes "a < 256" "b < 256" "c < 256"
  shows "octets (sextets (quantum [a, b, c])) = [word_of_nat a, word_of_nat b, word_of_nat c]"
proof -
  have v: "quantum [a, b, c] = (a * 256 + b) * 256 + c" by (simp add: quantum_def)
  have "quantum [a, b, c] < 2 ^ 24" using assms unfolding v by simp
  from number_of_sextets [OF this] have "foldl (\<lambda>v d. v * 64 + d) 0 (sextets (quantum [a, b, c])) = quantum [a, b, c]"
    by (simp only: sextets_def foldl.simps mult_zero_left add_0)
  moreover have "quantum [a, b, c] mod 256 = c" "quantum [a, b, c] div 256 = a * 256 + b"
    using assms(3) mod_mult_self3 [of "a * 256 + b" 256 c] div_mult_self3 [of 256 "a * 256 + b" c] unfolding v by simp_all
  moreover from this have "quantum [a, b, c] div 2 ^ 8 mod 256 = b" "quantum [a, b, c] div 2 ^ 16 mod 256 = a"
    using assms div_mult2_eq [of "quantum [a, b, c]" 256 256] by simp_all
  ultimately show ?thesis by (simp add: octets_def)
qed

text \<open>The digits that are left out in a short group are zero.\<close>

lemma sextets_short: "sextets (quantum [a, b, 0]) = take 3 (sextets (quantum [a, b, 0])) @ [0]"
  "sextets (quantum [a, 0, 0]) = take 2 (sextets (quantum [a, 0, 0])) @ [0, 0]"
proof -
  have "quantum [a, b, 0] = (a * 256 + b) * 4 * 64" "quantum [a, 0, 0] = a * 16 * 64 * 64" by (simp_all add: quantum_def)
  then have "quantum [a, b, 0] mod 64 = 0" "quantum [a, 0, 0] mod 64 = 0" "quantum [a, 0, 0] div 64 mod 64 = 0"
    by (simp_all only: mod_mult_self2_is_0 nonzero_mult_div_cancel_right zero_neq_numeral [symmetric] not_False_eq_True)
  then show "sextets (quantum [a, b, 0]) = take 3 (sextets (quantum [a, b, 0])) @ [0]"
    "sextets (quantum [a, 0, 0]) = take 2 (sextets (quantum [a, 0, 0])) @ [0, 0]"
    by (simp_all add: sextets_def)
qed

lemma decode_raw_digits: "decode_quanta (raw_digits bs) = Some bs"
proof (induction bs rule: raw_digits.induct)
  case (2 a)
  obtain p q where "take 2 (sextets (quantum [unat a, 0, 0])) = [p, q]" by (simp add: sextets_def)
  moreover from this have "octets [p, q, 0, 0] = [word_of_nat (unat a), 0, 0]"
    using octets_sextets [of "unat a" 0 0] sextets_short(2) [of "unat a"] by simp
  ultimately show ?case by simp
next
  case (3 a b)
  obtain p q r where "take 3 (sextets (quantum [unat a, unat b, 0])) = [p, q, r]" by (simp add: sextets_def)
  moreover from this have "octets [p, q, r, 0] = [word_of_nat (unat a), word_of_nat (unat b), 0]"
    using octets_sextets [of "unat a" "unat b" 0] sextets_short(1) [of "unat a" "unat b"] by simp
  ultimately show ?case by simp
next
  case (4 a b c rest)
  obtain p q r s where "sextets (quantum [unat a, unat b, unat c]) = [p, q, r, s]" by (simp add: sextets_def)
  then show ?case using octets_sextets [of "unat a" "unat b" "unat c"] 4 by simp
qed simp

lemma RawURL_roundtrip: "RawURL_DecodeString (RawURL_EncodeToString bs) = Some bs"
  unfolding RawURL_DecodeString_def RawURL_EncodeToString_def filter_digits [OF raw_digits_less] those_map_digits [OF raw_digits_less]
  by (simp add: decode_raw_digits)

end
