(* ===== verification/Enr.thy ===== *)
theory Enr
  imports GoBase64 GoNet RlpRef
begin

text \<open>
  Node records, \<open>enr/enr.go\<close> and \<open>enr/entries.go\<close>: a record is a list of keys with values, sorted by key, a sequence number and a
  signature, with a form in RLP and one in text. A value is a value of the RLP library, \<open>None\<close> where the code has a nil
  pointer; using such a value panics. What an object holds after its decoder returned an error is not modelled.
\<close>

section \<open>Definitions\<close>

datatype enr_error =
    EnrRlp | EnrBase64 | NoEnrPrefix | KeyNotFound string | TwoItemsNeeded | EvenItemsNeeded
  | DuplicatedKey string | KeysNotSorted string string | BytesExpected nat

abbreviation enr_try :: "'a option \<Rightarrow> enr_error + 'a" where
  "enr_try \<equiv> of_option EnrRlp"

record 'v entry =
  e_k :: string
  e_v :: "'v option"

record 'v Record =
  r_seq :: uint64
  r_signature :: bytes
  r_entries :: "'v entry list"

subsection \<open>Entries\<close>

definition Uint16_MarshalRLPWith :: "'v fastrlp \<Rightarrow> uint16 \<Rightarrow> 'v option" where
  "Uint16_MarshalRLPWith F u = Some (NewUint F (ucast u))"

definition Uint16_UnmarshalRLPWith :: "'v fastrlp \<Rightarrow> 'v \<Rightarrow> enr_error + uint16" where
  "Uint16_UnmarshalRLPWith F v = bindR (enr_try (GetUint64 F v)) (\<lambda>uu. Inr (ucast uu))"

definition String_MarshalRLPWith :: "'v fastrlp \<Rightarrow> string \<Rightarrow> 'v option" where
  "String_MarshalRLPWith F s = Some (NewBytes F (bytes_of_string s))"

definition String_UnmarshalRLPWith :: "'v fastrlp \<Rightarrow> 'v \<Rightarrow> enr_error + string" where
  "String_UnmarshalRLPWith F v = bindR (enr_try (GetBytes F v None)) (\<lambda>buf. Inr (string_of_bytes buf))"

definition IPv6_MarshalRLPWith :: "'v fastrlp \<Rightarrow> IP \<Rightarrow> 'v option" where
  "IPv6_MarshalRLPWith F i = map_option (NewBytes F) (To16 i)"

definition IPv6_UnmarshalRLPWith :: "'v fastrlp \<Rightarrow> 'v \<Rightarrow> enr_error + IP" where
  "IPv6_UnmarshalRLPWith F v =
     bindR (enr_try (GetBytes F v None)) (\<lambda>i. if length i \<noteq> 16 then Inl (BytesExpected (length i)) else Inr i)"

definition IPv4_MarshalRLPWith :: "'v fastrlp \<Rightarrow> IP \<Rightarrow> 'v option" where
  "IPv4_MarshalRLPWith F i = map_option (NewBytes F) (To4 i)"

definition IPv4_UnmarshalRLPWith :: "'v fastrlp \<Rightarrow> 'v \<Rightarrow> enr_error + IP" where
  "IPv4_UnmarshalRLPWith F v =
     bindR (enr_try (GetBytes F v None)) (\<lambda>i. if length i \<noteq> 4 then Inl (BytesExpected (length i)) else Inr i)"

subsection \<open>Records\<close>

definition SetSeq :: "uint64 \<Rightarrow> 'v Record \<Rightarrow> 'v Record" where
  "SetSeq i r = r\<lparr>r_seq := i\<rparr>"

definition Reset :: "'v Record \<Rightarrow> 'v Record" where
  "Reset r = r\<lparr>r_seq := r_seq r + 1, r_signature := [], r_entries := []\<rparr>"

text \<open>\<open>dec\<close> is the decoder of the entry that \<open>Load\<close> is given.\<close>

definition Record_Load :: "'v Record \<Rightarrow> string \<Rightarrow> ('v \<Rightarrow> enr_error + 'a) \<Rightarrow> (enr_error + 'a) option" where
  "Record_Load r k dec =
     (case find (\<lambda>e. e_k e = k) (r_entries r) of
        None \<Rightarrow> Some (Inl (KeyNotFound k))
      | Some found \<Rightarrow> map_option dec (e_v found))"

text \<open>Go compares strings by their bytes. The order in which \<open>sort.Sort\<close> leaves entries with the same key is not specified; nothing below
  depends on it.\<close>

abbreviation key :: "'v entry \<Rightarrow> bytes" where
  "key e \<equiv> bytes_of_string (e_k e)"

definition entries_Sort :: "'v entry list \<Rightarrow> 'v entry list" where
  "entries_Sort es = sort_key key es"

definition AddEntry :: "string \<Rightarrow> 'v option \<Rightarrow> 'v Record \<Rightarrow> 'v Record" where
  "AddEntry k v r = r\<lparr>r_entries := entries_Sort (r_entries r @ [\<lparr>e_k = k, e_v = v\<rparr>])\<rparr>"

fun entry_values :: "'v fastrlp \<Rightarrow> 'v entry list \<Rightarrow> 'v list option" where
  "entry_values F [] = Some []"
| "entry_values F (e # es) =
     (case e_v e of
        None \<Rightarrow> None
      | Some v \<Rightarrow> map_option (\<lambda>vs. NewBytes F (key e) # v # vs) (entry_values F es))"

definition Record_MarshalRLP :: "'v fastrlp \<Rightarrow> 'v Record \<Rightarrow> bytes option" where
  "Record_MarshalRLP F r =
     map_option (\<lambda>vs. MarshalTo F (NewArray F (NewBytes F (r_signature r) # NewUint F (r_seq r) # vs))) (entry_values F (r_entries r))"

definition Record_Marshal :: "'v fastrlp \<Rightarrow> 'v Record \<Rightarrow> string option" where
  "Record_Marshal F r = map_option (\<lambda>b. ''enr:'' @ RawURL_EncodeToString b) (Record_MarshalRLP F r)"

fun read_entries :: "'v fastrlp \<Rightarrow> 'v list \<Rightarrow> enr_error + 'v entry list" where
  "read_entries F (k # v # elems) =
     bindR (enr_try (GetBytes F k None)) (\<lambda>dst.
     bindR (read_entries F elems) (\<lambda>es. Inr (\<lparr>e_k = string_of_bytes dst, e_v = Some v\<rparr> # es)))"
| "read_entries F _ = Inr []"

fun check_order :: "'v entry list \<Rightarrow> enr_error + unit" where
  "check_order (a # b # es) =
     (if e_k a = e_k b then Inl (DuplicatedKey (e_k a))
      else if key b < key a then Inl (KeysNotSorted (e_k a) (e_k b))
      else check_order (b # es))"
| "check_order _ = Inr ()"

definition Record_UnmarshalRLP :: "'v fastrlp \<Rightarrow> bytes \<Rightarrow> enr_error + 'v Record" where
  "Record_UnmarshalRLP F b =
     bindR (enr_try (Parse F b)) (\<lambda>v.
     bindR (enr_try (GetElems F v)) (\<lambda>elems.
     if length elems < 2 then Inl TwoItemsNeeded
     else if length elems mod 2 \<noteq> 0 then Inl EvenItemsNeeded
     else
       bindR (enr_try (GetBytes F (elems ! 0) None)) (\<lambda>signature.
       bindR (enr_try (GetUint64 F (elems ! 1))) (\<lambda>seq.
       bindR (read_entries F (drop 2 elems)) (\<lambda>es.
       bindR (check_order es) (\<lambda>_.
       Inr \<lparr>r_seq = seq, r_signature = signature, r_entries = es\<rparr>))))))"

text \<open>The function \<open>Unmarshal\<close> of the package makes an empty record and calls the method.\<close>

definition Record_Unmarshal :: "'v fastrlp \<Rightarrow> string \<Rightarrow> enr_error + 'v Record" where
  "Record_Unmarshal F s =
     (if \<not> HasPrefix s ''enr:'' then Inl NoEnrPrefix
      else bindR (of_option EnrBase64 (RawURL_DecodeString (drop 4 s))) (Record_UnmarshalRLP F))"

section \<open>Well-formed records\<close>

text \<open>The keys ascend, without repetition, and every value is there.\<close>

definition record_ok :: "'v Record \<Rightarrow> bool" where
  "record_ok r \<longleftrightarrow> sorted_wrt (<) (map key (r_entries r)) \<and> (\<forall>e\<in>set (r_entries r). e_v e \<noteq> None)"

lemma check_order_iff: "check_order es = Inr () \<longleftrightarrow> sorted_wrt (<) (map key es)"
proof (induction es rule: check_order.induct)
  case (1 a b es)
  have "key a < key b \<longleftrightarrow> e_k a \<noteq> e_k b \<and> \<not> key b < key a"
    using inj_bytes_of_string [of "e_k a" "e_k b"] by auto
  moreover have "sorted_wrt (<) (map key (a # b # es)) \<longleftrightarrow> key a < key b \<and> sorted_wrt (<) (map key (b # es))"
    by auto
  ultimately show ?case using 1 by simp
qed simp_all

lemma strict_sorted_iff_distinct: "sorted_wrt (<) (xs :: 'a :: linorder list) \<longleftrightarrow> sorted xs \<and> distinct xs"
  using strict_sorted_iff by blast

lemma AddEntry_ok:
  assumes "record_ok r" and "k \<notin> e_k ` set (r_entries r)"
  shows "record_ok (AddEntry k (Some v) r)"
proof -
  let ?es = "r_entries r @ [\<lparr>e_k = k, e_v = Some v\<rparr>]"
  have "distinct (map key (r_entries r))" using assms(1) by (simp add: record_ok_def strict_sorted_iff_distinct)
  then have "distinct (map key ?es)" using assms(2) by (auto simp: inj_bytes_of_string)
  then have "distinct (map key (sort_key key ?es))" unfolding distinct_map distinct_sort set_sort .
  then show ?thesis using assms(1) by (auto simp: record_ok_def AddEntry_def entries_Sort_def strict_sorted_iff_distinct)
qed

lemma Reset_SetSeq_ok: "record_ok (Reset r)" "record_ok r \<Longrightarrow> record_ok (SetSeq i r)"
  by (simp_all add: record_ok_def Reset_def SetSeq_def)

lemma find_unique:
  assumes "distinct (map e_k es)" and "e \<in> set es"
  shows "find (\<lambda>x. e_k x = e_k e) es = Some e"
  using assms by (induction es) (auto simp: image_iff)

lemma record_ok_distinct: "record_ok r \<Longrightarrow> distinct (map e_k (r_entries r))"
  by (auto simp: record_ok_def strict_sorted_iff_distinct distinct_map inj_on_def)

lemma Load_entry:
  assumes "record_ok r" and "e \<in> set (r_entries r)"
  shows "Record_Load r (e_k e) dec = map_option dec (e_v e)"
  by (simp add: Record_Load_def find_unique [OF record_ok_distinct [OF assms(1)] assms(2)])

lemma Load_missing: "k \<notin> e_k ` set (r_entries r) \<Longrightarrow> Record_Load r k dec = Some (Inl (KeyNotFound k))"
proof -
  assume "k \<notin> e_k ` set (r_entries r)"
  then have "find (\<lambda>e. e_k e = k) (r_entries r) = None" by (force simp: find_None_iff)
  then show ?thesis by (simp add: Record_Load_def)
qed

text \<open>An added entry is loaded, and the others as before.\<close>

lemma Load_AddEntry:
  assumes "record_ok r" and "k \<notin> e_k ` set (r_entries r)"
  shows "Record_Load (AddEntry k (Some v) r) j dec = (if j = k then Some (dec v) else Record_Load r j dec)"
proof -
  let ?e = "\<lparr>e_k = k, e_v = Some v\<rparr>"
  have es: "set (r_entries (AddEntry k (Some v) r)) = insert ?e (set (r_entries r))" by (simp add: AddEntry_def entries_Sort_def)
  note load = Load_entry [OF AddEntry_ok [OF assms, of v], where dec = dec]
  show ?thesis
  proof (cases "j = k")
    case True
    then show ?thesis using load [of ?e] es by simp
  next
    case other: False
    show ?thesis
    proof (cases "j \<in> e_k ` set (r_entries r)")
      case True
      then obtain e where e: "e \<in> set (r_entries r)" "j = e_k e" by blast
      then show ?thesis using load [of e] Load_entry [OF assms(1) e(1), where dec = dec] es other by simp
    next
      case False
      then show ?thesis using Load_missing [of j "AddEntry k (Some v) r" dec] Load_missing [OF False, of dec] es other by simp
    qed
  qed
qed

text \<open>\<open>AddEntry\<close> does not look for the key: adding it twice gives a record that cannot be read back.\<close>

lemma AddEntry_twice:
  "check_order (r_entries (AddEntry k v (AddEntry k w \<lparr>r_seq = n, r_signature = sig, r_entries = []\<rparr>))) = Inl (DuplicatedKey k)"
  by (simp add: AddEntry_def entries_Sort_def)

section \<open>Reading back what was written\<close>

definition same_entry :: "('v \<Rightarrow> 'w) \<Rightarrow> 'v entry \<Rightarrow> 'v entry \<Rightarrow> bool" where
  "same_entry view e e' \<longleftrightarrow> e_k e' = e_k e \<and> rel_option (\<lambda>v v'. view v' = view v) (e_v e) (e_v e')"

lemma same_entries:
  assumes "list_all2 (same_entry view) es es'"
  shows "map e_k es' = map e_k es" "map key es' = map key es" "(\<forall>e\<in>set es. e_v e \<noteq> None) \<Longrightarrow> \<forall>e\<in>set es'. e_v e \<noteq> None"
  using assms by (induction rule: list_all2_induct) (auto simp: same_entry_def option_rel_Some1)

lemma entry_values_exist: "\<forall>e\<in>set es. e_v e \<noteq> None \<Longrightarrow> \<exists>vs. entry_values F es = Some vs"
  by (induction es) (auto split: option.splits)

lemma entry_values_same:
  assumes "list_all2 (same_entry view) es es'" and "entry_values F es = Some vs"
  shows "\<exists>vs'. entry_values F es' = Some vs' \<and> map view vs' = map view vs"
  using assms by (induction arbitrary: vs rule: list_all2_induct) (fastforce simp: same_entry_def option_rel_Some1 split: option.splits)+

context fastrlp_laws
begin

lemma read_entries_written:
  assumes "entry_values F es = Some vs" and "map view ws = map view vs"
  shows "\<exists>es'. read_entries F ws = Inr es' \<and> list_all2 (same_entry view) es es' \<and> length ws = 2 * length es"
  using assms
proof (induction es arbitrary: vs ws)
  case (Cons e es)
  from Cons.prems(1) obtain v us where v: "e_v e = Some v" "entry_values F es = Some us" "vs = NewBytes F (key e) # v # us"
    by (auto split: option.splits)
  with Cons.prems(2) obtain k w ws' where ws: "ws = k # w # ws'" "view k = view (NewBytes F (key e))" "view w = view v" "map view ws' = map view us"
    by (auto simp: map_eq_Cons_conv)
  from Cons.IH [OF v(2) ws(4)] obtain es' where es': "read_entries F ws' = Inr es'" "list_all2 (same_entry view) es es'" "length ws' = 2 * length es" by blast
  have "same_entry view e \<lparr>e_k = e_k e, e_v = Some w\<rparr>" using v ws by (simp add: same_entry_def)
  then show ?case using es' v ws GetBytes_NewBytes [OF ws(2), of None] by simp
qed simp

lemma UnmarshalRLP_written:
  assumes ok: "record_ok r" and b: "Record_MarshalRLP F r = Some b" "length b < 2 ^ 63"
  shows "\<exists>es'. Record_UnmarshalRLP F b = Inr (r\<lparr>r_entries := es'\<rparr>) \<and> list_all2 (same_entry view) (r_entries r) es'"
proof -
  obtain vs where vs: "entry_values F (r_entries r) = Some vs" "b = MarshalTo F (NewArray F (NewBytes F (r_signature r) # NewUint F (r_seq r) # vs))"
    using b(1) by (auto simp: Record_MarshalRLP_def)
  obtain v where v: "Parse F b = Some v" "view v = view (NewArray F (NewBytes F (r_signature r) # NewUint F (r_seq r) # vs))"
    using Parse_marshalled [of "NewArray F (NewBytes F (r_signature r) # NewUint F (r_seq r) # vs)"] b(2) vs(2) by blast
  obtain ws where ws: "GetElems F v = Some ws" "map view ws = view (NewBytes F (r_signature r)) # view (NewUint F (r_seq r)) # map view vs"
    using GetElems_NewArray [OF v(2)] by auto
  then obtain x y zs where zs: "ws = x # y # zs" "view x = view (NewBytes F (r_signature r))" "view y = view (NewUint F (r_seq r))" "map view zs = map view vs"
    by (auto simp: map_eq_Cons_conv)
  from read_entries_written [OF vs(1) zs(4)] obtain es' where es': "read_entries F zs = Inr es'" "list_all2 (same_entry view) (r_entries r) es'" "length zs = 2 * length (r_entries r)"
    by blast
  have "check_order es' = Inr ()" using ok same_entries(2) [OF es'(2)] by (simp add: check_order_iff record_ok_def)
  then show ?thesis
    using v(1) ws(1) zs(1) es' GetBytes_NewBytes [OF zs(2), of None] GetUint64_NewUint [OF zs(3)]
    by (intro exI [of _ es']) (cases r, simp add: Record_UnmarshalRLP_def)
qed

lemma entry_roundtrip:
  "Uint16_MarshalRLPWith F u = Some v \<Longrightarrow> view v' = view v \<Longrightarrow> Uint16_UnmarshalRLPWith F v' = Inr u"
  "String_MarshalRLPWith F s = Some v \<Longrightarrow> view v' = view v \<Longrightarrow> String_UnmarshalRLPWith F v' = Inr s"
  "IPv6_MarshalRLPWith F i = Some v \<Longrightarrow> view v' = view v \<Longrightarrow> IPv6_UnmarshalRLPWith F v' = of_option EnrRlp (To16 i)"
  "IPv4_MarshalRLPWith F i = Some v \<Longrightarrow> view v' = view v \<Longrightarrow> IPv4_UnmarshalRLPWith F v' = of_option EnrRlp (To4 i)"
  by (auto simp: Uint16_MarshalRLPWith_def Uint16_UnmarshalRLPWith_def String_MarshalRLPWith_def String_UnmarshalRLPWith_def
      IPv6_MarshalRLPWith_def IPv6_UnmarshalRLPWith_def IPv4_MarshalRLPWith_def IPv4_UnmarshalRLPWith_def
      GetUint64_NewUint GetBytes_NewBytes length_To16 length_To4 ucast_up_ucast_id is_up)

text \<open>What is read from an entry of the record read back.\<close>

lemma Load_written:
  assumes ok: "record_ok r" and es: "list_all2 (same_entry view) (r_entries r) es'" and e: "\<lparr>e_k = k, e_v = Some v\<rparr> \<in> set (r_entries r)"
    and dec: "\<And>v'. view v' = view v \<Longrightarrow> dec v' = x"
  shows "Record_Load (r\<lparr>r_entries := es'\<rparr>) k dec = Some x"
proof -
  have ok': "record_ok (r\<lparr>r_entries := es'\<rparr>)" using ok same_entries [OF es] by (simp add: record_ok_def)
  obtain i where i: "i < length (r_entries r)" "r_entries r ! i = \<lparr>e_k = k, e_v = Some v\<rparr>" using e by (auto simp: in_set_conv_nth)
  then have "same_entry view \<lparr>e_k = k, e_v = Some v\<rparr> (es' ! i)" and mem: "es' ! i \<in> set es'"
    using list_all2_nthD [OF es i(1)] list_all2_lengthD [OF es] by simp_all
  then obtain v' where "e_k (es' ! i) = k" "e_v (es' ! i) = Some v'" "view v' = view v" by (auto simp: same_entry_def option_rel_Some1)
  then show ?thesis using Load_entry [OF ok', of "es' ! i" dec] mem dec by simp
qed

end

lemma HasPrefix_enr: "HasPrefix (''enr:'' @ s) ''enr:''"
  by (simp add: HasPrefix_def)

lemma Record_Marshal_again:
  assumes lib: "rlp_library F view" and es: "list_all2 (same_entry view) (r_entries r) es'" and b: "Record_MarshalRLP F r = Some b"
  shows "Record_MarshalRLP F (r\<lparr>r_entries := es'\<rparr>) = Some b"
proof -
  obtain vs where vs: "entry_values F (r_entries r) = Some vs" "b = MarshalTo F (NewArray F (NewBytes F (r_signature r) # NewUint F (r_seq r) # vs))"
    using b by (auto simp: Record_MarshalRLP_def)
  obtain vs' where vs': "entry_values F es' = Some vs'" "map view vs' = map view vs" using entry_values_same [OF es vs(1)] by blast
  let ?a = "\<lambda>vs. NewArray F (NewBytes F (r_signature r) # NewUint F (r_seq r) # vs)"
  have "view (?a vs') = view (?a vs)" using vs'(2) by (simp add: rlp_library.view_NewArray [OF lib])
  then have "MarshalTo F (?a vs') = MarshalTo F (?a vs)" by (simp only: rlp_library.MarshalTo_rlp [OF lib])
  then show ?thesis using vs vs'(1) by (simp add: Record_MarshalRLP_def)
qed

section \<open>Properties\<close>

text \<open>Property C40. A record and its text. A record with ascending keys and all its values has a text; the text is read as a record with the same sequence number,
  signature and keys, which has the same text again, and from which every number, string and address loads as it was added, addresses in
  their form of 4 or 16 bytes.\<close>

theorem enr_roundtrip:
  assumes lib: "rlp_library F view" and ok: "record_ok r" and b: "Record_MarshalRLP F r = Some b" "length b < 2 ^ 63"
  shows "\<exists>s r'. Record_Marshal F r = Some s \<and> Record_Unmarshal F s = Inr r' \<and> record_ok r' \<and> Record_Marshal F r' = Some s \<and>
    r_seq r' = r_seq r \<and> r_signature r' = r_signature r \<and> map e_k (r_entries r') = map e_k (r_entries r) \<and>
    (\<forall>k u. \<lparr>e_k = k, e_v = Uint16_MarshalRLPWith F u\<rparr> \<in> set (r_entries r) \<longrightarrow> Record_Load r' k (Uint16_UnmarshalRLPWith F) = Some (Inr u)) \<and>
    (\<forall>k t. \<lparr>e_k = k, e_v = String_MarshalRLPWith F t\<rparr> \<in> set (r_entries r) \<longrightarrow> Record_Load r' k (String_UnmarshalRLPWith F) = Some (Inr t)) \<and>
    (\<forall>k i p. To4 i = Some p \<and> \<lparr>e_k = k, e_v = IPv4_MarshalRLPWith F i\<rparr> \<in> set (r_entries r) \<longrightarrow> Record_Load r' k (IPv4_UnmarshalRLPWith F) = Some (Inr p)) \<and>
    (\<forall>k i p. To16 i = Some p \<and> \<lparr>e_k = k, e_v = IPv6_MarshalRLPWith F i\<rparr> \<in> set (r_entries r) \<longrightarrow> Record_Load r' k (IPv6_UnmarshalRLPWith F) = Some (Inr p))"
proof -
  have laws: "fastrlp_laws F view" using lib by (simp add: rlp_library_def)
  obtain es' where es': "Record_UnmarshalRLP F b = Inr (r\<lparr>r_entries := es'\<rparr>)" "list_all2 (same_entry view) (r_entries r) es'"
    using fastrlp_laws.UnmarshalRLP_written [OF laws ok b] by blast
  let ?s = "''enr:'' @ RawURL_EncodeToString b" and ?r = "r\<lparr>r_entries := es'\<rparr>"
  have printed: "Record_Marshal F r = Some ?s" "Record_Marshal F ?r = Some ?s"
    using b(1) Record_Marshal_again [OF lib es'(2) b(1)] by (simp_all add: Record_Marshal_def)
  have read: "Record_Unmarshal F ?s = Inr ?r" using es'(1) HasPrefix_enr [of "RawURL_EncodeToString b"] by (simp add: Record_Unmarshal_def RawURL_roundtrip)
  have ok': "record_ok ?r" "map e_k es' = map e_k (r_entries r)" using ok same_entries [OF es'(2)] by (simp_all add: record_ok_def)
  note load = fastrlp_laws.Load_written [OF laws ok es'(2)] and entries = fastrlp_laws.entry_roundtrip [OF laws]
  have "Record_Load ?r k (Uint16_UnmarshalRLPWith F) = Some (Inr u)" if "\<lparr>e_k = k, e_v = Uint16_MarshalRLPWith F u\<rparr> \<in> set (r_entries r)" for k u
    using that entries(1) [of u] load [of k _ "Uint16_UnmarshalRLPWith F"] by (simp add: Uint16_MarshalRLPWith_def)
  moreover have "Record_Load ?r k (String_UnmarshalRLPWith F) = Some (Inr t)" if "\<lparr>e_k = k, e_v = String_MarshalRLPWith F t\<rparr> \<in> set (r_entries r)" for k t
    using that entries(2) [of t] load [of k _ "String_UnmarshalRLPWith F"] by (simp add: String_MarshalRLPWith_def)
  moreover have "Record_Load ?r k (IPv4_UnmarshalRLPWith F) = Some (Inr p)" if "To4 i = Some p" "\<lparr>e_k = k, e_v = IPv4_MarshalRLPWith F i\<rparr> \<in> set (r_entries r)" for k i p
    using that entries(4) [of i] load [of k _ "IPv4_UnmarshalRLPWith F"] by (simp add: IPv4_MarshalRLPWith_def)
  moreover have "Record_Load ?r k (IPv6_UnmarshalRLPWith F) = Some (Inr p)" if "To16 i = Some p" "\<lparr>e_k = k, e_v = IPv6_MarshalRLPWith F i\<rparr> \<in> set (r_entries r)" for k i p
    using that entries(3) [of i] load [of k _ "IPv6_UnmarshalRLPWith F"] by (simp add: IPv6_MarshalRLPWith_def)
  ultimately show ?thesis using printed read ok' by (intro exI [of _ ?s] exI [of _ ?r]) (simp, blast)
qed

definition demo_record :: "rlp Record" where
  "demo_record = AddEntry ''udp'' (Uint16_MarshalRLPWith rlp_ref 30303) (AddEntry ''ip'' (IPv4_MarshalRLPWith rlp_ref [127, 0, 0, 1])
     \<lparr>r_seq = 1, r_signature = [1, 2], r_entries = []\<rparr>)"

theorem enr_roundtrip_witness:
  "\<exists>s r'. Record_Marshal rlp_ref demo_record = Some s \<and> Record_Unmarshal rlp_ref s = Inr r' \<and> r_seq r' = 1 \<and>
    Record_Load r' ''udp'' (Uint16_UnmarshalRLPWith rlp_ref) = Some (Inr 30303) \<and> Record_Load r' ''ip'' (IPv4_UnmarshalRLPWith rlp_ref) = Some (Inr [127, 0, 0, 1])"
proof -
  let ?e = "\<lparr>r_seq = 1, r_signature = [1, 2], r_entries = []\<rparr> :: rlp Record"
  have "record_ok (AddEntry ''ip'' (IPv4_MarshalRLPWith rlp_ref [127, 0, 0, 1]) ?e)"
    unfolding IPv4_MarshalRLPWith_def To4_def by simp (rule AddEntry_ok, simp_all add: record_ok_def)
  then have ok: "record_ok demo_record"
    unfolding demo_record_def Uint16_MarshalRLPWith_def by (rule AddEntry_ok) (simp add: AddEntry_def entries_Sort_def)
  have set: "set (r_entries demo_record) = {\<lparr>e_k = ''ip'', e_v = IPv4_MarshalRLPWith rlp_ref [127, 0, 0, 1]\<rparr>, \<lparr>e_k = ''udp'', e_v = Uint16_MarshalRLPWith rlp_ref 30303\<rparr>}"
    "r_seq demo_record = 1" "r_signature demo_record = [1, 2]"
    by (auto simp: demo_record_def AddEntry_def entries_Sort_def)
  have es: "r_entries demo_record = [\<lparr>e_k = ''ip'', e_v = Some (Str [127, 0, 0, 1])\<rparr>, \<lparr>e_k = ''udp'', e_v = Some (Str [0x76, 0x5f])\<rparr>]"
    by (simp add: demo_record_def AddEntry_def entries_Sort_def IPv4_MarshalRLPWith_def To4_def Uint16_MarshalRLPWith_def rlp_eval bytes_of_string_def byte_of_char_def)
  obtain b where b: "Record_MarshalRLP rlp_ref demo_record = Some b" "length b < 2 ^ 63"
    by (simp add: Record_MarshalRLP_def es set(2,3) rlp_eval bytes_of_string_def)
  have "To4 [127, 0, 0, 1] = Some [127, 0, 0, 1]" by (simp add: To4_def)
  then show ?thesis using enr_roundtrip [OF rlp_wire.rlp_library_axioms ok b] unfolding set by (metis insertI1 insertI2)
qed

end
