(* ===== verification/Spec2Isabelle.thy ===== *)
theory Spec2Isabelle
  imports Discv4Run EthBackend Enr
begin

text \<open>
  Verification of go-devp2p, an implementation of the devp2p stack: node discovery (a Kademlia
  table, discovery v4, DNS discovery), the RLPx transport, the eth wire protocol and the server
  that connects them. The server dials the nodes that discovery delivers, RLPx makes an encrypted session of the
  connection and gives a stream to each protocol that both ends speak, and the handler of each protocol
  works on its stream.

  \<^bold>\<open>Conventions.\<close> \<open>Prelude\<close> has the machine types and the ways a Go call can fail: \<open>None\<close> is a call that panics or
  never comes back, \<open>Inl\<close> a returned error. \<open>GoMonad\<close> adds the state, for code that changes it step by step. Goroutines
  are steps of a relation on the state they share, taken in any order; locks are
  not modelled beyond making an operation one step. Randomness, the clock and the order in which Go ranges over a map are arguments.

  \<^bold>\<open>The Go library.\<close> Written out as far as the program uses it: \<open>GoStd\<close> (\<open>encoding/binary\<close>, \<open>sort.Search\<close>,
  \<open>hash/crc32\<close>), \<open>GoHex\<close>, \<open>GoBase64\<close>, \<open>GoNet\<close> (\<open>strconv\<close>, IP addresses), \<open>GoUrl\<close> (\<open>net/url\<close>), \<open>GoHeap\<close> (\<open>container/heap\<close>, over the
  contract \<open>heap_interface\<close>), \<open>GoAes\<close> (the AES cipher and its counter mode).

  \<^bold>\<open>Libraries outside the repository\<close> are parameters with a contract: the RLP library is the record \<open>fastrlp\<close> of \<open>Fastrlp\<close> with
  \<open>fastrlp_laws\<close>, \<open>rlp_message\<close> and \<open>rlp_library\<close>; the curve, the hash and ECIES are \<open>crypto_lib\<close> of
  \<open>Crypto\<close> with \<open>crypto_laws\<close>; snappy is \<open>snappy_lib\<close> of \<open>RlpxFrame\<close> with \<open>rlpx_laws\<close> and \<open>handshake_laws\<close>. \<open>RlpRef\<close> is
  a reference codec for RLP; with the other demonstration instances it shows that the contracts can be met, and the witnesses
  evaluate on it. Its decoder has fuel, three units for every byte, which is shown to be enough.

  \<^bold>\<open>Kademlia\<close> (\<open>discovery/kademlia\<close>). \<open>KadUtil\<close> models \<open>util.go\<close>, \<open>KadBucket\<close> models \<open>bucket.go\<close>,
  \<open>KadTable\<close> models \<open>kademlia.go\<close> and \<open>sorting.go\<close>, with the well-formedness invariant of the
  table; \<open>KadLookup\<close> has the lookups, the reachable states and the contract \<open>peer_table\<close> that discovery relies on. Shown: what
  \<open>Update\<close> and \<open>Remove\<close> do on every branch, that lookups give exactly the nearest peers in order, and when a
  bucket operation comes back.

  \<^bold>\<open>Discovery\<close> (\<open>discovery/discv4.go\<close>). \<open>Discv4Msg\<close> has the peers and messages, \<open>Discv4Packet\<close> the signed
  packets, \<open>Discv4Backend\<close> the handlers, probes, queries and lookups, \<open>Discv4Inv\<close> their invariant and \<open>Discv4Run\<close> the goroutines
  together. Shown: round trips of messages and packets, which packets are accepted, that the invariant holds in every run, what a ping and
  a query are answered with, that a response reaches its callback, that a lost response ends in a timeout, that a lookup asks a
  bounded number of nodes, and which packets make \<open>HandlePacket\<close> panic.

  \<^bold>\<open>Crypto and addresses.\<close> \<open>Crypto\<close> models \<open>crypto/crypto.go\<close>, \<open>Enode\<close> models \<open>enode/enode.go\<close>. Shown: a signature
  gives back its key, and an enode printed as a URL parses to itself. \<open>Enr\<close> models the node records of \<open>enr\<close>: a record
  printed as text is read back with every entry, and adding an entry keeps a record well formed.

  \<^bold>\<open>RLPx\<close> (\<open>rlpx\<close>). \<open>RlpxCommon\<close> models \<open>common.go\<close>, \<open>RlpxFrame\<close> the frames in \<open>session.go\<close>, \<open>RlpxHandshake\<close> the encryption
  handshake in \<open>handshake.go\<close> and \<open>handshake_messages.go\<close>, \<open>RlpxStream\<close> models \<open>stream.go\<close>, \<open>RlpxSession\<close> the sessions in
  \<open>session.go\<close>, the protocol handshake in \<open>handshake.go\<close> and the constructors in \<open>rlpx.go\<close>. \<open>RlpxChannel\<close> shows that what one half writes
  the other reads, however the network cuts it, and that nothing else is accepted; \<open>RlpxHandshake\<close> that both sides of the
  handshake agree; \<open>RlpxProps\<close> and \<open>RlpxLink\<close> that two nodes open linked sessions, that the negotiation gives each message code to one
  stream, that a message written to a stream is read at the other end, and that a session stays well formed.

  \<^bold>\<open>Fork identifiers\<close> (\<open>forkid/forkid.go\<close>). \<open>Forkid\<close>: the identifier at a block is the one of the specification, what
  the validation of a remote identifier decides, and that it accepts nodes of the same chain.

  \<^bold>\<open>Periodic tasks\<close> (\<open>periodic.go\<close>). \<open>PeriodicHeap\<close> is the heap of scheduled jobs, a refinement of a map from jobs to times; \<open>Periodic\<close>
  the dispatcher with its goroutine, its invariant and that a due job is delivered.

  \<^bold>\<open>The server\<close> (\<open>server.go\<close>, \<open>peer.go\<close>, \<open>peerstore.go\<close>, \<open>config.go\<close>, \<open>transport.go\<close>). \<open>Server\<close>: dialing, the end of a dial task,
  the addition and removal of peers, over the contract \<open>session_laws\<close> of a session, which the sessions of RLPx meet. Shown: the
  invariant of a server in every reachable state, and when a node is dialed again.

  \<^bold>\<open>The eth protocol\<close> (\<open>wire/eth\<close>). \<open>EthMsg\<close> models \<open>messages.go\<close>, \<open>EthBackend\<close> models \<open>backend.go\<close>. Shown: round trips of the
  messages, that a request is answered by the other node and returned to its caller, and, about the whole stack, that a server
  which speaks only eth never stores a peer, since it waits for a handler that returns only with an error.

  \<^bold>\<open>Loops.\<close> A loop that need not end is a \<open>partial_function\<close> with \<open>None\<close> for not returning: \<open>MoveToFront\<close> of a bucket, the
  splitting of the last bucket, the loops of discovery, of a session and of the eth handler. All others are shown to end.

  \<^bold>\<open>Not modelled.\<close> The DNS discovery in \<open>dnsdisc\<close>, a walk over the answers of DNS queries that \<open>fmt.Sscanf\<close> and base32 take apart; the UDP and mock transports of \<open>discovery\<close>
  and the listening and dialing of \<open>rlpx.go\<close>, which only move bytes between sockets and channels; the JSON file of the peer
  store; logging, and the addresses and deadlines of a stream.
\<close>

end
